(* ===== verification/Prelude.thy ===== *)
theory Prelude
  imports Main "HOL-Library.Word" "HOL-Library.Sublist"
begin

text \<open>
  Shared vocabulary of the development: Go's failure modes as values (a run-time panic or a
  returned error), the fixed-width byte type, slice indexing, Go maps, and the list and bit
  lemmas that more than one component uses.
\<close>

unbundle bit_operations_syntax

section \<open>Fact collections\<close>

named_theorems res_simps "rewrite rules for results that may fail"
named_theorems wire_simps "rewrite rules for byte-level encodings"

section \<open>Results\<close>

text \<open>
  A Go function that can panic or return an error yields \<open>Inl\<close> of the fault; one that
  completes yields \<open>Inr\<close> of its value.
\<close>

datatype go_fault = Panic string | Err string

type_synonym 'a res = "go_fault + 'a"

definition res_bind :: "'a res \<Rightarrow> ('a \<Rightarrow> 'b res) \<Rightarrow> 'b res" where
  "res_bind m f = (case m of Inl e \<Rightarrow> Inl e | Inr x \<Rightarrow> f x)"

lemma res_bind_Inl [simp]: "res_bind (Inl e) f = Inl e"
  by (simp add: res_bind_def)

lemma res_bind_Inr [simp]: "res_bind (Inr x) f = f x"
  by (simp add: res_bind_def)

lemma res_bind_eq_Inr [res_simps]:
  "res_bind m f = Inr y \<longleftrightarrow> (\<exists>x. m = Inr x \<and> f x = Inr y)"
  by (cases m) auto

lemma res_bind_eq_Inl [res_simps]:
  "res_bind m f = Inl e \<longleftrightarrow> m = Inl e \<or> (\<exists>x. m = Inr x \<and> f x = Inl e)"
  by (cases m) auto

lemma res_bind_cong [fundef_cong]:
  "\<lbrakk>m = m'; \<And>x. m' = Inr x \<Longrightarrow> f x = f' x\<rbrakk> \<Longrightarrow> res_bind m f = res_bind m' f'"
  by (cases m') auto

definition is_ok :: "'a res \<Rightarrow> bool" where
  "is_ok m = (case m of Inl _ \<Rightarrow> False | Inr _ \<Rightarrow> True)"

lemma is_ok_simps [simp]: "is_ok (Inr x)" "\<not> is_ok (Inl e)"
  by (simp_all add: is_ok_def)

lemma is_ok_iff: "is_ok m \<longleftrightarrow> (\<exists>x. m = Inr x)"
  by (cases m) auto

definition is_panic :: "'a res \<Rightarrow> bool" where
  "is_panic m = (case m of Inl (Panic _) \<Rightarrow> True | _ \<Rightarrow> False)"

lemma is_panic_simps [simp]:
  "is_panic (Inl (Panic s))" "\<not> is_panic (Inl (Err s))" "\<not> is_panic (Inr x)"
  by (simp_all add: is_panic_def)

lemma is_ok_not_panic: "is_ok m \<Longrightarrow> \<not> is_panic m"
  by (cases m) auto

section \<open>Bytes and slices\<close>

type_synonym byte = "8 word"

abbreviation index_out_of_range :: go_fault where
  "index_out_of_range \<equiv> Panic ''index out of range''"

abbreviation slice_bounds_out_of_range :: go_fault where
  "slice_bounds_out_of_range \<equiv> Panic ''slice bounds out of range''"

text \<open>Indexing \<open>xs[i]\<close> panics outside the slice.\<close>

definition go_index :: "'a list \<Rightarrow> nat \<Rightarrow> 'a res" where
  "go_index xs i = (if i < length xs then Inr (xs ! i) else Inl index_out_of_range)"

text \<open>\<open>xs[i:]\<close> panics when \<open>i\<close> is beyond the length.\<close>

definition go_slice_from :: "'a list \<Rightarrow> nat \<Rightarrow> 'a list res" where
  "go_slice_from xs i =
     (if i \<le> length xs then Inr (drop i xs) else Inl slice_bounds_out_of_range)"

text \<open>
  \<open>copy(dst, src)\<close> overwrites the first \<open>min (len dst) (len src)\<close> elements of the
  destination and returns that number.
\<close>

definition go_copy :: "'a list \<Rightarrow> 'a list \<Rightarrow> 'a list" where
  "go_copy dst src = take (length dst) src @ drop (length src) dst"

definition go_copy_n :: "'a list \<Rightarrow> 'a list \<Rightarrow> nat" where
  "go_copy_n dst src = min (length dst) (length src)"

lemma length_go_copy [simp]: "length (go_copy dst src) = length dst"
  by (simp add: go_copy_def)

lemma go_copy_full: "length src = length dst \<Longrightarrow> go_copy dst src = src"
  by (simp add: go_copy_def)

section \<open>Bits of a byte string\<close>

text \<open>
  Bit \<open>n\<close> of a byte string, the most significant bit of the first byte being bit 0:
  the expression \<open>b[n/8] >> (7 - n%8) & 1 == 1\<close> that the source repeats.
\<close>

definition bit_at :: "byte list \<Rightarrow> nat \<Rightarrow> bool" where
  "bit_at bs n = (drop_bit (7 - n mod 8) (bs ! (n div 8)) AND 1 = 1)"

definition bits_of :: "byte list \<Rightarrow> bool list" where
  "bits_of bs = map (bit_at bs) [0..<length bs * 8]"

lemma bit_at_bit: "bit_at bs n = bit (bs ! (n div 8)) (7 - n mod 8)"
proof -
  have "drop_bit (7 - n mod 8) (bs ! (n div 8)) AND 1
      = of_bool (odd (drop_bit (7 - n mod 8) (bs ! (n div 8))))"
    by (simp add: and_one_eq odd_iff_mod_2_eq_one)
  then show ?thesis
    by (simp add: bit_at_def bit_iff_odd_drop_bit)
qed

lemma unat_byte_less [simp]: "unat (b :: byte) < 256"
  using unsigned_less [of b] by simp

lemma length_bits_of [simp]: "length (bits_of bs) = length bs * 8"
  by (simp add: bits_of_def)

lemma nth_bits_of [simp]: "n < length bs * 8 \<Longrightarrow> bits_of bs ! n = bit_at bs n"
  by (simp add: bits_of_def)

lemma byte_eq_bits: "(a :: byte) = b \<longleftrightarrow> (\<forall>j < 8. bit a (7 - j) = bit b (7 - j))"
proof
  assume all: "\<forall>j < 8. bit a (7 - j) = bit b (7 - j)"
  show "a = b"
  proof (rule bit_word_eqI)
    fix n assume "n < LENGTH(8)"
    then have "7 - (7 - n) = n" and "7 - n < 8" by simp_all
    with all show "bit a n \<longleftrightarrow> bit b n" by metis
  qed
qed simp

lemma bits_of_inject:
  assumes len: "length xs = length ys" and eq: "bits_of xs = bits_of ys"
  shows "xs = ys"
proof (rule nth_equalityI [OF len])
  fix i assume i: "i < length xs"
  show "xs ! i = ys ! i"
    unfolding byte_eq_bits
  proof (intro allI impI)
    fix j :: nat assume j: "j < 8"
    let ?n = "8 * i + j"
    have n: "?n < length xs * 8" using i j by linarith
    have "bits_of xs ! ?n = bits_of ys ! ?n" by (simp add: eq)
    then have "bit_at xs ?n = bit_at ys ?n" using n len by simp
    moreover have "?n div 8 = i" and "?n mod 8 = j" using j by simp_all
    ultimately show "bit (xs ! i) (7 - j) = bit (ys ! i) (7 - j)"
      by (simp add: bit_at_bit)
  qed
qed

lemma bits_of_eq_iff: "length xs = length ys \<Longrightarrow> bits_of xs = bits_of ys \<longleftrightarrow> xs = ys"
  using bits_of_inject by blast

definition xor_bytes :: "byte list \<Rightarrow> byte list \<Rightarrow> byte list" where
  "xor_bytes xs ys = map2 (XOR) xs ys"

lemma length_xor_bytes [simp]: "length (xor_bytes xs ys) = min (length xs) (length ys)"
  by (simp add: xor_bytes_def)

lemma xor_bytes_nth [simp]:
  "i < length xs \<Longrightarrow> i < length ys \<Longrightarrow> xor_bytes xs ys ! i = xs ! i XOR ys ! i"
  by (simp add: xor_bytes_def)

lemma xor_bytes_cancel:
  "length xs = length ys \<Longrightarrow> xor_bytes (xor_bytes xs ys) ys = xs"
  by (rule nth_equalityI) (simp_all add: xor.assoc)

lemma xor_bytes_commute: "length xs = length ys \<Longrightarrow> xor_bytes xs ys = xor_bytes ys xs"
  by (rule nth_equalityI) (simp_all add: xor.commute)

lemma xor_bytes_inject:
  "length xs = length zs \<Longrightarrow> length ys = length zs \<Longrightarrow>
     xor_bytes xs zs = xor_bytes ys zs \<longleftrightarrow> xs = ys"
  by (metis xor_bytes_cancel)

lemma xor_bytes_zero_iff:
  assumes "length xs = length ys"
  shows "list_all (\<lambda>b. b = 0) (xor_bytes xs ys) \<longleftrightarrow> xs = ys"
proof -
  have "list_all (\<lambda>b. b = 0) (xor_bytes xs ys) \<longleftrightarrow> xor_bytes xs ys = replicate (length ys) 0"
    using assms by (auto simp: list_all_iff intro: replicate_eqI)
  also have "replicate (length ys) 0 = xor_bytes ys ys"
    by (rule nth_equalityI) simp_all
  also have "xor_bytes xs ys = xor_bytes ys ys \<longleftrightarrow> xs = ys"
    using assms by (intro xor_bytes_inject) simp_all
  finally show ?thesis .
qed

lemma bit_at_xor_bytes:
  assumes "length xs = length ys" and "n < length xs * 8"
  shows "bit_at (xor_bytes xs ys) n = (bit_at xs n \<noteq> bit_at ys n)"
proof -
  have "n div 8 < length xs" using assms(2) by (simp add: div_less_iff_less_mult)
  with assms(1) show ?thesis by (simp add: bit_at_bit bit_xor_iff)
qed

lemma bits_of_xor_bytes:
  "length xs = length ys \<Longrightarrow> bits_of (xor_bytes xs ys) = map2 (\<noteq>) (bits_of xs) (bits_of ys)"
  by (rule nth_equalityI) (simp_all add: bit_at_xor_bytes)

section \<open>Lists and maps\<close>

lemma prefix_snoc_nth:
  assumes "prefix p xs" and "length p < length xs"
  shows "prefix (p @ [xs ! length p]) xs"
proof -
  from assms obtain r where r: "xs = p @ r" by (auto elim: prefixE)
  with assms(2) obtain y ys where "r = y # ys" by (cases r) auto
  with r show ?thesis by (simp add: prefix_def)
qed

lemma prefix_snoc_nthD: "prefix (p @ [b]) xs \<Longrightarrow> xs ! length p = b"
  by (auto elim!: prefixE simp: nth_append)

lemma prefix_snocD: "prefix (p @ [b]) xs \<Longrightarrow> prefix p xs"
  by (auto elim!: prefixE)

lemma prefix_full_eq: "prefix p xs \<Longrightarrow> length p = length xs \<Longrightarrow> p = xs"
  by (auto elim!: prefixE)

text \<open>A Go map read yields the zero value for a missing key.\<close>

definition map_get :: "'v \<Rightarrow> ('k \<rightharpoonup> 'v) \<Rightarrow> 'k \<Rightarrow> 'v" where
  "map_get z m k = (case m k of None \<Rightarrow> z | Some v \<Rightarrow> v)"

lemma map_get_upd [simp]: "map_get z (m(k \<mapsto> v)) k' = (if k' = k then v else map_get z m k')"
  by (simp add: map_get_def)

lemma map_get_empty [simp]: "map_get z Map.empty k = z"
  by (simp add: map_get_def)

text \<open>
  Ranging over a Go map visits every key once in an unspecified order: a list of keys is a
  possible visiting order of a map when it enumerates the domain without repetition.
\<close>

definition map_order :: "('k \<rightharpoonup> 'v) \<Rightarrow> 'k list \<Rightarrow> bool" where
  "map_order m ks \<longleftrightarrow> distinct ks \<and> set ks = dom m"

section \<open>Time\<close>

text \<open>
  A \<open>time.Time\<close> is the number of nanoseconds since the zero time, so \<open>time.Time{}\<close> is \<open>0\<close>,
  \<open>Before\<close> is \<open><\<close> and \<open>Add\<close> is \<open>+\<close>; a \<open>time.Duration\<close> is a number of nanoseconds.
\<close>

type_synonym time = int

abbreviation Second :: int where "Second \<equiv> 1000000000"
abbreviation Minute :: int where "Minute \<equiv> 60 * Second"
abbreviation Hour :: int where "Hour \<equiv> 60 * Minute"

text \<open>Go's \<open>int\<close> and \<open>time.Duration\<close> arithmetic is done in 64 bits.\<close>

definition wrap64 :: "int \<Rightarrow> int" where
  "wrap64 x = (x + 2 ^ 63) mod 2 ^ 64 - 2 ^ 63"

lemma wrap64_id: "- (2 ^ 63) \<le> x \<Longrightarrow> x < 2 ^ 63 \<Longrightarrow> wrap64 x = x"
  by (simp add: wrap64_def)

end
