(* ===== verification/NetIP.thy ===== *)
theory NetIP
  imports Prelude
begin

text \<open>
  The part of Go's \<open>net/netip\<close> and \<open>net\<close> packages the program uses: IP addresses as
  immutable values, address-port pairs, and the conversions between them and byte slices.
\<close>

section \<open>Addresses\<close>

text \<open>
  \<open>netip.Addr\<close>: the zero value is the invalid address; an IPv4 address carries four bytes,
  an IPv6 address sixteen bytes and a zone.
\<close>

datatype addr = AddrZero | Addr4 "byte list" | Addr6 "byte list" string

fun wf_addr :: "addr \<Rightarrow> bool" where
  "wf_addr AddrZero = True"
| "wf_addr (Addr4 b) = (length b = 4)"
| "wf_addr (Addr6 b z) = (length b = 16)"

fun addr_IsValid :: "addr \<Rightarrow> bool" where
  "addr_IsValid AddrZero = False"
| "addr_IsValid (Addr4 _) = True"
| "addr_IsValid (Addr6 _ _) = True"

fun addr_Is4 :: "addr \<Rightarrow> bool" where
  "addr_Is4 (Addr4 _) = True"
| "addr_Is4 _ = False"

fun addr_Is4In6 :: "addr \<Rightarrow> bool" where
  "addr_Is4In6 (Addr6 b _) = (take 12 b = replicate 10 0 @ [255, 255])"
| "addr_Is4In6 _ = False"

fun addr_As4 :: "addr \<Rightarrow> byte list res" where
  "addr_As4 (Addr4 b) = Inr b"
| "addr_As4 (Addr6 b z) =
     (if addr_Is4In6 (Addr6 b z) then Inr (drop 12 b) else Inl (Panic ''As4 called on IPv6 address''))"
| "addr_As4 AddrZero = Inl (Panic ''As4 called on IP zero value'')"

text \<open>\<open>As16\<close> of an IPv4 address is its IPv4-mapped IPv6 form; of the zero value, all zeros.\<close>

fun addr_As16 :: "addr \<Rightarrow> byte list" where
  "addr_As16 AddrZero = replicate 16 0"
| "addr_As16 (Addr4 b) = replicate 10 0 @ [255, 255] @ b"
| "addr_As16 (Addr6 b _) = b"

fun addr_AsSlice :: "addr \<Rightarrow> byte list" where
  "addr_AsSlice AddrZero = []"
| "addr_AsSlice (Addr4 b) = b"
| "addr_AsSlice (Addr6 b _) = b"

definition AddrFromSlice :: "byte list \<Rightarrow> addr" where
  "AddrFromSlice b =
     (if length b = 4 then Addr4 b else if length b = 16 then Addr6 b [] else AddrZero)"

record addr_port =
  ap_addr :: addr
  ap_port :: "16 word"

definition wf_addr_port :: "addr_port \<Rightarrow> bool" where
  "wf_addr_port ap = wf_addr (ap_addr ap)"

definition addr_port_IsValid :: "addr_port \<Rightarrow> bool" where
  "addr_port_IsValid ap = addr_IsValid (ap_addr ap)"

definition AddrPortFrom :: "addr \<Rightarrow> 16 word \<Rightarrow> addr_port" where
  "AddrPortFrom a p = \<lparr>ap_addr = a, ap_port = p\<rparr>"

section \<open>\<open>net.IP\<close>\<close>

text \<open>
  \<open>net.IP\<close> is a byte slice; \<open>To4\<close> returns the four-byte form of an IPv4 or
  IPv4-mapped address and nil, the empty slice, for everything else.
\<close>

definition ip_To4 :: "byte list \<Rightarrow> byte list" where
  "ip_To4 ip =
     (if length ip = 4 then ip
      else if length ip = 16 \<and> take 12 ip = replicate 10 0 @ [255, 255] then drop 12 ip
      else [])"

text \<open>\<open>net.IP.Equal\<close> identifies an IPv4 address with its IPv4-mapped IPv6 form.\<close>

definition ip_Equal :: "byte list \<Rightarrow> byte list \<Rightarrow> bool" where
  "ip_Equal a b =
     (if length a = length b then a = b
      else if length a = 4 \<and> length b = 16 then
        take 12 b = replicate 10 0 @ [255, 255] \<and> a = drop 12 b
      else if length a = 16 \<and> length b = 4 then
        take 12 a = replicate 10 0 @ [255, 255] \<and> b = drop 12 a
      else False)"

lemma ip_To4_length: "length (ip_To4 ip) = 4 \<or> ip_To4 ip = []"
  by (simp add: ip_To4_def)

lemma ip_To4_v4: "length ip = 4 \<Longrightarrow> ip_To4 ip = ip"
  by (simp add: ip_To4_def)

lemma length_AsSlice_v4: "wf_addr a \<Longrightarrow> addr_Is4 a \<Longrightarrow> length (addr_AsSlice a) = 4"
  by (cases a) auto

lemma AddrFromSlice_AsSlice_v4: "wf_addr a \<Longrightarrow> addr_Is4 a \<Longrightarrow> AddrFromSlice (addr_AsSlice a) = a"
  by (cases a) (auto simp: AddrFromSlice_def)

end
