(* ===== verification/ProtocolID.thy ===== *)
theory ProtocolID
  imports NetIP
begin

text \<open>
  The 160-bit identifiers of the DHT: \<open>protocol/id.go\<close> (parsing, printing, the binary and
  bencode encodings, bit access), \<open>protocol/int160.go\<close> (the unsigned integer view and the
  XOR distance) and \<open>protocol/secure_id.go\<close> (BEP-42 node identifiers derived from the
  external IP address).
\<close>

section \<open>Identifiers\<close>

text \<open>\<open>type ID [20]byte\<close>: a byte list of length 20.\<close>

type_synonym ID = "byte list"

definition wf_ID :: "ID \<Rightarrow> bool" where
  "wf_ID i \<longleftrightarrow> length i = 20"

definition ID_zero :: ID where
  "ID_zero = replicate 20 0"

definition ID_IsZero :: "ID \<Rightarrow> bool" where
  "ID_IsZero i = (i = replicate 20 0)"

subsection \<open>Hexadecimal text\<close>

definition hex_digit :: "nat \<Rightarrow> char" where
  "hex_digit n = (''0123456789abcdef'' ! n)"

definition hex_encode :: "byte list \<Rightarrow> string" where
  "hex_encode bs = concat (map (\<lambda>b. [hex_digit (unat b div 16), hex_digit (unat b mod 16)]) bs)"

definition from_hex_char :: "char \<Rightarrow> nat option" where
  "from_hex_char c =
     (let n = of_char c :: nat in
      if 48 \<le> n \<and> n \<le> 57 then Some (n - 48)
      else if 97 \<le> n \<and> n \<le> 102 then Some (n - 87)
      else if 65 \<le> n \<and> n \<le> 70 then Some (n - 55)
      else None)"

fun hex_decode :: "string \<Rightarrow> byte list res" where
  "hex_decode [] = Inr []"
| "hex_decode [c] =
     (case from_hex_char c of
        None \<Rightarrow> Inl (Err ''encoding/hex: invalid byte'')
      | Some _ \<Rightarrow> Inl (Err ''encoding/hex: odd length hex string''))"
| "hex_decode (c # d # cs) =
     (case (from_hex_char c, from_hex_char d) of
        (Some h, Some l) \<Rightarrow> res_bind (hex_decode cs) (\<lambda>bs. Inr (of_nat (16 * h + l) # bs))
      | _ \<Rightarrow> Inl (Err ''encoding/hex: invalid byte''))"

definition trim_prefix_0x :: "string \<Rightarrow> string" where
  "trim_prefix_0x s = (if take 2 s = ''0x'' then drop 2 s else s)"

definition ParseID :: "string \<Rightarrow> ID res" where
  "ParseID str =
     res_bind (hex_decode (trim_prefix_0x str))
       (\<lambda>b. if length b \<noteq> 20 then Inl (Err ''hash string must be 20 bytes'')
            else Inr (go_copy ID_zero b))"

definition MustParseID :: "string \<Rightarrow> ID res" where
  "MustParseID str = (case ParseID str of Inl _ \<Rightarrow> Inl (Panic ''MustParseID'') | Inr i \<Rightarrow> Inr i)"

definition ID_String :: "ID \<Rightarrow> string" where
  "ID_String i = hex_encode i"

subsection \<open>Construction from raw bytes\<close>

definition NewIDFromRawString :: "byte list \<Rightarrow> ID res" where
  "NewIDFromRawString s =
     (if go_copy_n ID_zero s \<noteq> 20 then Inl (Panic ''NewIDFromRawString'')
      else Inr (go_copy ID_zero s))"

definition NewIDFromByteSlice :: "byte list \<Rightarrow> ID res" where
  "NewIDFromByteSlice b =
     (if go_copy_n ID_zero b \<noteq> 20 then Inl (Err ''must be 20 bytes'')
      else Inr (go_copy ID_zero b))"

definition MustNewIDFromByteSlice :: "byte list \<Rightarrow> ID res" where
  "MustNewIDFromByteSlice b =
     (case NewIDFromByteSlice b of
        Inl _ \<Rightarrow> Inl (Panic ''MustNewIDFromByteSlice'') | Inr i \<Rightarrow> Inr i)"

text \<open>
  \<open>Scan\<close> receives a database value: \<open>Some\<close> of a byte slice, \<open>None\<close> for any other
  dynamic type. The receiver's bytes beyond a short value are kept.
\<close>

definition ID_Scan :: "ID \<Rightarrow> byte list option \<Rightarrow> ID res" where
  "ID_Scan i v = (case v of None \<Rightarrow> Inl (Err ''invalid bytes type'') | Some b \<Rightarrow> Inr (go_copy i b))"

definition ID_MarshalBinary :: "ID \<Rightarrow> byte list" where
  "ID_MarshalBinary i = i"

definition ID_UnmarshalBinary :: "byte list \<Rightarrow> ID res" where
  "ID_UnmarshalBinary d =
     (if length d \<noteq> 20 then Inl (Err ''invalid ID length'') else Inr (go_copy ID_zero d))"

definition bytes_of_string :: "string \<Rightarrow> byte list" where
  "bytes_of_string s = map (\<lambda>c. of_nat (of_char c :: nat)) s"

definition ID_MarshalBencode :: "ID \<Rightarrow> byte list" where
  "ID_MarshalBencode i = bytes_of_string ''20:'' @ i"

text \<open>
  The bencode decoder is a third-party package: \<open>unmarshal_string\<close> stands for
  \<open>bencode.Unmarshal\<close> into a string.
\<close>

definition ID_UnmarshalBencode :: "(byte list \<Rightarrow> byte list res) \<Rightarrow> byte list \<Rightarrow> ID res" where
  "ID_UnmarshalBencode unmarshal_string b =
     res_bind (unmarshal_string b)
       (\<lambda>s. if go_copy_n ID_zero s \<noteq> 20 then Inl (Err ''string has wrong length'')
            else Inr (go_copy ID_zero s))"

subsection \<open>Random identifiers carrying the client marker\<close>

definition idClientPart :: "byte list" where
  "idClientPart = bytes_of_string ''-BA0001-''"

text \<open>The 20 bytes read from the system's random source are an argument.\<close>

definition RandomNodeIDWithClientSuffix :: "byte list \<Rightarrow> ID" where
  "RandomNodeIDWithClientSuffix rand =
     take (20 - length idClientPart) rand @ idClientPart"

definition RandomPeerID :: "byte list \<Rightarrow> ID" where
  "RandomPeerID rand = idClientPart @ drop (length idClientPart) rand"

subsection \<open>Bits\<close>

definition ID_GetBit :: "ID \<Rightarrow> nat \<Rightarrow> bool res" where
  "ID_GetBit i n =
     res_bind (go_index i (n div 8)) (\<lambda>b. Inr (drop_bit (7 - n mod 8) b AND 1 = 1))"

definition ID_SetBit :: "ID \<Rightarrow> nat \<Rightarrow> bool \<Rightarrow> ID res" where
  "ID_SetBit i n v =
     res_bind (go_index i (n div 8))
       (\<lambda>b. Inr (i[n div 8 :=
          (if v then b OR push_bit (7 - n mod 8) 1 else b AND NOT (push_bit (7 - n mod 8) 1))]))"

section \<open>The integer view\<close>

type_synonym Int160 = "byte list"

definition NewInt160FromByteArray :: "byte list \<Rightarrow> Int160" where
  "NewInt160FromByteArray b = go_copy (replicate 20 0) b"

definition Int160_WithBit :: "Int160 \<Rightarrow> nat \<Rightarrow> bool \<Rightarrow> Int160 res" where
  "Int160_WithBit i index val =
     (let orVal = (if val then push_bit (7 - index mod 8) 1 else 0 :: byte);
          mask = NOT (push_bit (7 - index mod 8) 1) :: byte in
      res_bind (go_index i (index div 8))
        (\<lambda>b. Inr (i[index div 8 := (b AND mask) OR orVal])))"

definition Int160_GetBit :: "Int160 \<Rightarrow> nat \<Rightarrow> bool res" where
  "Int160_GetBit i index =
     res_bind (go_index i (index div 8)) (\<lambda>b. Inr (drop_bit (7 - index mod 8) b AND 1 = 1))"

fun Int160_Cmp :: "Int160 \<Rightarrow> Int160 \<Rightarrow> int" where
  "Int160_Cmp (a # as) (b # bs) =
     (if a < b then -1 else if a > b then 1 else Int160_Cmp as bs)"
| "Int160_Cmp _ _ = 0"

definition Int160_WithMax :: "Int160 \<Rightarrow> Int160" where
  "Int160_WithMax i = map (\<lambda>_. 255) i"

definition Int160_Xor :: "Int160 \<Rightarrow> Int160 \<Rightarrow> Int160" where
  "Int160_Xor b1 b2 = xor_bytes b1 b2"

definition Int160_IsZero :: "Int160 \<Rightarrow> bool" where
  "Int160_IsZero i = list_all (\<lambda>b. b = 0) i"

definition Int160_Distance :: "Int160 \<Rightarrow> Int160 \<Rightarrow> Int160" where
  "Int160_Distance i b = Int160_Xor i b"

text \<open>\<open>big.Int.SetBytes\<close> reads the bytes as a big-endian natural number.\<close>

definition be_nat :: "byte list \<Rightarrow> nat" where
  "be_nat bs = foldl (\<lambda>acc b. 256 * acc + unat b) 0 bs"

fun nat_bitlen :: "nat \<Rightarrow> nat" where
  "nat_bitlen n = (if n = 0 then 0 else Suc (nat_bitlen (n div 2)))"

declare nat_bitlen.simps [simp del]

definition Int160_BitLen :: "Int160 \<Rightarrow> nat" where
  "Int160_BitLen i = nat_bitlen (be_nat i)"

section \<open>BEP-42 node identifiers\<close>

text \<open>
  \<open>crc32.Checksum\<close> with the Castagnoli table, as the bit-at-a-time algorithm the table
  tabulates (reflected polynomial \<open>0x82f63b78\<close>).
\<close>

fun crc32c_bits :: "nat \<Rightarrow> 32 word \<Rightarrow> 32 word" where
  "crc32c_bits 0 c = c"
| "crc32c_bits (Suc n) c =
     crc32c_bits n (if bit c 0 then drop_bit 1 c XOR 0x82F63B78 else drop_bit 1 c)"

fun crc32c_update :: "32 word \<Rightarrow> byte list \<Rightarrow> 32 word" where
  "crc32c_update c [] = c"
| "crc32c_update c (b # bs) = crc32c_update (crc32c_bits 8 (c XOR ucast b)) bs"

definition crc32c :: "byte list \<Rightarrow> 32 word" where
  "crc32c bs = NOT (crc32c_update (NOT 0) bs)"

definition v4NodeIDMask :: "byte list" where
  "v4NodeIDMask = [0x03, 0x0f, 0x3f, 0xff]"

definition v6NodeIDMask :: "byte list" where
  "v6NodeIDMask = [0x01, 0x03, 0x07, 0x0f, 0x1f, 0x3f, 0x7f, 0xff]"

definition maskIPForBEP42 :: "addr \<Rightarrow> byte \<Rightarrow> byte list res" where
  "maskIPForBEP42 ip r =
     (if addr_Is4 ip \<or> addr_Is4In6 ip then
        res_bind (addr_As4 ip)
          (\<lambda>b. let m = map2 (AND) b v4NodeIDMask in Inr (m[0 := m ! 0 OR push_bit 5 r]))
      else
        (let m = map2 (AND) (addr_As16 ip) v6NodeIDMask in Inr (m[0 := m ! 0 OR push_bit 5 r])))"

definition secureNodeIDWithEntropy ::
  "addr \<Rightarrow> byte \<Rightarrow> byte \<Rightarrow> byte \<Rightarrow> byte list \<Rightarrow> ID res" where
  "secureNodeIDWithEntropy ip r randLastByte byte2LowBits interior =
     res_bind (maskIPForBEP42 ip r)
       (\<lambda>masked. let crc = crc32c masked in
          Inr ([ucast (drop_bit 24 crc), ucast (drop_bit 16 crc),
                ucast (drop_bit 8 crc AND 0xf8) OR (byte2LowBits AND 0x7)]
               @ go_copy (replicate 16 0) interior @ [randLastByte]))"

text \<open>The outcome of reading 17 bytes from the system's random source is an argument.\<close>

definition SecureNodeID :: "addr \<Rightarrow> byte list res \<Rightarrow> ID res" where
  "SecureNodeID ip rnd =
     (if \<not> addr_IsValid ip then Inl (Err ''invalid external IP for BEP-42 node ID'')
      else res_bind rnd
        (\<lambda>rng. let randLastByte = rng ! 0; r = randLastByte AND 0x7 in
           secureNodeIDWithEntropy ip r randLastByte (rng ! 1) (drop 2 rng)))"

definition VerifySecureNodeID :: "ID \<Rightarrow> addr \<Rightarrow> bool res" where
  "VerifySecureNodeID i ip =
     (if \<not> addr_IsValid ip then Inr False
      else let r = (i ! 19) AND 0x7 in
        res_bind (maskIPForBEP42 ip r)
          (\<lambda>masked. let crc = crc32c masked in
             if i ! 0 \<noteq> ucast (drop_bit 24 crc) then Inr False
             else if i ! 1 \<noteq> ucast (drop_bit 16 crc) then Inr False
             else if (i ! 2) AND 0xf8 \<noteq> ucast (drop_bit 8 crc AND 0xf8) then Inr False
             else Inr True))"

section \<open>Properties\<close>

subsection \<open>Text\<close>

lemma length_ID_zero [simp]: "length ID_zero = 20"
  by (simp add: ID_zero_def)

lemma from_hex_digit: "n < 16 \<Longrightarrow> from_hex_char (hex_digit n) = Some n"
proof -
  assume "n < 16"
  then have "n \<in> set [0..<16]" by simp
  moreover have "\<forall>m \<in> set [0..<16]. from_hex_char (hex_digit m) = Some m"
    by (simp add: upt_rec hex_digit_def from_hex_char_def Let_def)
  ultimately show ?thesis by blast
qed

lemma byte_nibbles: "(of_nat (16 * (unat b div 16) + unat b mod 16) :: byte) = b"
  by simp

lemma hex_decode_encode [wire_simps]: "hex_decode (hex_encode bs) = Inr bs"
proof (induction bs)
  case Nil
  then show ?case by (simp add: hex_encode_def)
next
  case (Cons b bs)
  have "unat b div 16 < 16" using unat_byte_less [of b] by (simp add: div_less_iff_less_mult)
  moreover have "unat b mod 16 < 16" by simp
  ultimately show ?case
    using Cons by (simp add: hex_encode_def from_hex_digit del: of_nat_add of_nat_mult)
qed

lemma hex_digit_not_x: "n < 16 \<Longrightarrow> hex_digit n \<noteq> CHR ''x''"
proof -
  assume "n < 16"
  then have "n \<in> set [0..<16]" by simp
  moreover have "\<forall>m \<in> set [0..<16]. hex_digit m \<noteq> CHR ''x''"
    by (simp add: upt_rec hex_digit_def)
  ultimately show ?thesis by blast
qed

lemma trim_prefix_hex_encode: "trim_prefix_0x (hex_encode bs) = hex_encode bs"
proof (cases bs)
  case Nil
  then show ?thesis by (simp add: trim_prefix_0x_def hex_encode_def)
next
  case (Cons b bs')
  have "hex_digit (unat b mod 16) \<noteq> CHR ''x''" by (simp add: hex_digit_not_x)
  with Cons show ?thesis by (simp add: trim_prefix_0x_def hex_encode_def)
qed

lemma ParseID_String_gen:
  assumes "wf_ID i"
  shows "ParseID (ID_String i) = Inr i" "ParseID (''0x'' @ ID_String i) = Inr i"
  using assms
  by (simp_all add: ParseID_def ID_String_def trim_prefix_hex_encode trim_prefix_0x_def [of "CHR ''0'' # _"]
      hex_decode_encode go_copy_full wf_ID_def)

lemma ParseID_wf: "ParseID s = Inr i \<Longrightarrow> wf_ID i"
  by (auto simp: ParseID_def wf_ID_def res_simps split: if_splits)

lemma NewIDFromByteSlice_eq:
  "NewIDFromByteSlice b = (if length b < 20 then Inl (Err ''must be 20 bytes'') else Inr (take 20 b))"
  by (simp add: NewIDFromByteSlice_def go_copy_n_def go_copy_def ID_zero_def)

lemma MustNewIDFromByteSlice_wf: "wf_ID b \<Longrightarrow> MustNewIDFromByteSlice b = Inr b"
  by (simp add: MustNewIDFromByteSlice_def NewIDFromByteSlice_eq wf_ID_def)

subsection \<open>Bits\<close>

lemma ID_GetBit_eq:
  "ID_GetBit i n = (if n < length i * 8 then Inr (bit_at i n) else Inl index_out_of_range)"
  by (auto simp: ID_GetBit_def go_index_def bit_at_def div_less_iff_less_mult)

lemma byte_set_bit:
  "bit ((if v then b OR push_bit k 1 else b AND NOT (push_bit k 1)) :: byte) j
     = (if j = k \<and> k < 8 then v else bit b j)"
  by (auto simp: bit_simps dest: bit_imp_le_length)

lemma ID_SetBit_GetBit:
  assumes "n < length i * 8" and "m < length i * 8"
  shows "\<exists>j. ID_SetBit i n v = Inr j \<and> length j = length i \<and>
             bit_at j m = (if m = n then v else bit_at i m)"
proof -
  have n: "n div 8 < length i" and m: "m div 8 < length i"
    using assms by (simp_all add: div_less_iff_less_mult)
  have same: "m = n \<longleftrightarrow> m div 8 = n div 8 \<and> 7 - m mod 8 = 7 - n mod 8"
  proof
    assume h: "m div 8 = n div 8 \<and> 7 - m mod 8 = 7 - n mod 8"
    have "m mod 8 < 8" "n mod 8 < 8" by simp_all
    with h have "m mod 8 = n mod 8" by linarith
    with h show "m = n" by (metis div_mult_mod_eq)
  qed simp
  let ?b = "if v then i ! (n div 8) OR push_bit (7 - n mod 8) 1
            else i ! (n div 8) AND NOT (push_bit (7 - n mod 8) 1)"
  have "bit_at (i[n div 8 := ?b]) m = (if m = n then v else bit_at i m)"
  proof (cases "m div 8 = n div 8")
    case True
    then have "bit_at (i[n div 8 := ?b]) m = bit ?b (7 - m mod 8)"
      using n by (simp add: bit_at_bit)
    also have "\<dots> = (if 7 - m mod 8 = 7 - n mod 8 then v else bit (i ! (n div 8)) (7 - m mod 8))"
      by (subst byte_set_bit) auto
    finally show ?thesis using True same by (simp add: bit_at_bit)
  next
    case False
    then show ?thesis using same by (simp add: bit_at_bit)
  qed
  then show ?thesis
    using n by (intro exI [of _ "i[n div 8 := ?b]"]) (simp add: ID_SetBit_def go_index_def)
qed

subsection \<open>Order and distance\<close>

definition bits_nat :: "bool list \<Rightarrow> nat" where
  "bits_nat bs = foldl (\<lambda>acc b. 2 * acc + of_bool b) 0 bs"

lemma bits_nat_acc: "foldl (\<lambda>acc b. 2 * acc + of_bool b) a bs = a * 2 ^ length bs + bits_nat bs"
proof (induction bs arbitrary: a)
  case (Cons b bs)
  have "bits_nat (b # bs) = of_bool b * 2 ^ length bs + bits_nat bs"
    unfolding bits_nat_def by (simp only: foldl_Cons Cons) (simp add: bits_nat_def)
  with Cons [of "2 * a + of_bool b"] show ?case by (simp add: algebra_simps)
qed (simp add: bits_nat_def)

lemma bits_nat_simps [simp]:
  "bits_nat [] = 0"
  "bits_nat (b # bs) = of_bool b * 2 ^ length bs + bits_nat bs"
proof -
  have "bits_nat (b # bs) = foldl (\<lambda>acc b. 2 * acc + of_bool b) (of_bool b) bs"
    by (simp add: bits_nat_def)
  then show "bits_nat (b # bs) = of_bool b * 2 ^ length bs + bits_nat bs"
    by (simp only: bits_nat_acc)
qed (simp add: bits_nat_def)

lemma bits_nat_append: "bits_nat (xs @ ys) = bits_nat xs * 2 ^ length ys + bits_nat ys"
proof -
  have "bits_nat (xs @ ys) = foldl (\<lambda>acc b. 2 * acc + of_bool b) (bits_nat xs) ys"
    by (simp add: bits_nat_def)
  then show ?thesis by (simp only: bits_nat_acc)
qed

lemma bits_nat_less: "bits_nat bs < 2 ^ length bs"
proof (induction bs)
  case (Cons b bs)
  have "of_bool b * 2 ^ length bs \<le> (2::nat) ^ length bs" by simp
  with Cons show ?case by simp
qed simp

lemma be_nat_acc: "foldl (\<lambda>acc b. 256 * acc + unat b) a bs = a * 256 ^ length bs + be_nat bs"
proof (induction bs arbitrary: a)
  case (Cons b bs)
  have "be_nat (b # bs) = unat b * 256 ^ length bs + be_nat bs"
    unfolding be_nat_def by (simp only: foldl_Cons Cons) (simp add: be_nat_def)
  with Cons [of "256 * a + unat b"] show ?case by (simp add: algebra_simps)
qed (simp add: be_nat_def)

lemma be_nat_simps [simp]:
  "be_nat [] = 0"
  "be_nat (b # bs) = unat b * 256 ^ length bs + be_nat bs"
proof -
  have "be_nat (b # bs) = foldl (\<lambda>acc b. 256 * acc + unat b) (unat b) bs"
    by (simp add: be_nat_def)
  then show "be_nat (b # bs) = unat b * 256 ^ length bs + be_nat bs"
    by (simp only: be_nat_acc)
qed (simp add: be_nat_def)

lemma be_nat_less: "be_nat bs < 256 ^ length bs"
proof (induction bs)
  case (Cons b bs)
  have "unat b \<le> 255" using unat_byte_less [of b] by linarith
  then have "unat b * 256 ^ length bs \<le> 255 * (256::nat) ^ length bs"
    by (rule mult_right_mono) simp
  with Cons show ?case unfolding be_nat_simps length_Cons power_Suc by linarith
qed simp

lemma be_nat_Cons_less:
  assumes "a < b" and "length as = length bs"
  shows "be_nat (a # as) < be_nat (b # bs)"
proof -
  have "unat a < unat b" by (rule word_less_nat_alt [THEN iffD1, OF assms(1)])
  then have "(unat a + 1) * 256 ^ length bs \<le> unat b * (256::nat) ^ length bs"
    by (intro mult_right_mono) simp_all
  then have "unat a * 256 ^ length bs + 256 ^ length bs \<le> unat b * (256::nat) ^ length bs"
    by (simp only: distrib_right mult_1)
  moreover have "be_nat as < 256 ^ length bs" using be_nat_less [of as] by (simp only: assms(2))
  ultimately show ?thesis unfolding be_nat_simps assms(2) by linarith
qed

lemma Int160_Cmp_be_nat:
  "length i = length r \<Longrightarrow>
     Int160_Cmp i r = (if be_nat i < be_nat r then -1 else if be_nat r < be_nat i then 1 else 0)"
proof (induction i r rule: Int160_Cmp.induct)
  case (1 a as b bs)
  show ?case
  proof (cases rule: linorder_cases [of a b])
    case less
    with "1.prems" be_nat_Cons_less [of a b as bs] show ?thesis by simp
  next
    case greater
    with "1.prems" be_nat_Cons_less [of b a bs as] show ?thesis by auto
  next
    case equal
    with "1" show ?thesis by simp
  qed
qed auto

lemma be_nat_inject: "length i = length r \<Longrightarrow> be_nat i = be_nat r \<longleftrightarrow> i = r"
proof (induction i r rule: list_induct2')
  case (4 a as b bs)
  show ?case
  proof (cases rule: linorder_cases [of a b])
    case less
    with "4.prems" be_nat_Cons_less [of a b as bs] show ?thesis by auto
  next
    case greater
    with "4.prems" be_nat_Cons_less [of b a bs as] show ?thesis by auto
  next
    case equal
    with 4 show ?thesis by simp
  qed
qed auto

lemma bits_of_Cons: "bits_of (b # bs) = map (\<lambda>j. bit b (7 - j)) [0..<8] @ bits_of bs"
proof (rule nth_equalityI)
  fix n assume "n < length (bits_of (b # bs))"
  then show "bits_of (b # bs) ! n = (map (\<lambda>j. bit b (7 - j)) [0..<8] @ bits_of bs) ! n"
  proof (cases "n < 8")
    case False
    then obtain m where "n = m + 8" using le_Suc_ex by (metis add.commute not_less)
    with \<open>n < length (bits_of (b # bs))\<close> show ?thesis
      by (simp add: nth_append bit_at_bit div_add_self2)
  qed (simp add: nth_append bit_at_bit)
qed simp

lemma bits_nat_horner: "bits_nat bs = horner_sum of_bool 2 (rev bs)"
  by (induction bs rule: rev_induct) (simp_all add: bits_nat_append)

lemma bits_nat_byte: "bits_nat (map (\<lambda>j. bit b (7 - j)) [0..<8]) = unat (b :: byte)"
proof -
  have "rev (map (\<lambda>j. bit b (7 - j)) [0..<8]) = map (bit (unat b)) [0..<8]"
    by (rule nth_equalityI) (auto simp: rev_nth bit_unsigned_iff)
  then have "bits_nat (map (\<lambda>j. bit b (7 - j)) [0..<8]) = take_bit 8 (unat b)"
    by (simp add: bits_nat_horner horner_sum_bit_eq_take_bit)
  then show ?thesis
    using unat_byte_less [of b] by (simp add: take_bit_nat_eq_self del: unat_byte_less)
qed

lemma be_nat_bits: "be_nat bs = bits_nat (bits_of bs)"
proof (induction bs)
  case (Cons b bs)
  have "(256::nat) ^ length bs = 2 ^ (length bs * 8)"
    using power_mult [of "2::nat" 8 "length bs"] by (simp add: mult.commute)
  with Cons show ?case by (simp add: bits_of_Cons bits_nat_append bits_nat_byte)
qed (simp add: bits_of_def)

lemma bits_nat_split_less:
  assumes "length r = length s"
  shows "bits_nat (p @ False # r) < bits_nat (p @ True # s)"
  using bits_nat_less [of r] assms by (simp add: bits_nat_append algebra_simps)

lemma bits_nat_zeros: "\<forall>k < n. \<not> xs ! k \<Longrightarrow> n \<le> length xs \<Longrightarrow> bits_nat xs < 2 ^ (length xs - n)"
proof -
  assume z: "\<forall>k < n. \<not> xs ! k" and n: "n \<le> length xs"
  have "take n xs = replicate n False"
    by (rule nth_equalityI) (use z n in auto)
  moreover have "bits_nat (replicate n False) = 0" by (induction n) auto
  ultimately have "bits_nat (take n xs @ drop n xs) = bits_nat (drop n xs)"
    by (simp only: bits_nat_append)
  then show ?thesis using bits_nat_less [of "drop n xs"] by simp
qed

lemma bits_nat_ge: "n < length xs \<Longrightarrow> xs ! n \<Longrightarrow> 2 ^ (length xs - Suc n) \<le> bits_nat xs"
proof -
  assume n: "n < length xs" and t: "xs ! n"
  from id_take_nth_drop [OF n]
  have "bits_nat xs = bits_nat (take n xs @ (xs ! n) # drop (Suc n) xs)" by (rule arg_cong)
  with t show ?thesis using n by (simp add: bits_nat_append)
qed

lemma Int160_Distance_bits:
  assumes "length a = length t" and "k < length t * 8"
  shows "bits_of (Int160_Distance a t) ! k = (bit_at a k \<noteq> bit_at t k)"
  using assms by (simp add: Int160_Distance_def Int160_Xor_def bit_at_xor_bytes)

lemma length_Int160_Distance [simp]:
  "length (Int160_Distance a t) = min (length a) (length t)"
  by (simp add: Int160_Distance_def Int160_Xor_def)

lemma Distance_prefix_less:
  assumes len: "length a = length t" "length b = length t" and m: "m < length t * 8"
    and agree: "\<forall>k \<le> m. bit_at a k = bit_at t k" and differ: "bit_at b m \<noteq> bit_at t m"
  shows "be_nat (Int160_Distance a t) < be_nat (Int160_Distance b t)"
proof -
  have "bits_nat (bits_of (Int160_Distance a t)) < 2 ^ (length t * 8 - Suc m)"
    using bits_nat_zeros [of "Suc m" "bits_of (Int160_Distance a t)"] len m agree
    by (simp add: Int160_Distance_bits less_Suc_eq_le Suc_le_eq del: nth_bits_of)
  moreover have "2 ^ (length t * 8 - Suc m) \<le> bits_nat (bits_of (Int160_Distance b t))"
    using bits_nat_ge [of m "bits_of (Int160_Distance b t)"] len m differ
    by (simp add: Int160_Distance_bits del: nth_bits_of)
  ultimately show ?thesis by (simp only: be_nat_bits)
qed

subsection \<open>BEP-42\<close>

lemma mask_f8: "((x AND 0xf8) OR (y AND 0x7)) AND 0xf8 = (x AND 0xf8 :: byte)"
  by (simp add: bit.conj_disj_distrib2 and.assoc)

lemma ucast_and_f8: "(ucast (c AND 0xf8 :: 32 word) :: byte) = ucast c AND 0xf8"
  by (rule bit_word_eqI) (auto simp: bit_simps)

lemma maskIPForBEP42_ok: "addr_IsValid ip \<Longrightarrow> \<exists>m. maskIPForBEP42 ip r = Inr m"
  by (cases ip) (auto simp: maskIPForBEP42_def Let_def)

lemma secureNodeIDWithEntropy_ok:
  assumes "addr_IsValid ip"
  obtains m where "maskIPForBEP42 ip r = Inr m"
    and "secureNodeIDWithEntropy ip r lb b2 interior =
      Inr ([ucast (drop_bit 24 (crc32c m)), ucast (drop_bit 16 (crc32c m)),
            ucast (drop_bit 8 (crc32c m) AND 0xf8) OR (b2 AND 0x7)]
           @ go_copy (replicate 16 0) interior @ [lb])"
  using maskIPForBEP42_ok [OF assms, of r] by (auto simp: secureNodeIDWithEntropy_def Let_def)

lemma secureNodeID_verify_gen:
  assumes "addr_IsValid ip" and "r = lb AND 0x7"
  shows "\<exists>i. secureNodeIDWithEntropy ip r lb b2 interior = Inr i \<and> wf_ID i \<and>
             VerifySecureNodeID i ip = Inr True"
proof -
  obtain m where m: "maskIPForBEP42 ip r = Inr m"
    and i: "secureNodeIDWithEntropy ip r lb b2 interior =
      Inr ([ucast (drop_bit 24 (crc32c m)), ucast (drop_bit 16 (crc32c m)),
            ucast (drop_bit 8 (crc32c m) AND 0xf8) OR (b2 AND 0x7)]
           @ go_copy (replicate 16 0) interior @ [lb])"
    using secureNodeIDWithEntropy_ok [OF assms(1)] by metis
  have last: "(x # y # z # go_copy (replicate 16 0) interior @ [lb]) ! 19 = lb" for x y z :: byte
    by (simp add: nth_append nth_Cons')
  show ?thesis
    unfolding i
    by (rule exI, rule conjI, rule refl)
      (simp add: wf_ID_def VerifySecureNodeID_def assms(1) last assms(2) [symmetric] m Let_def
        ucast_and_f8 mask_f8 del: nth_Cons_numeral)
qed

text \<open>Evaluation of the checksum and of the identifier derivation on concrete inputs.\<close>

lemma crc32c_bits_numeral:
  "crc32c_bits (numeral k) c =
     crc32c_bits (pred_numeral k) (if bit c 0 then drop_bit 1 c XOR 0x82F63B78 else drop_bit 1 c)"
  by (simp add: numeral_eq_Suc)

lemma bep42_vector_mask: "maskIPForBEP42 (Addr4 [124, 31, 75, 21]) 1 = Inr [0x20, 0x0f, 0x0b, 0x15]"
  by (simp add: maskIPForBEP42_def v4NodeIDMask_def)

lemma bep42_vector_crc: "crc32c [0x20, 0x0f, 0x0b, 0x15] = 0x5fbfbdb2"
  by (simp add: crc32c_def crc32c_bits_numeral)

lemmas bep42_eval = bep42_vector_mask bep42_vector_crc secureNodeIDWithEntropy_def go_copy_def Let_def

section \<open>Claims\<close>

text \<open>
  Printing and parsing identifiers round-trips. The hexadecimal text of an identifier,
  with or without the \<open>0x\<close> prefix, parses back to the same identifier, and the binary
  encoding decodes to it.
\<close>

theorem ParseID_String_roundtrip:
  assumes "wf_ID i"
  shows "ParseID (ID_String i) = Inr i \<and> ParseID (''0x'' @ ID_String i) = Inr i \<and>
         ID_UnmarshalBinary (ID_MarshalBinary i) = Inr i"
  using assms
  by (simp add: ParseID_String_gen [simplified] ID_UnmarshalBinary_def ID_MarshalBinary_def wf_ID_def go_copy_full)

theorem ParseID_String_roundtrip_witness:
  "ParseID (ID_String (replicate 20 0xa5)) = Inr (replicate 20 0xa5) \<and>
   ParseID (''0x'' @ ID_String (replicate 20 0xa5)) = Inr (replicate 20 0xa5) \<and>
   ID_UnmarshalBinary (ID_MarshalBinary (replicate 20 0xa5)) = Inr (replicate 20 0xa5)"
  by (rule ParseID_String_roundtrip) (simp add: wf_ID_def)

text \<open>
  C29: the byte-wise comparison of 160-bit integers is the comparison of the unsigned numbers
  they encode, and it returns 0 only on equal values.
\<close>

theorem Int160_Cmp_numeric:
  assumes "wf_ID i" and "wf_ID r"
  shows "Int160_Cmp i r = sgn (int (be_nat i) - int (be_nat r)) \<and> (Int160_Cmp i r = 0 \<longleftrightarrow> i = r)"
  using assms by (simp add: wf_ID_def Int160_Cmp_be_nat be_nat_inject [symmetric])

theorem Int160_Cmp_numeric_witness:
  "Int160_Cmp (replicate 20 1) (replicate 20 2)
     = sgn (int (be_nat (replicate 20 1)) - int (be_nat (replicate 20 2))) \<and>
   (Int160_Cmp (replicate 20 1) (replicate 20 2) = 0 \<longleftrightarrow> replicate 20 1 = replicate 20 (2 :: byte))"
  by (rule Int160_Cmp_numeric) (simp_all add: wf_ID_def)

text \<open>
  The XOR distance orders identifiers by shared prefix. If one identifier agrees with the
  target up to and including a bit position where another disagrees, its distance compares as
  strictly smaller; and the distance is zero exactly between equal identifiers.
\<close>

theorem Distance_prefix_closer:
  assumes "wf_ID a" and "wf_ID b" and "wf_ID t" and "m < 160"
    and "\<forall>k \<le> m. bit_at a k = bit_at t k" and "bit_at b m \<noteq> bit_at t m"
  shows "Int160_Cmp (Int160_Distance a t) (Int160_Distance b t) = -1 \<and>
         (Int160_IsZero (Int160_Distance a t) \<longleftrightarrow> a = t)"
proof
  have "be_nat (Int160_Distance a t) < be_nat (Int160_Distance b t)"
    using assms by (intro Distance_prefix_less) (simp_all add: wf_ID_def)
  then show "Int160_Cmp (Int160_Distance a t) (Int160_Distance b t) = -1"
    using assms by (simp add: Int160_Cmp_be_nat wf_ID_def)
  show "Int160_IsZero (Int160_Distance a t) \<longleftrightarrow> a = t"
    using assms xor_bytes_zero_iff [of a t]
    by (simp add: Int160_IsZero_def Int160_Distance_def Int160_Xor_def wf_ID_def)
qed

theorem Distance_prefix_closer_witness:
  "Int160_Cmp (Int160_Distance (1 # replicate 19 0) (replicate 20 0))
              (Int160_Distance (128 # replicate 19 0) (replicate 20 0)) = -1 \<and>
   (Int160_IsZero (Int160_Distance (1 # replicate 19 0) (replicate 20 0))
      \<longleftrightarrow> 1 # replicate 19 0 = replicate 20 (0 :: byte))"
  by (rule Distance_prefix_closer [where m = 0]) (simp_all add: wf_ID_def bit_at_def)

text \<open>
  C28: every identifier that \<open>SecureNodeID\<close> derives for a valid external address, from any
  17 random bytes, is accepted by \<open>VerifySecureNodeID\<close> for that address.
\<close>

theorem SecureNodeID_verifies:
  assumes "addr_IsValid ip" and "length rng = 17"
  shows "\<exists>i. SecureNodeID ip (Inr rng) = Inr i \<and> wf_ID i \<and> VerifySecureNodeID i ip = Inr True"
  using secureNodeID_verify_gen [OF assms(1) refl] assms(1)
  by (simp add: SecureNodeID_def Let_def)

theorem SecureNodeID_verifies_witness:
  "\<exists>i. SecureNodeID (Addr4 [124, 31, 75, 21]) (Inr (replicate 17 1)) = Inr i \<and> wf_ID i \<and>
       VerifySecureNodeID i (Addr4 [124, 31, 75, 21]) = Inr True"
  by (rule SecureNodeID_verifies) simp_all

text \<open>
  although byte 18 is documented as random, the 17 random bytes only reach byte 17:
  byte 18 of every identifier that \<open>SecureNodeID\<close> returns is zero, while byte 19 is the
  first random byte.
\<close>

theorem SecureNodeID_byte18_zero:
  assumes "SecureNodeID ip (Inr rng) = Inr i" and "length rng = 17"
  shows "i ! 18 = 0 \<and> i ! 19 = rng ! 0 \<and> take 15 (drop 3 i) = drop 2 rng"
proof -
  from assms(1) have v: "addr_IsValid ip" by (auto simp: SecureNodeID_def split: if_splits)
  from assms(1) have "secureNodeIDWithEntropy ip (rng ! 0 AND 7) (rng ! 0) (rng ! 1) (drop 2 rng) = Inr i"
    by (simp add: SecureNodeID_def v Let_def)
  then obtain x y z where i: "i = [x, y, z] @ go_copy (replicate 16 0) (drop 2 rng) @ [rng ! 0]"
    by (auto simp: secureNodeIDWithEntropy_def res_simps Let_def)
  have "go_copy (replicate 16 0) (drop 2 rng) = drop 2 rng @ [0]"
    using assms(2) by (simp add: go_copy_def)
  then show ?thesis using assms(2) i by (simp add: nth_append nth_Cons' numeral_eq_Suc)
qed

theorem SecureNodeID_byte18_zero_witness:
  "\<exists>i. SecureNodeID (Addr4 [124, 31, 75, 21]) (Inr (replicate 17 1)) = Inr i \<and>
       i ! 18 = 0 \<and> i ! 19 = replicate 17 1 ! 0 \<and> take 15 (drop 3 i) = drop 2 (replicate 17 1)"
proof -
  let ?i = "[95, 191, 185] @ replicate 15 1 @ [0, 1] :: byte list"
  have "SecureNodeID (Addr4 [124, 31, 75, 21]) (Inr (replicate 17 1)) = Inr ?i"
    by (simp add: SecureNodeID_def bep42_eval)
  then show ?thesis using SecureNodeID_byte18_zero [of _ "replicate 17 1"] by fastforce
qed

lemma bep42_reference_vector:
  "secureNodeIDWithEntropy (Addr4 [124, 31, 75, 21]) 1 1 7
     [0xf1, 0x0c, 0x5d, 0x6a, 0x4e, 0xc8, 0xa8, 0x8e, 0x4c, 0x6a, 0xb4, 0xc2, 0x8b, 0x95, 0xee, 0xe4]
   = ParseID ''5fbfbff10c5d6a4ec8a88e4c6ab4c28b95eee401''"
  by (simp add: bep42_eval ParseID_def trim_prefix_0x_def from_hex_char_def ID_zero_def)

end
