(* ===== verification/Btree.thy ===== *)
theory Btree
  imports ProtocolID
begin

text \<open>
  The binary tree under the Kademlia routing table: \<open>ktable/btree/btree.go\<close> (node
  identifiers as byte slices, bit paths, the result of an insertion) and
  \<open>ktable/btree/node.go\<close> (the empty, leaf and branch nodes and the root with its per-bucket
  counters). The tree stores the XOR of each identifier with the tree's origin; the position of
  an element is the bit path of that XOR.
\<close>

section \<open>Identifiers and bit paths (\<open>btree.go\<close>)\<close>

type_synonym NodeID = "byte list"
type_synonym Bits = "bool list"

fun LeadingZeros :: "Bits \<Rightarrow> nat" where
  "LeadingZeros [] = 0"
| "LeadingZeros (b # bs) = (if b then 0 else Suc (LeadingZeros bs))"

lemma LeadingZeros_le: "LeadingZeros b \<le> length b"
  by (induction b) auto

text \<open>
  \<open>Cmp\<close> compares from the first set bit on. Slicing past the end panics, as in the source,
  for two paths that have no set bit left.
\<close>

function Bits_Cmp :: "Bits \<Rightarrow> Bits \<Rightarrow> int res" where
  "Bits_Cmp b other =
     (let thisPos = LeadingZeros b + 1; otherPos = LeadingZeros other + 1 in
      if thisPos < otherPos then Inr 1
      else if thisPos > otherPos then Inr (-1)
      else if thisPos = length b then Inr 0
      else if thisPos > length b \<or> thisPos > length other then Inl slice_bounds_out_of_range
      else Bits_Cmp (drop thisPos b) (drop thisPos other))"
  by pat_completeness auto
termination
  by (relation "measure (\<lambda>(b, other). length b)") auto

declare Bits_Cmp.simps [simp del]

definition Bits_String :: "Bits \<Rightarrow> string" where
  "Bits_String b = map (\<lambda>bt. if bt then CHR ''1'' else CHR ''0'') b"

text \<open>The loop of \<open>ParseBinaryNodeID\<close> from character \<open>i\<close> on, with the slice built so far.\<close>

fun parse_binary_loop :: "NodeID \<Rightarrow> nat \<Rightarrow> string \<Rightarrow> NodeID res" where
  "parse_binary_loop acc i [] = Inr acc"
| "parse_binary_loop acc i (c # cs) =
     (if c = CHR ''1'' then
        parse_binary_loop (acc[i div 8 := acc ! (i div 8) OR push_bit (7 - i mod 8) 1]) (Suc i) cs
      else if c \<noteq> CHR ''0'' then Inl (Err ''invalid character'')
      else parse_binary_loop acc (Suc i) cs)"

definition ParseBinaryNodeID :: "string \<Rightarrow> NodeID res" where
  "ParseBinaryNodeID str =
     (if length str mod 8 \<noteq> 0 then Inl (Err ''length must be multiple of 8'')
      else parse_binary_loop (replicate (length str div 8) 0) 0 str)"

definition MustParseBinaryNodeID :: "string \<Rightarrow> NodeID res" where
  "MustParseBinaryNodeID str =
     (case ParseBinaryNodeID str of Inl _ \<Rightarrow> Inl (Panic ''MustParseBinaryNodeID'') | Inr i \<Rightarrow> Inr i)"

definition GetBit :: "NodeID \<Rightarrow> nat \<Rightarrow> bool res" where
  "GetBit i n = res_bind (go_index i (n div 8)) (\<lambda>b. Inr (drop_bit (7 - n mod 8) b AND 1 = 1))"

definition NodeID_Xor :: "NodeID \<Rightarrow> NodeID \<Rightarrow> NodeID res" where
  "NodeID_Xor i other =
     (if length i \<noteq> length other then Inl (Err ''length mismatch'')
      else Inr (xor_bytes i other))"

definition MustXor :: "NodeID \<Rightarrow> NodeID \<Rightarrow> NodeID res" where
  "MustXor i other =
     (case NodeID_Xor i other of Inl _ \<Rightarrow> Inl (Panic ''length mismatch'') | Inr r \<Rightarrow> Inr r)"

definition NodeID_Equals :: "NodeID \<Rightarrow> NodeID \<Rightarrow> bool" where
  "NodeID_Equals i other = (if length other \<noteq> length i then False else list_all2 (=) other i)"

definition NodeID_Bits :: "NodeID \<Rightarrow> Bits" where
  "NodeID_Bits i = map (bit_at i) [0..<length i * 8]"

definition NodeID_String :: "NodeID \<Rightarrow> string" where
  "NodeID_String i = hex_encode i"

definition NodeID_BinaryString :: "NodeID \<Rightarrow> string" where
  "NodeID_BinaryString i = Bits_String (NodeID_Bits i)"

datatype PutResult = PutRejected | PutAccepted | PutAlreadyExists

fun PutResult_String :: "PutResult \<Rightarrow> string" where
  "PutResult_String PutRejected = ''rejected''"
| "PutResult_String PutAccepted = ''accepted''"
| "PutResult_String PutAlreadyExists = ''already exists''"

definition appendToPath :: "Bits \<Rightarrow> bool \<Rightarrow> Bits" where
  "appendToPath p b = p @ [b]"

section \<open>Tree nodes (\<open>node.go\<close>)\<close>

record baseNode =
  bn_origin :: NodeID
  bn_bit :: bool
  bn_path :: Bits

text \<open>
  A branch holds its two children under the keys \<open>Bit0\<close> and \<open>Bit1\<close> and, beside them, the
  cached number of elements below each.
\<close>

datatype iNode =
    emptyNode baseNode
  | leafNode baseNode NodeID
  | branchNode baseNode iNode iNode int int

definition child_base :: "baseNode \<Rightarrow> bool \<Rightarrow> baseNode" where
  "child_base b bt = \<lparr>bn_origin = bn_origin b, bn_bit = bt, bn_path = appendToPath (bn_path b) bt\<rparr>"

text \<open>The branch that replaces a leaf, before either element is inserted into it.\<close>

definition init_branch :: "baseNode \<Rightarrow> iNode" where
  "init_branch b =
     branchNode b (emptyNode (child_base b False)) (emptyNode (child_base b True)) 0 0"

fun node_has :: "iNode \<Rightarrow> NodeID \<Rightarrow> bool res" where
  "node_has (emptyNode b) xr = Inr False"
| "node_has (leafNode b x) xr = Inr (NodeID_Equals x xr)"
| "node_has (branchNode b n0 n1 c0 c1) xr =
     res_bind (GetBit xr (length (bn_path b)))
       (\<lambda>bt. if bt then node_has n1 xr else node_has n0 xr)"

fun node_allXors :: "iNode \<Rightarrow> NodeID list" where
  "node_allXors (emptyNode b) = []"
| "node_allXors (leafNode b x) = [x]"
| "node_allXors (branchNode b n0 n1 c0 c1) = node_allXors n0 @ node_allXors n1"

fun node_any :: "iNode \<Rightarrow> bool" where
  "node_any (emptyNode b) = False"
| "node_any (leafNode b x) = True"
| "node_any (branchNode b n0 n1 c0 c1) = (node_any n0 \<or> node_any n1)"

fun node_count :: "iNode \<Rightarrow> int" where
  "node_count (emptyNode b) = 0"
| "node_count (leafNode b x) = 1"
| "node_count (branchNode b n0 n1 c0 c1) = c0 + c1"

fun node_furthestXor :: "iNode \<Rightarrow> NodeID option" where
  "node_furthestXor (emptyNode b) = None"
| "node_furthestXor (leafNode b x) = Some x"
| "node_furthestXor (branchNode b n0 n1 c0 c1) =
     (case node_furthestXor n1 of Some x \<Rightarrow> Some x | None \<Rightarrow> node_furthestXor n0)"

text \<open>
  Inserting into a leaf builds the two-way branch, inserts the element the leaf held (into an
  empty child, so the result is a leaf there and a count of 1) and then inserts the new element
  into that branch. The measure is the number of bit positions left below each leaf.
\<close>

fun split_leaf :: "baseNode \<Rightarrow> bool \<Rightarrow> NodeID \<Rightarrow> iNode" where
  "split_leaf b bt x =
     (if bt then branchNode b (emptyNode (child_base b False)) (leafNode (child_base b True) x) 0 1
      else branchNode b (leafNode (child_base b False) x) (emptyNode (child_base b True)) 1 0)"

fun put_measure :: "iNode \<Rightarrow> nat" where
  "put_measure (emptyNode b) = 0"
| "put_measure (leafNode b x) = 2 * (length x * 8 - length (bn_path b)) + 1"
| "put_measure (branchNode b n0 n1 c0 c1) = 1 + put_measure n0 + put_measure n1"

lemma GetBit_eq:
  "GetBit i n = (if n < length i * 8 then Inr (bit_at i n) else Inl index_out_of_range)"
  by (auto simp: GetBit_def go_index_def bit_at_def div_less_iff_less_mult)

function node_put :: "iNode \<Rightarrow> NodeID \<Rightarrow> (iNode \<times> PutResult) res" where
  "node_put (emptyNode b) xr = Inr (leafNode b xr, PutAccepted)"
| "node_put (leafNode b x) xr =
     (if NodeID_Equals x xr then Inr (leafNode b x, PutAlreadyExists)
      else res_bind (GetBit x (length (bn_path b))) (\<lambda>bt. node_put (split_leaf b bt x) xr))"
| "node_put (branchNode b n0 n1 c0 c1) xr =
     res_bind (GetBit xr (length (bn_path b)))
       (\<lambda>bt. if bt then
           res_bind (node_put n1 xr)
             (\<lambda>(n, result). if result = PutAccepted then Inr (branchNode b n0 n c0 (node_count n), result)
                            else Inr (branchNode b n0 n1 c0 c1, result))
         else
           res_bind (node_put n0 xr)
             (\<lambda>(n, result). if result = PutAccepted then Inr (branchNode b n n1 (node_count n) c1, result)
                            else Inr (branchNode b n0 n1 c0 c1, result)))"
  by pat_completeness auto
termination
  by (relation "measure (\<lambda>(n, xr). put_measure n)")
    (auto simp: GetBit_eq child_base_def appendToPath_def split: if_splits)

text \<open>
  What a branch becomes once an element has left the child under \<open>bt\<close>: empty when nothing is
  left, a leaf when the other child holds the only element, the updated branch otherwise.
\<close>

definition after_drop :: "baseNode \<Rightarrow> int \<Rightarrow> int \<Rightarrow> iNode \<Rightarrow> iNode \<Rightarrow> (iNode \<times> bool) res" where
  "after_drop b newCount otherCount other updated =
     (if newCount = 0 \<and> otherCount = 0 then Inr (emptyNode b, True)
      else if newCount = 0 \<and> otherCount = 1 then
        (case node_allXors other of
           [x] \<Rightarrow> Inr (leafNode b x, True)
         | _ \<Rightarrow> Inl (Panic ''unexpected condition''))
      else Inr (updated, True))"

fun node_drop :: "iNode \<Rightarrow> NodeID \<Rightarrow> (iNode \<times> bool) res" where
  "node_drop (emptyNode b) xr = Inr (emptyNode b, False)"
| "node_drop (leafNode b x) xr =
     (if NodeID_Equals x xr then Inr (emptyNode b, True) else Inr (leafNode b x, False))"
| "node_drop (branchNode b n0 n1 c0 c1) xr =
     res_bind (GetBit xr (length (bn_path b)))
       (\<lambda>bt. if bt then
           res_bind (node_drop n1 xr) (\<lambda>(newBranch, ok).
             if ok then after_drop b (node_count newBranch) c0 n0
                          (branchNode b n0 newBranch c0 (node_count newBranch))
             else Inr (branchNode b n0 n1 c0 c1, False))
         else
           res_bind (node_drop n0 xr) (\<lambda>(newBranch, ok).
             if ok then after_drop b (node_count newBranch) c1 n1
                          (branchNode b newBranch n1 (node_count newBranch) c1)
             else Inr (branchNode b n0 n1 c0 c1, False)))"

text \<open>The loops of \<open>leafNode\<close>'s two counting methods, from path index \<open>i\<close> on.\<close>

fun leaf_closer_loop :: "NodeID \<Rightarrow> nat \<Rightarrow> Bits \<Rightarrow> int res" where
  "leaf_closer_loop x i [] = Inr 1"
| "leaf_closer_loop x i (bt # path) =
     (if bt then res_bind (GetBit x i) (\<lambda>xb. if \<not> xb then Inr 0 else leaf_closer_loop x (Suc i) path)
      else leaf_closer_loop x (Suc i) path)"

fun leaf_at_loop :: "NodeID \<Rightarrow> nat \<Rightarrow> Bits \<Rightarrow> int res" where
  "leaf_at_loop x i [] = Inr 1"
| "leaf_at_loop x i (bt # path) =
     res_bind (GetBit x i) (\<lambda>xb. if xb \<noteq> bt then Inr 0 else leaf_at_loop x (Suc i) path)"

fun node_countCloserThanSubpath :: "iNode \<Rightarrow> Bits \<Rightarrow> int res" where
  "node_countCloserThanSubpath (emptyNode b) path = Inr 0"
| "node_countCloserThanSubpath (leafNode b x) path = leaf_closer_loop x (length (bn_path b)) path"
| "node_countCloserThanSubpath (branchNode b n0 n1 c0 c1) [] = Inr 0"
| "node_countCloserThanSubpath (branchNode b n0 n1 c0 c1) [p] = Inr (if p then c0 + c1 else c0)"
| "node_countCloserThanSubpath (branchNode b n0 n1 c0 c1) (p # path) =
     (if \<not> p then node_countCloserThanSubpath n0 path
      else res_bind (node_countCloserThanSubpath n1 path) (\<lambda>c. Inr (c0 + c)))"

fun node_countAtSubpath :: "iNode \<Rightarrow> Bits \<Rightarrow> int res" where
  "node_countAtSubpath (emptyNode b) path = Inr 0"
| "node_countAtSubpath (leafNode b x) path = leaf_at_loop x (length (bn_path b)) path"
| "node_countAtSubpath (branchNode b n0 n1 c0 c1) [] = Inr (c0 + c1)"
| "node_countAtSubpath (branchNode b n0 n1 c0 c1) (p # path) =
     (if p then node_countAtSubpath n1 path else node_countAtSubpath n0 path)"

fun node_xorsClosestToSubpath :: "iNode \<Rightarrow> Bits \<Rightarrow> int \<Rightarrow> NodeID list" where
  "node_xorsClosestToSubpath (emptyNode b) path count = []"
| "node_xorsClosestToSubpath (leafNode b x) path count = (if count < 1 then [] else [x])"
| "node_xorsClosestToSubpath (branchNode b n0 n1 c0 c1) path count =
     (let path' = (if path = [] then appendToPath path False else path);
          closest = (if hd path' then node_xorsClosestToSubpath n1 (tl path') count
                     else node_xorsClosestToSubpath n0 (tl path') count) in
      if int (length closest) < count then
        closest @ (if hd path' then node_xorsClosestToSubpath n0 [] (count - int (length closest))
                   else node_xorsClosestToSubpath n1 [] (count - int (length closest)))
      else closest)"

section \<open>The root\<close>

record rootNode =
  rn_origin :: NodeID
  rn_k :: int
  rn_node :: iNode
  rn_splittingEnabled :: bool
  rn_bucketCounts :: "nat \<rightharpoonup> int"

definition Btree_New :: "NodeID \<Rightarrow> int \<Rightarrow> bool \<Rightarrow> rootNode" where
  "Btree_New origin k splittingEnabled =
     \<lparr>rn_origin = origin, rn_k = k,
      rn_node = emptyNode \<lparr>bn_origin = origin, bn_bit = False, bn_path = []\<rparr>,
      rn_splittingEnabled = splittingEnabled, rn_bucketCounts = Map.empty\<rparr>"

definition Btree_N :: "rootNode \<Rightarrow> nat" where
  "Btree_N n = length (rn_origin n) * 8"

definition Btree_Has :: "rootNode \<Rightarrow> NodeID \<Rightarrow> bool res" where
  "Btree_Has n i = res_bind (MustXor i (rn_origin n)) (node_has (rn_node n))"

definition bucket_of :: "NodeID \<Rightarrow> nat" where
  "bucket_of xr = LeadingZeros (NodeID_Bits xr)"

definition putBucketCount :: "rootNode \<Rightarrow> NodeID \<Rightarrow> rootNode" where
  "putBucketCount n xr =
     (let bucket = bucket_of xr;
          m = (if rn_bucketCounts n bucket = None then (rn_bucketCounts n)(bucket \<mapsto> 0)
               else rn_bucketCounts n) in
      n\<lparr>rn_bucketCounts := m(bucket \<mapsto> map_get 0 m bucket + 1)\<rparr>)"

definition dropBucketCount :: "rootNode \<Rightarrow> NodeID \<Rightarrow> rootNode" where
  "dropBucketCount n xr =
     (let bucket = bucket_of xr in
      n\<lparr>rn_bucketCounts := (rn_bucketCounts n)(bucket \<mapsto> map_get 0 (rn_bucketCounts n) bucket - 1)\<rparr>)"

definition getBucketCount :: "rootNode \<Rightarrow> NodeID \<Rightarrow> int" where
  "getBucketCount n xr = map_get 0 (rn_bucketCounts n) (bucket_of xr)"

definition Btree_Put :: "rootNode \<Rightarrow> NodeID \<Rightarrow> (rootNode \<times> PutResult) res" where
  "Btree_Put n i =
     (if NodeID_Equals i (rn_origin n) then Inr (n, PutRejected)
      else res_bind (MustXor i (rn_origin n)) (\<lambda>xr.
        res_bind (node_has (rn_node n) xr) (\<lambda>has.
          if has then Inr (n, PutAlreadyExists)
          else res_bind
            (if getBucketCount n xr \<ge> rn_k n then
               (if \<not> rn_splittingEnabled n then Inr True
                else res_bind (node_countCloserThanSubpath (rn_node n) (NodeID_Bits xr))
                       (\<lambda>c. Inr (c \<ge> rn_k n)))
             else Inr False)
            (\<lambda>rejected.
               if rejected then Inr (n, PutRejected)
               else res_bind (node_put (rn_node n) xr) (\<lambda>(newNode, result).
                 if result = PutAccepted
                 then Inr (putBucketCount (n\<lparr>rn_node := newNode\<rparr>) xr, result)
                 else Inr (n, result))))))"

definition Btree_Drop :: "rootNode \<Rightarrow> NodeID \<Rightarrow> (rootNode \<times> bool) res" where
  "Btree_Drop n i =
     res_bind (MustXor i (rn_origin n)) (\<lambda>xr.
       res_bind (node_drop (rn_node n) xr) (\<lambda>(newNode, ok).
         if ok then Inr (dropBucketCount (n\<lparr>rn_node := newNode\<rparr>) xr, ok) else Inr (n, ok)))"

definition Btree_Count :: "rootNode \<Rightarrow> int" where
  "Btree_Count n = node_count (rn_node n)"

definition Btree_countCloserThan :: "rootNode \<Rightarrow> NodeID \<Rightarrow> int res" where
  "Btree_countCloserThan n i = node_countCloserThanSubpath (rn_node n) (NodeID_Bits i)"

fun res_map :: "('a \<Rightarrow> 'b res) \<Rightarrow> 'a list \<Rightarrow> 'b list res" where
  "res_map f [] = Inr []"
| "res_map f (x # xs) = res_bind (f x) (\<lambda>y. res_bind (res_map f xs) (\<lambda>ys. Inr (y # ys)))"

definition Btree_Closest :: "rootNode \<Rightarrow> NodeID \<Rightarrow> int \<Rightarrow> NodeID list res" where
  "Btree_Closest n i count =
     res_bind (MustXor i (rn_origin n)) (\<lambda>x.
       res_map (\<lambda>xr. MustXor xr (rn_origin n))
         (node_xorsClosestToSubpath (rn_node n) (NodeID_Bits x) count))"

definition Btree_furthest :: "rootNode \<Rightarrow> NodeID \<Rightarrow> NodeID option res" where
  "Btree_furthest n thresholdXor =
     (case node_furthestXor (rn_node n) of
        None \<Rightarrow> Inr None
      | Some xr \<Rightarrow>
          res_bind (Bits_Cmp (NodeID_Bits xr) (NodeID_Bits thresholdXor)) (\<lambda>c.
            if c \<le> 0 then Inr None
            else res_bind (MustXor xr (rn_origin n)) (\<lambda>i. Inr (Some i))))"

section \<open>Invariant of a subtree\<close>

text \<open>
  \<open>wf_node L p n\<close>: the subtree at path \<open>p\<close> of a tree over \<open>L\<close>-byte identifiers. Every
  node records its own path, every element lies below it, a branch caches the exact sizes of
  its children and is never empty.
\<close>

fun wf_node :: "nat \<Rightarrow> Bits \<Rightarrow> iNode \<Rightarrow> bool" where
  "wf_node L p (emptyNode b) \<longleftrightarrow> bn_path b = p"
| "wf_node L p (leafNode b x) \<longleftrightarrow> bn_path b = p \<and> length x = L \<and> prefix p (bits_of x)"
| "wf_node L p (branchNode b n0 n1 c0 c1) \<longleftrightarrow>
     bn_path b = p \<and> length p < L * 8 \<and> wf_node L (p @ [False]) n0 \<and> wf_node L (p @ [True]) n1 \<and>
     c0 = int (length (node_allXors n0)) \<and> c1 = int (length (node_allXors n1)) \<and> 1 \<le> c0 + c1"

abbreviation xors :: "iNode \<Rightarrow> NodeID set" where
  "xors n \<equiv> set (node_allXors n)"

lemma NodeID_Equals_iff [simp]: "NodeID_Equals i j \<longleftrightarrow> i = j"
  by (auto simp: NodeID_Equals_def list_all2_eq [symmetric])

lemma NodeID_Bits_eq [simp]: "NodeID_Bits i = bits_of i"
  by (simp add: NodeID_Bits_def bits_of_def)

lemma GetBit_ok [simp]: "n < length i * 8 \<Longrightarrow> GetBit i n = Inr (bits_of i ! n)"
  by (simp add: GetBit_eq)

lemma child_base_path [simp]: "bn_path (child_base b bt) = bn_path b @ [bt]"
  by (simp add: child_base_def appendToPath_def)

text \<open>
  \<open>split_leaf\<close> is the tree that the source's insertion into the fresh branch produces, so
  the leaf case of \<open>node_put\<close> is the source's two insertions in a row.
\<close>

lemma init_branch_put:
  "node_put (init_branch b) x =
     res_bind (GetBit x (length (bn_path b))) (\<lambda>bt. Inr (split_leaf b bt x, PutAccepted))"
  by (auto simp: init_branch_def intro!: res_bind_cong)

lemma leaf_put_two_insertions:
  "node_put (leafNode b x) xr =
     (if NodeID_Equals x xr then Inr (leafNode b x, PutAlreadyExists)
      else res_bind (node_put (init_branch b) x) (\<lambda>(newNode, existingPutResult).
        if existingPutResult \<noteq> PutAccepted then Inl (Panic ''unexpected PutResult'')
        else node_put newNode xr))"
  unfolding init_branch_put by (cases "GetBit x (length (bn_path b))") (auto simp del: split_leaf.simps)

lemma node_elem:
  "wf_node L p n \<Longrightarrow> x \<in> xors n \<Longrightarrow> length x = L \<and> prefix p (bits_of x)"
proof (induction n arbitrary: p)
  case (branchNode b n0 n1 c0 c1)
  then show ?case by (cases "x \<in> xors n0") (auto dest!: branchNode.IH dest: prefix_snocD)
qed auto

lemma node_distinct: "wf_node L p n \<Longrightarrow> distinct (node_allXors n)"
proof (induction n arbitrary: p)
  case (branchNode b n0 n1 c0 c1)
  have "xors n0 \<inter> xors n1 = {}"
  proof (rule ccontr)
    assume "xors n0 \<inter> xors n1 \<noteq> {}"
    then obtain x where "x \<in> xors n0" "x \<in> xors n1" by blast
    then have "prefix (p @ [False]) (bits_of x)" "prefix (p @ [True]) (bits_of x)"
      using branchNode.prems node_elem by fastforce+
    then show False by (auto dest: prefix_snoc_nthD)
  qed
  with branchNode show ?case by auto
qed auto

lemma node_count_length: "wf_node L p n \<Longrightarrow> node_count n = int (length (node_allXors n))"
  by (cases n) auto

lemma node_count_card: "wf_node L p n \<Longrightarrow> node_count n = int (card (xors n))"
  by (simp add: node_count_length node_distinct distinct_card)

lemma node_any_iff: "wf_node L p n \<Longrightarrow> node_any n \<longleftrightarrow> xors n \<noteq> {}"
  by (induction n arbitrary: p) auto

text \<open>The child an element belongs to, and the path of that child.\<close>

lemma child_path:
  assumes "prefix p (bits_of xr)" and "length p < length xr * 8"
  shows "prefix (p @ [bits_of xr ! length p]) (bits_of xr)"
  using assms by (intro prefix_snoc_nth) simp_all

lemma elem_side:
  assumes "wf_node L p (branchNode b n0 n1 c0 c1)" and "x \<in> xors n0 \<union> xors n1"
  shows "x \<in> xors n1 \<longleftrightarrow> bits_of x ! length p" and "x \<in> xors n0 \<longleftrightarrow> \<not> bits_of x ! length p"
proof -
  have "x \<in> xors n1 \<Longrightarrow> bits_of x ! length p = True" "x \<in> xors n0 \<Longrightarrow> bits_of x ! length p = False"
    using assms(1) by (auto dest!: node_elem prefix_snoc_nthD)
  with assms(2) show "x \<in> xors n1 \<longleftrightarrow> bits_of x ! length p" "x \<in> xors n0 \<longleftrightarrow> \<not> bits_of x ! length p"
    by auto
qed

lemma wf_split_leaf:
  assumes "bn_path b = p" "length x = L" "prefix p (bits_of x)" "length p < L * 8"
  shows "wf_node L p (split_leaf b (bits_of x ! length p) x)"
    and "xors (split_leaf b (bits_of x ! length p) x) = {x}"
  using assms child_path [of p x] by auto

lemma prefix_distinct_shorter:
  assumes "length x = L" "length y = L" "prefix p (bits_of x)" "prefix p (bits_of y)" "x \<noteq> y"
  shows "length p < L * 8"
proof (rule ccontr)
  assume "\<not> length p < L * 8"
  moreover have "length p \<le> L * 8" using prefix_length_le [OF assms(3)] assms(1) by simp
  ultimately have len: "length p = L * 8" by simp
  then have "p = bits_of x" "p = bits_of y" using assms prefix_full_eq by fastforce+
  with assms show False using bits_of_inject by metis
qed

subsection \<open>Membership\<close>

lemma node_has_iff:
  "wf_node L p n \<Longrightarrow> length xr = L \<Longrightarrow> prefix p (bits_of xr) \<Longrightarrow> node_has n xr = Inr (xr \<in> xors n)"
proof (induction n arbitrary: p)
  case (branchNode b n0 n1 c0 c1)
  let ?bt = "bits_of xr ! length p"
  have side: "prefix (p @ [?bt]) (bits_of xr)" using branchNode.prems child_path by auto
  have "xr \<in> xors n0 \<union> xors n1 \<longleftrightarrow> (if ?bt then xr \<in> xors n1 else xr \<in> xors n0)"
    using elem_side [OF branchNode.prems(1), of xr] by auto
  then show ?case
    using branchNode.prems branchNode.IH(1) [of "p @ [False]"] branchNode.IH(2) [of "p @ [True]"] side
    by (cases ?bt) auto
qed auto

subsection \<open>Insertion\<close>

lemma node_put_exists:
  "wf_node L p n \<Longrightarrow> length xr = L \<Longrightarrow> prefix p (bits_of xr) \<Longrightarrow> xr \<in> xors n \<Longrightarrow>
     node_put n xr = Inr (n, PutAlreadyExists)"
proof (induction n arbitrary: p)
  case (branchNode b n0 n1 c0 c1)
  let ?bt = "bits_of xr ! length p"
  have "prefix (p @ [?bt]) (bits_of xr)" using branchNode.prems child_path by auto
  moreover have "if ?bt then xr \<in> xors n1 else xr \<in> xors n0"
    using elem_side [OF branchNode.prems(1), of xr] branchNode.prems(4) by auto
  ultimately show ?case
    using branchNode.prems branchNode.IH(1) [of "p @ [False]"] branchNode.IH(2) [of "p @ [True]"]
    by (cases ?bt) auto
qed auto

lemma node_put_new:
  "wf_node L p n \<Longrightarrow> length xr = L \<Longrightarrow> prefix p (bits_of xr) \<Longrightarrow> xr \<notin> xors n \<Longrightarrow>
     \<exists>n'. node_put n xr = Inr (n', PutAccepted) \<and> wf_node L p n' \<and> xors n' = insert xr (xors n)"
proof (induction n xr arbitrary: p rule: node_put.induct)
  case (1 b xr)
  then show ?case by simp
next
  case (2 b x xr)
  let ?bt = "bits_of x ! length p"
  have lp: "length p < L * 8"
    using "2.prems" prefix_distinct_shorter [of x L xr p] by auto
  have g: "GetBit x (length (bn_path b)) = Inr ?bt" using "2.prems" lp by simp
  have sp: "wf_node L p (split_leaf b ?bt x)" "xors (split_leaf b ?bt x) = {x}"
    using "2.prems" lp by (intro wf_split_leaf; simp)+
  have ne: "x \<noteq> xr" using "2.prems" by simp
  then have "\<exists>n'. node_put (split_leaf b ?bt x) xr = Inr (n', PutAccepted) \<and> wf_node L p n' \<and>
      xors n' = insert xr {x}"
    using "2.IH" [OF _ g sp(1)] "2.prems"(2,3) sp(2) by (simp del: split_leaf.simps)
  with g ne show ?case by (auto simp del: split_leaf.simps)
next
  case (3 b n0 n1 c0 c1 xr)
  let ?bt = "bits_of xr ! length p"
  have g: "GetBit xr (length (bn_path b)) = Inr ?bt" using "3.prems" by simp
  have side: "prefix (p @ [?bt]) (bits_of xr)" using "3.prems" child_path by auto
  show ?case
  proof (cases ?bt)
    case True
    have "wf_node L (p @ [True]) n1" "xr \<notin> xors n1" "prefix (p @ [True]) (bits_of xr)"
      using "3.prems" side True by simp_all
    from "3.IH"(1) [OF g True this(1) "3.prems"(2) this(3,2)] obtain n' where n':
      "node_put n1 xr = Inr (n', PutAccepted)" "wf_node L (p @ [True]) n'" "xors n' = insert xr (xors n1)"
      by blast
    then have "node_count n' = int (length (node_allXors n'))" by (simp add: node_count_length)
    moreover have "1 \<le> int (length (node_allXors n0)) + int (length (node_allXors n'))"
      using n'(3) by (cases "node_allXors n'") auto
    ultimately show ?thesis using n' g True "3.prems" by auto
  next
    case False
    have "wf_node L (p @ [False]) n0" "xr \<notin> xors n0" "prefix (p @ [False]) (bits_of xr)"
      using "3.prems" side False by simp_all
    from "3.IH"(2) [OF g False this(1) "3.prems"(2) this(3,2)] obtain n' where n':
      "node_put n0 xr = Inr (n', PutAccepted)" "wf_node L (p @ [False]) n'" "xors n' = insert xr (xors n0)"
      by blast
    then have "node_count n' = int (length (node_allXors n'))" by (simp add: node_count_length)
    moreover have "1 \<le> int (length (node_allXors n')) + int (length (node_allXors n1))"
      using n'(3) by (cases "node_allXors n'") auto
    ultimately show ?thesis using n' g False "3.prems" by auto
  qed
qed

subsection \<open>Removal\<close>

lemma node_drop_missing:
  "wf_node L p n \<Longrightarrow> length xr = L \<Longrightarrow> prefix p (bits_of xr) \<Longrightarrow> xr \<notin> xors n \<Longrightarrow>
     node_drop n xr = Inr (n, False)"
proof (induction n arbitrary: p)
  case (branchNode b n0 n1 c0 c1)
  let ?bt = "bits_of xr ! length p"
  have "prefix (p @ [?bt]) (bits_of xr)" using branchNode.prems child_path by auto
  then show ?case
    using branchNode.prems branchNode.IH(1) [of "p @ [False]"] branchNode.IH(2) [of "p @ [True]"]
    by (cases ?bt) auto
qed auto

lemma after_drop_ok:
  assumes "bn_path b = p" and "wf_node L (p @ [q]) other"
    and nc: "nc = int (length (node_allXors n'))" and oc: "oc = int (length (node_allXors other))"
    and upd: "1 \<le> nc + oc \<Longrightarrow> wf_node L p upd" and set: "xors upd = xors n' \<union> xors other"
  shows "\<exists>m. after_drop b nc oc other upd = Inr (m, True) \<and> wf_node L p m \<and>
             xors m = xors n' \<union> xors other"
proof (cases "nc = 0 \<and> oc = 1")
  case True
  then obtain y where "node_allXors other = [y]" using oc by (auto simp: length_Suc_conv)
  with True assms(1,2) nc show ?thesis
    using node_elem [OF assms(2), of y] by (auto simp: after_drop_def dest: prefix_snocD)
next
  case False
  show ?thesis
  proof (cases "nc = 0 \<and> oc = 0")
    case True
    with nc oc assms(1) show ?thesis by (auto simp: after_drop_def)
  next
    case False
    then have "1 \<le> nc + oc" using nc oc by linarith
    with False \<open>\<not> (nc = 0 \<and> oc = 1)\<close> upd set show ?thesis by (auto simp: after_drop_def)
  qed
qed

lemma node_drop_present:
  "wf_node L p n \<Longrightarrow> length xr = L \<Longrightarrow> prefix p (bits_of xr) \<Longrightarrow> xr \<in> xors n \<Longrightarrow>
     \<exists>n'. node_drop n xr = Inr (n', True) \<and> wf_node L p n' \<and> xors n' = xors n - {xr}"
proof (induction n arbitrary: p)
  case (branchNode b n0 n1 c0 c1)
  let ?bt = "bits_of xr ! length p"
  note wf = branchNode.prems(1)
  have side: "prefix (p @ [?bt]) (bits_of xr)" using branchNode.prems child_path by auto
  have g: "GetBit xr (length (bn_path b)) = Inr ?bt" using branchNode.prems by simp
  have mem: "if ?bt then xr \<in> xors n1 \<and> xr \<notin> xors n0 else xr \<in> xors n0 \<and> xr \<notin> xors n1"
    using elem_side [OF wf, of xr] branchNode.prems(4) by auto
  show ?case
  proof (cases ?bt)
    case True
    with branchNode.IH(2) [of "p @ [True]"] branchNode.prems side mem obtain n' where n':
      "node_drop n1 xr = Inr (n', True)" "wf_node L (p @ [True]) n'" "xors n' = xors n1 - {xr}"
      by auto
    have "\<exists>m. after_drop b (node_count n') c0 n0 (branchNode b n0 n' c0 (node_count n')) = Inr (m, True) \<and>
        wf_node L p m \<and> xors m = xors n' \<union> xors n0"
      by (rule after_drop_ok [where q = False]) (use wf n'(2) in \<open>auto simp: node_count_length\<close>)
    with n' g True mem show ?thesis by auto
  next
    case False
    with branchNode.IH(1) [of "p @ [False]"] branchNode.prems side mem obtain n' where n':
      "node_drop n0 xr = Inr (n', True)" "wf_node L (p @ [False]) n'" "xors n' = xors n0 - {xr}"
      by auto
    have "\<exists>m. after_drop b (node_count n') c1 n1 (branchNode b n' n1 (node_count n') c1) = Inr (m, True) \<and>
        wf_node L p m \<and> xors m = xors n' \<union> xors n1"
      by (rule after_drop_ok [where q = True]) (use wf n'(2) in \<open>auto simp: node_count_length\<close>)
    with n' g False mem show ?thesis by auto
  qed
qed auto

subsection \<open>Counting closer elements\<close>

lemma bits_nat_mono:
  "length xs = length ys \<Longrightarrow> \<forall>i < length ys. ys ! i \<longrightarrow> xs ! i \<Longrightarrow> bits_nat ys \<le> bits_nat xs"
proof (induction xs ys rule: list_induct2)
  case (Cons x xs y ys)
  then have "bits_nat ys \<le> bits_nat xs" by fastforce
  moreover have "y \<longrightarrow> x" using Cons.prems by fastforce
  ultimately show ?case using Cons.hyps by (cases y; cases x) auto
qed simp

lemma leaf_closer_loop_eq:
  "i + length t \<le> length x * 8 \<Longrightarrow>
     leaf_closer_loop x i t = Inr (if \<forall>j < length t. t ! j \<longrightarrow> bits_of x ! (i + j) then 1 else 0)"
proof (induction t arbitrary: i)
  case (Cons a t)
  have all: "(\<forall>j < length (a # t). (a # t) ! j \<longrightarrow> bits_of x ! (i + j)) \<longleftrightarrow>
      (a \<longrightarrow> bits_of x ! i) \<and> (\<forall>j < length t. t ! j \<longrightarrow> bits_of x ! (Suc i + j))"
    by (auto simp: less_Suc_eq_0_disj)
  have "i < length x * 8" using Cons.prems by simp
  then show ?case unfolding all using Cons.IH [of "Suc i"] Cons.prems by (auto simp del: nth_bits_of)
qed simp

lemma side_less:
  assumes "length x = length y" "prefix (p @ [False]) (bits_of x)" "prefix (p @ [True]) (bits_of y)"
  shows "be_nat x < be_nat y"
proof -
  obtain r s where "bits_of x = p @ False # r" "bits_of y = p @ True # s"
    using assms(2,3) by (auto elim!: prefixE)
  moreover from this have "length r = length s"
    using assms(1) by (metis add_left_cancel length_Cons length_append length_bits_of nat.inject)
  ultimately show ?thesis by (simp add: be_nat_bits bits_nat_split_less del: bits_nat_simps)
qed

text \<open>
  A leaf is counted exactly when every set bit of the path is set in it, so a leaf that is
  strictly closer than the path is never counted.
\<close>

lemma leaf_closer_never_counted:
  assumes "wf_node L p (leafNode b x)" "length y = L" "bits_of y = p @ t" "be_nat x < be_nat y"
  shows "node_countCloserThanSubpath (leafNode b x) t = Inr 0"
proof -
  have lt: "length p + length t = L * 8"
    using assms(2,3) by (metis length_append length_bits_of)
  have "\<not> (\<forall>j < length t. t ! j \<longrightarrow> bits_of x ! (length p + j))"
  proof
    assume all: "\<forall>j < length t. t ! j \<longrightarrow> bits_of x ! (length p + j)"
    obtain u where u: "bits_of x = p @ u" using assms(1) by (auto elim: prefixE)
    have "\<forall>i < length (bits_of y). bits_of y ! i \<longrightarrow> bits_of x ! i"
    proof (intro allI impI)
      fix i assume i: "i < length (bits_of y)" "bits_of y ! i"
      show "bits_of x ! i"
      proof (cases "i < length p")
        case False
        then have "t ! (i - length p)" "i - length p < length t"
          using i assms(3) lt assms(2) by (auto simp: nth_append simp del: nth_bits_of)
        then show ?thesis using all False by fastforce
      qed (use i u assms(3) in \<open>auto simp: nth_append simp del: nth_bits_of\<close>)
    qed
    then have "bits_nat (bits_of y) \<le> bits_nat (bits_of x)"
      using assms(1,2) by (intro bits_nat_mono) auto
    then show False using assms(4) by (simp add: be_nat_bits)
  qed
  then show ?thesis
    using assms(1) lt by (auto simp: leaf_closer_loop_eq simp del: nth_bits_of)
qed

definition closer_xors :: "iNode \<Rightarrow> NodeID \<Rightarrow> NodeID set" where
  "closer_xors n y = {x \<in> xors n. be_nat x < be_nat y}"

lemma closer_xors_branch:
  assumes wf: "wf_node L p (branchNode b n0 n1 c0 c1)" and y: "length y = L" "bits_of y = p @ q # t"
  shows "\<not> q \<Longrightarrow> closer_xors (branchNode b n0 n1 c0 c1) y = closer_xors n0 y"
    and "q \<Longrightarrow> closer_xors (branchNode b n0 n1 c0 c1) y = xors n0 \<union> closer_xors n1 y"
proof -
  have el: "x \<in> xors n0 \<Longrightarrow> length x = L \<and> prefix (p @ [False]) (bits_of x)"
    "x \<in> xors n1 \<Longrightarrow> length x = L \<and> prefix (p @ [True]) (bits_of x)" for x
    using wf node_elem by auto
  have pq: "prefix (p @ [q]) (bits_of y)" using y(2) by (simp add: prefix_def)
  show "closer_xors (branchNode b n0 n1 c0 c1) y = closer_xors n0 y" if "\<not> q"
  proof -
    have "be_nat y < be_nat x" if "x \<in> xors n1" for x
      using el(2) [OF that] pq \<open>\<not> q\<close> y(1) by (intro side_less [of y x p]) auto
    then show ?thesis by (fastforce simp: closer_xors_def)
  qed
  show "closer_xors (branchNode b n0 n1 c0 c1) y = xors n0 \<union> closer_xors n1 y" if q
  proof -
    have "be_nat x < be_nat y" if "x \<in> xors n0" for x
      using el(1) [OF that] pq \<open>q\<close> y(1) by (intro side_less [of x y p]) auto
    then show ?thesis by (auto simp: closer_xors_def)
  qed
qed

lemma branch_last_bit:
  assumes wf: "wf_node L p (branchNode b n0 n1 c0 c1)" and y: "length y = L" "bits_of y = p @ [q]"
    and new: "y \<notin> xors (branchNode b n0 n1 c0 c1)"
  shows "(if q then c1 else c0) = 0"
proof -
  have only: "x = y" if "x \<in> (if q then xors n1 else xors n0)" for x
  proof -
    have "length x = L" "prefix (p @ [q]) (bits_of x)"
      using that wf by (auto dest!: node_elem split: if_splits)
    moreover from this y have "length (p @ [q]) = length (bits_of x)"
      by (metis length_bits_of)
    ultimately have "bits_of x = bits_of y" using y prefix_full_eq by metis
    then show "x = y" using \<open>length x = L\<close> y(1) bits_of_inject [of x y] by simp
  qed
  have "(if q then xors n1 else xors n0) = {}"
  proof (rule equals0I)
    fix x assume x: "x \<in> (if q then xors n1 else xors n0)"
    with only [OF x] new show False by (auto split: if_splits)
  qed
  with wf show ?thesis by (auto split: if_splits)
qed

lemma node_countCloser_off_by_one:
  "wf_node L p n \<Longrightarrow> length y = L \<Longrightarrow> bits_of y = p @ t \<Longrightarrow> y \<notin> xors n \<Longrightarrow>
     \<exists>c. node_countCloserThanSubpath n t = Inr c \<and> \<bar>c - int (card (closer_xors n y))\<bar> \<le> 1"
proof (induction n arbitrary: p t)
  case (emptyNode b)
  then show ?case by (simp add: closer_xors_def)
next
  case (leafNode b x)
  have lt: "length p + length t = L * 8"
    using leafNode.prems by (metis length_append length_bits_of)
  have "closer_xors (leafNode b x) y = (if be_nat x < be_nat y then {x} else {})"
    by (auto simp: closer_xors_def)
  then have "card (closer_xors (leafNode b x) y) \<le> 1" by simp
  then show ?case using lt leafNode.prems by (auto simp: leaf_closer_loop_eq)
next
  case (branchNode b n0 n1 c0 c1)
  note wf = branchNode.prems(1) and sets = closer_xors_branch [OF branchNode.prems(1,2)]
  have lt: "length p + length t = L * 8"
    using branchNode.prems by (metis length_append length_bits_of)
  obtain q t' where t: "t = q # t'" using wf lt by (cases t) auto
  have c0: "c0 = int (card (xors n0))" using wf by (auto simp: distinct_card node_distinct)
  show ?case
  proof (cases "t' = []")
    case True
    have zero: "(if q then c1 else c0) = 0"
      using branch_last_bit [OF wf] branchNode.prems t True by simp
    then have "closer_xors (if q then n1 else n0) y = {}"
      using wf by (auto simp: closer_xors_def split: if_splits)
    with sets [of q t'] branchNode.prems(3) t
    have "closer_xors (branchNode b n0 n1 c0 c1) y = (if q then xors n0 else {})" by (cases q) simp_all
    with zero c0 t True show ?thesis by (cases q) simp_all
  next
    case False
    then obtain a u where t': "t' = a # u" by (cases t') auto
    have "\<exists>c. node_countCloserThanSubpath n0 t' = Inr c \<and> \<bar>c - int (card (closer_xors n0 y))\<bar> \<le> 1" if "\<not> q"
      using branchNode.IH(1) [of "p @ [False]" t'] branchNode.prems t that by simp
    moreover have "\<exists>c. node_countCloserThanSubpath n1 t' = Inr c \<and> \<bar>c - int (card (closer_xors n1 y))\<bar> \<le> 1" if q
      using branchNode.IH(2) [of "p @ [True]" t'] branchNode.prems t that by simp
    moreover have "card (xors n0 \<union> closer_xors n1 y) = card (xors n0) + card (closer_xors n1 y)"
      using elem_side [OF wf] by (intro card_Un_disjoint) (auto simp: closer_xors_def)
    ultimately show ?thesis
      using sets [of q t'] branchNode.prems(3) t t' c0 by (cases q) auto
  qed
qed

subsection \<open>Closest elements\<close>

text \<open>The number of leading bits two identifiers share: the depth of their common bucket.\<close>

definition shared_prefix :: "NodeID \<Rightarrow> NodeID \<Rightarrow> nat" where
  "shared_prefix a b = LeadingZeros (bits_of (xor_bytes a b))"

lemma LeadingZeros_map2: "LeadingZeros (map2 (\<lambda>x y. x = (\<not> y)) p p @ r) = length p + LeadingZeros r"
  by (induction p) auto

lemma shared_prefix_same:
  assumes "length x = length y" "prefix p (bits_of x)" "prefix p (bits_of y)"
  shows "length p \<le> shared_prefix x y"
proof -
  obtain u v where "bits_of x = p @ u" "bits_of y = p @ v" using assms(2,3) by (auto elim!: prefixE)
  then show ?thesis using assms(1) by (simp add: shared_prefix_def bits_of_xor_bytes LeadingZeros_map2)
qed

lemma shared_prefix_split:
  assumes "length x = length y" "prefix (p @ [q]) (bits_of x)" "prefix (p @ [\<not> q]) (bits_of y)"
  shows "shared_prefix x y = length p"
proof -
  obtain u v where "bits_of x = p @ q # u" "bits_of y = p @ (\<not> q) # v"
    using assms(2,3) by (auto elim!: prefixE)
  then show ?thesis using assms(1) by (simp add: shared_prefix_def bits_of_xor_bytes LeadingZeros_map2)
qed

lemma closest_elems:
  "wf_node L p n \<Longrightarrow>
     set (node_xorsClosestToSubpath n t cnt) \<subseteq> xors n \<and> distinct (node_xorsClosestToSubpath n t cnt) \<and>
     length (node_xorsClosestToSubpath n t cnt) = min (nat cnt) (card (xors n))"
proof (induction n arbitrary: p t cnt)
  case (branchNode b n0 n1 c0 c1)
  let ?n = "branchNode b n0 n1 c0 c1"
  have w0: "wf_node L (p @ [False]) n0" and w1: "wf_node L (p @ [True]) n1" using branchNode.prems by auto
  have dis: "xors n0 \<inter> xors n1 = {}" using elem_side [OF branchNode.prems] by blast
  then have card: "card (xors n0 \<union> xors n1) = card (xors n0) + card (xors n1)"
    by (intro card_Un_disjoint) auto
  define t' where "t' = (if t = [] then [False] else t)"
  define A where "A = (if hd t' then n1 else n0)"
  define B where "B = (if hd t' then n0 else n1)"
  define r where "r = node_xorsClosestToSubpath A (tl t') cnt"
  have eq: "node_xorsClosestToSubpath ?n t cnt =
      (if int (length r) < cnt then r @ node_xorsClosestToSubpath B [] (cnt - int (length r)) else r)"
    by (simp add: r_def A_def B_def t'_def appendToPath_def Let_def)
  have A: "set r \<subseteq> xors A" "distinct r" "length r = min (nat cnt) (card (xors A))"
    using branchNode.IH(1) [OF w0, of "tl t'" cnt] branchNode.IH(2) [OF w1, of "tl t'" cnt]
    by (auto simp: r_def A_def)
  have B: "set (node_xorsClosestToSubpath B [] c) \<subseteq> xors B" "distinct (node_xorsClosestToSubpath B [] c)"
    "length (node_xorsClosestToSubpath B [] c) = min (nat c) (card (xors B))" for c
    using branchNode.IH(1) [OF w0, of "[]" c] branchNode.IH(2) [OF w1, of "[]" c]
    by (auto simp: B_def)
  have AB: "xors A \<union> xors B = xors ?n" "xors A \<inter> xors B = {}" "card (xors ?n) = card (xors A) + card (xors B)"
    using dis card by (auto simp: A_def B_def)
  show ?case
  proof (cases "int (length r) < cnt")
    case True
    then have "length r = card (xors A)" using A(3) by linarith
    moreover have "set (node_xorsClosestToSubpath B [] (cnt - int (length r))) \<inter> set r = {}"
      using B(1) [of "cnt - int (length r)"] A(1) AB(2) by blast
    ultimately show ?thesis
      using True B [of "cnt - int (length r)"] A(1,2) AB(1,3) unfolding eq by auto
  next
    case False
    then have "length r = nat cnt" using A(3) by linarith
    with False A AB show ?thesis unfolding eq by auto
  qed
qed (auto simp: min_def)

text \<open>
  \<open>nearest_first y S r\<close>: the list is ordered by decreasing shared prefix with \<open>y\<close>, and no
  element of \<open>S\<close> that it leaves out shares a longer prefix than one it contains.
\<close>

definition nearest_first :: "NodeID \<Rightarrow> NodeID set \<Rightarrow> NodeID list \<Rightarrow> bool" where
  "nearest_first y S r \<longleftrightarrow>
     sorted_wrt (\<lambda>a b. shared_prefix b y \<le> shared_prefix a y) r \<and>
     (\<forall>a \<in> set r. \<forall>b \<in> S - set r. shared_prefix b y \<le> shared_prefix a y)"

lemma nearest_first_append:
  assumes "nearest_first y A r" "set r \<subseteq> A" "\<forall>b \<in> B. shared_prefix b y = d"
    "\<forall>a \<in> A. d \<le> shared_prefix a y" "set s \<subseteq> B" "A - set r = {} \<or> s = []"
  shows "nearest_first y (A \<union> B) (r @ s)"
proof -
  have "sorted_wrt (\<lambda>a b. shared_prefix b y \<le> shared_prefix a y) s"
    using assms(3,5) by (induction s) auto
  then show ?thesis
    using assms unfolding nearest_first_def sorted_wrt_append by (auto; fastforce)
qed

lemma closest_nearest_first:
  "wf_node L p n \<Longrightarrow> length y = L \<Longrightarrow> bits_of y = p @ t \<Longrightarrow>
     nearest_first y (xors n) (node_xorsClosestToSubpath n t cnt)"
proof (induction n arbitrary: p t)
  case (branchNode b n0 n1 c0 c1)
  note wf = branchNode.prems(1)
  have w0: "wf_node L (p @ [False]) n0" and w1: "wf_node L (p @ [True]) n1" using wf by auto
  have "length p + length t = L * 8" using branchNode.prems by (metis length_append length_bits_of)
  then obtain q t' where t: "t = q # t'" using wf by (cases t) auto
  define A where "A = (if q then n1 else n0)"
  define B where "B = (if q then n0 else n1)"
  define r where "r = node_xorsClosestToSubpath A t' cnt"
  define s where "s = (if int (length r) < cnt
                       then node_xorsClosestToSubpath B [] (cnt - int (length r)) else [])"
  have eq: "node_xorsClosestToSubpath (branchNode b n0 n1 c0 c1) t cnt = r @ s"
    by (simp add: r_def s_def A_def B_def t Let_def)
  have wA: "wf_node L (p @ [q]) A" and wB: "wf_node L (p @ [\<not> q]) B"
    using w0 w1 by (auto simp: A_def B_def)
  have AB: "xors (branchNode b n0 n1 c0 c1) = xors A \<union> xors B" by (auto simp: A_def B_def)
  have "nearest_first y (xors A) r"
    using branchNode.IH(1) [OF w0, of t'] branchNode.IH(2) [OF w1, of t'] branchNode.prems t
    by (cases q) (auto simp: r_def A_def)
  moreover have "\<forall>x \<in> xors B. shared_prefix x y = length p"
  proof
    fix x assume "x \<in> xors B"
    with node_elem [OF wB] branchNode.prems(2,3) t show "shared_prefix x y = length p"
      by (intro shared_prefix_split [where q = "\<not> q"]) (auto simp: prefix_def)
  qed
  moreover have "\<forall>x \<in> xors A. length p \<le> shared_prefix x y"
  proof
    fix x assume "x \<in> xors A"
    with node_elem [OF wA] branchNode.prems(2,3) show "length p \<le> shared_prefix x y"
      by (intro shared_prefix_same) (auto dest: prefix_snocD simp: prefix_def)
  qed
  moreover have "xors A - set r = {} \<or> s = []"
  proof (cases "int (length r) < cnt")
    case True
    have r: "set r \<subseteq> xors A" "distinct r" "length r = min (nat cnt) (card (xors A))"
      using closest_elems [OF wA, of t' cnt] by (simp_all add: r_def)
    with True have "card (set r) = card (xors A)" by (simp add: distinct_card)
    with r(1) have "set r = xors A" by (simp add: card_subset_eq)
    then show ?thesis by simp
  qed (simp add: s_def)
  moreover have "set r \<subseteq> xors A"
    using closest_elems [OF wA, of t' cnt] by (simp add: r_def)
  moreover have "set s \<subseteq> xors B"
    using closest_elems [OF wB, of "[]" "cnt - int (length r)"] by (auto simp: s_def)
  ultimately show ?case unfolding eq AB by (intro nearest_first_append) auto
qed (auto simp: nearest_first_def)

section \<open>The root\<close>

subsection \<open>Invariant and contents\<close>

definition root_ids :: "rootNode \<Rightarrow> NodeID set" where
  "root_ids n = (\<lambda>x. xor_bytes x (rn_origin n)) ` xors (rn_node n)"

definition bucket_card :: "NodeID set \<Rightarrow> nat \<Rightarrow> nat" where
  "bucket_card S b = card {x \<in> S. bucket_of x = b}"

lemma bucket_card_empty [simp]: "bucket_card {} b = 0"
  by (simp add: bucket_card_def)

lemma bucket_card_insert:
  assumes "finite S" "x \<notin> S"
  shows "bucket_card (insert x S) b = bucket_card S b + (if bucket_of x = b then 1 else 0)"
proof -
  have "{z \<in> insert x S. bucket_of z = b}
      = (if bucket_of x = b then insert x {z \<in> S. bucket_of z = b} else {z \<in> S. bucket_of z = b})"
    by auto
  then show ?thesis using assms by (simp add: bucket_card_def)
qed

lemma bucket_card_remove:
  assumes "finite S" "x \<in> S"
  shows "int (bucket_card (S - {x}) b) = int (bucket_card S b) - (if bucket_of x = b then 1 else 0)"
  using assms bucket_card_insert [of "S - {x}" x b] by (simp add: insert_absorb)

text \<open>
  The tree is well formed at the empty path, the origin itself (the zero XOR) is not stored,
  and every bucket counter is the number of stored elements with that many leading zeros.
\<close>

definition wf_root :: "rootNode \<Rightarrow> bool" where
  "wf_root n \<longleftrightarrow> wf_node (length (rn_origin n)) [] (rn_node n) \<and>
     replicate (length (rn_origin n)) 0 \<notin> xors (rn_node n) \<and>
     (\<forall>b. map_get 0 (rn_bucketCounts n) b = int (bucket_card (xors (rn_node n)) b))"

lemma MustXor_ok [simp]: "length i = length j \<Longrightarrow> MustXor i j = Inr (xor_bytes i j)"
  by (simp add: MustXor_def NodeID_Xor_def)

lemma root_xor_length: "wf_root n \<Longrightarrow> x \<in> xors (rn_node n) \<Longrightarrow> length x = length (rn_origin n)"
  by (auto simp: wf_root_def dest: node_elem)

lemma root_ids_iff:
  assumes "wf_root n" "length i = length (rn_origin n)"
  shows "i \<in> root_ids n \<longleftrightarrow> xor_bytes i (rn_origin n) \<in> xors (rn_node n)"
proof
  assume "i \<in> root_ids n"
  then obtain x where "x \<in> xors (rn_node n)" "i = xor_bytes x (rn_origin n)" by (auto simp: root_ids_def)
  then show "xor_bytes i (rn_origin n) \<in> xors (rn_node n)"
    using root_xor_length [OF assms(1)] by (simp add: xor_bytes_cancel)
next
  assume h: "xor_bytes i (rn_origin n) \<in> xors (rn_node n)"
  have "i = xor_bytes (xor_bytes i (rn_origin n)) (rn_origin n)"
    using assms(2) by (simp add: xor_bytes_cancel)
  with h show "i \<in> root_ids n" unfolding root_ids_def by blast
qed

lemma root_ids_length: "wf_root n \<Longrightarrow> i \<in> root_ids n \<Longrightarrow> length i = length (rn_origin n)"
  by (auto simp: root_ids_def root_xor_length)

lemma finite_root_ids: "finite (root_ids n)"
  by (simp add: root_ids_def)

lemma card_root_ids: "wf_root n \<Longrightarrow> card (root_ids n) = card (xors (rn_node n))"
  unfolding root_ids_def
  by (rule card_image) (auto simp: inj_on_def dest: root_xor_length intro: xor_bytes_inject [THEN iffD1])

lemma xor_bytes_origin:
  "length i = length j \<Longrightarrow> xor_bytes i j = replicate (length j) 0 \<longleftrightarrow> i = j"
  using xor_bytes_zero_iff [of i j] by (auto simp: list_all_iff intro: replicate_eqI)

lemma root_has: 
  "wf_root n \<Longrightarrow> length i = length (rn_origin n) \<Longrightarrow> Btree_Has n i = Inr (i \<in> root_ids n)"
  using node_has_iff [of "length (rn_origin n)" "[]" "rn_node n" "xor_bytes i (rn_origin n)"]
  by (simp add: Btree_Has_def root_ids_iff wf_root_def)

subsection \<open>Insertion at the root\<close>

lemma putBucketCount_get:
  "map_get 0 (rn_bucketCounts (putBucketCount n x)) b
     = map_get 0 (rn_bucketCounts n) b + (if b = bucket_of x then 1 else 0)"
  by (simp add: putBucketCount_def Let_def map_get_def)

lemma dropBucketCount_get:
  "map_get 0 (rn_bucketCounts (dropBucketCount n x)) b
     = map_get 0 (rn_bucketCounts n) b - (if b = bucket_of x then 1 else 0)"
  by (simp add: dropBucketCount_def Let_def)

lemma putBucketCount_frame [simp]:
  "rn_origin (putBucketCount n x) = rn_origin n" "rn_k (putBucketCount n x) = rn_k n"
  "rn_node (putBucketCount n x) = rn_node n"
  "rn_splittingEnabled (putBucketCount n x) = rn_splittingEnabled n"
  by (simp_all add: putBucketCount_def Let_def)

lemma dropBucketCount_frame [simp]:
  "rn_origin (dropBucketCount n x) = rn_origin n" "rn_k (dropBucketCount n x) = rn_k n"
  "rn_node (dropBucketCount n x) = rn_node n"
  "rn_splittingEnabled (dropBucketCount n x) = rn_splittingEnabled n"
  by (simp_all add: dropBucketCount_def Let_def)

text \<open>The fixed parameters of a tree: no operation changes them.\<close>

definition same_params :: "rootNode \<Rightarrow> rootNode \<Rightarrow> bool" where
  "same_params n m \<longleftrightarrow> rn_origin m = rn_origin n \<and> rn_k m = rn_k n \<and>
     rn_splittingEnabled m = rn_splittingEnabled n"

text \<open>
  The stored identifiers strictly closer to the origin than \<open>i\<close>, and those in its bucket.
\<close>

definition closer_ids :: "rootNode \<Rightarrow> NodeID \<Rightarrow> NodeID set" where
  "closer_ids n i = {j \<in> root_ids n.
     be_nat (xor_bytes j (rn_origin n)) < be_nat (xor_bytes i (rn_origin n))}"

definition bucket_ids :: "rootNode \<Rightarrow> nat \<Rightarrow> NodeID set" where
  "bucket_ids n b = {j \<in> root_ids n. shared_prefix j (rn_origin n) = b}"

lemma card_xor_image:
  assumes "wf_root n"
  shows "card {j \<in> root_ids n. P (xor_bytes j (rn_origin n))} = card {x \<in> xors (rn_node n). P x}"
proof -
  have "{j \<in> root_ids n. P (xor_bytes j (rn_origin n))}
      = (\<lambda>x. xor_bytes x (rn_origin n)) ` {x \<in> xors (rn_node n). P x}"
    using root_xor_length [OF assms] by (auto simp: root_ids_def xor_bytes_cancel)
  moreover have "inj_on (\<lambda>x. xor_bytes x (rn_origin n)) {x \<in> xors (rn_node n). P x}"
    using root_xor_length [OF assms] by (auto simp: inj_on_def xor_bytes_inject)
  ultimately show ?thesis by (simp add: card_image)
qed

lemma card_bucket_ids:
  assumes "wf_root n"
  shows "map_get 0 (rn_bucketCounts n) b = int (card (bucket_ids n b))"
  using assms card_xor_image [OF assms, of "\<lambda>x. bucket_of x = b"]
  by (simp add: bucket_ids_def shared_prefix_def wf_root_def bucket_of_def bucket_card_def)

lemma root_closer_off_by_one:
  assumes "wf_root n" "length i = length (rn_origin n)" "i \<notin> root_ids n"
  shows "\<exists>c. node_countCloserThanSubpath (rn_node n) (NodeID_Bits (xor_bytes i (rn_origin n))) = Inr c \<and>
             \<bar>c - int (card (closer_ids n i))\<bar> \<le> 1"
  using node_countCloser_off_by_one
      [of "length (rn_origin n)" "[]" "rn_node n" "xor_bytes i (rn_origin n)" "bits_of (xor_bytes i (rn_origin n))"]
    assms card_xor_image [OF assms(1), of "\<lambda>x. be_nat x < be_nat (xor_bytes i (rn_origin n))"]
  by (simp add: wf_root_def root_ids_iff [OF assms(1,2)] closer_ids_def closer_xors_def)

text \<open>The condition under which a new identifier is turned away.\<close>

definition put_rejects :: "rootNode \<Rightarrow> NodeID \<Rightarrow> bool res" where
  "put_rejects n xr =
     (if getBucketCount n xr \<ge> rn_k n then
        (if \<not> rn_splittingEnabled n then Inr True
         else res_bind (node_countCloserThanSubpath (rn_node n) (NodeID_Bits xr))
                (\<lambda>c. Inr (c \<ge> rn_k n)))
      else Inr False)"

lemma put_rejects_total:
  assumes "wf_root n" "length i = length (rn_origin n)" "i \<notin> root_ids n"
  shows "\<exists>r. put_rejects n (xor_bytes i (rn_origin n)) = Inr r"
  using root_closer_off_by_one [OF assms] by (auto simp: put_rejects_def)

lemma root_put_cases:
  assumes wf: "wf_root n" and len: "length i = length (rn_origin n)"
  obtains (origin) "i = rn_origin n" "Btree_Put n i = Inr (n, PutRejected)"
  | (exists) "i \<noteq> rn_origin n" "i \<in> root_ids n" "Btree_Put n i = Inr (n, PutAlreadyExists)"
  | (reject) "i \<noteq> rn_origin n" "i \<notin> root_ids n" "put_rejects n (xor_bytes i (rn_origin n)) = Inr True"
      "Btree_Put n i = Inr (n, PutRejected)"
  | (accept) m where "i \<noteq> rn_origin n" "i \<notin> root_ids n" "put_rejects n (xor_bytes i (rn_origin n)) = Inr False"
      "Btree_Put n i = Inr (m, PutAccepted)" "wf_root m" "root_ids m = insert i (root_ids n)" "same_params n m"
proof -
  let ?x = "xor_bytes i (rn_origin n)"
  have wfn: "wf_node (length (rn_origin n)) [] (rn_node n)" using wf by (simp add: wf_root_def)
  have lx: "length ?x = length (rn_origin n)" using len by simp
  have has: "node_has (rn_node n) ?x = Inr (i \<in> root_ids n)"
    using node_has_iff [OF wfn lx] root_ids_iff [OF wf len] by simp
  consider "i = rn_origin n" | "i \<noteq> rn_origin n" "i \<in> root_ids n"
    | "i \<noteq> rn_origin n" "i \<notin> root_ids n" "put_rejects n ?x = Inr True"
    | "i \<noteq> rn_origin n" "i \<notin> root_ids n" "put_rejects n ?x = Inr False"
    using put_rejects_total [OF wf len] by (metis (full_types))
  then show thesis
  proof cases
    case 1
    then show ?thesis using origin by (simp add: Btree_Put_def)
  next
    case 2
    then show ?thesis using exists has len by (simp add: Btree_Put_def)
  next
    case 3
    then show ?thesis using reject has len by (simp add: Btree_Put_def put_rejects_def)
  next
    case 4
    have new: "?x \<notin> xors (rn_node n)" using 4(2) root_ids_iff [OF wf len] by simp
    obtain n' where n': "node_put (rn_node n) ?x = Inr (n', PutAccepted)"
      "wf_node (length (rn_origin n)) [] n'" "xors n' = insert ?x (xors (rn_node n))"
      using node_put_new [OF wfn lx _ new] by auto
    let ?m = "putBucketCount (n\<lparr>rn_node := n'\<rparr>) ?x"
    have "Btree_Put n i = Inr (?m, PutAccepted)"
      using 4 has len n'(1) by (simp add: Btree_Put_def put_rejects_def)
    moreover have "wf_root ?m"
      using wf n' new 4(1) len xor_bytes_origin [OF len]
      by (auto simp: wf_root_def putBucketCount_get bucket_card_insert)
    moreover have "root_ids ?m = insert i (root_ids n)"
      using n'(3) len by (simp add: root_ids_def xor_bytes_cancel)
    moreover have "same_params n ?m" by (simp add: same_params_def)
    ultimately show ?thesis using accept 4 by blast
  qed
qed

subsection \<open>Removal at the root\<close>

lemma root_drop_cases:
  assumes wf: "wf_root n" and len: "length i = length (rn_origin n)"
  obtains (missing) "i \<notin> root_ids n" "Btree_Drop n i = Inr (n, False)"
  | (dropped) m where "i \<in> root_ids n" "Btree_Drop n i = Inr (m, True)" "wf_root m"
      "root_ids m = root_ids n - {i}" "same_params n m"
proof (cases "i \<in> root_ids n")
  let ?x = "xor_bytes i (rn_origin n)"
  have wfn: "wf_node (length (rn_origin n)) [] (rn_node n)" using wf by (simp add: wf_root_def)
  have lx: "length ?x = length (rn_origin n)" using len by simp
  {
    case False
    then have "?x \<notin> xors (rn_node n)" using root_ids_iff [OF wf len] by simp
    then have "Btree_Drop n i = Inr (n, False)"
      using node_drop_missing [OF wfn lx] len by (simp add: Btree_Drop_def)
    with False show ?thesis by (rule missing)
  next
    case True
    then have mem: "?x \<in> xors (rn_node n)" using root_ids_iff [OF wf len] by simp
    obtain n' where n': "node_drop (rn_node n) ?x = Inr (n', True)"
      "wf_node (length (rn_origin n)) [] n'" "xors n' = xors (rn_node n) - {?x}"
      using node_drop_present [OF wfn lx _ mem] by auto
    let ?m = "dropBucketCount (n\<lparr>rn_node := n'\<rparr>) ?x"
    have "Btree_Drop n i = Inr (?m, True)" using n'(1) len by (simp add: Btree_Drop_def)
    moreover have "wf_root ?m"
      using wf n' mem by (auto simp: wf_root_def dropBucketCount_get bucket_card_remove)
    moreover have "root_ids ?m = root_ids n - {i}"
    proof -
      have "inj_on (\<lambda>x. xor_bytes x (rn_origin n)) (xors (rn_node n))"
        using root_xor_length [OF wf] by (auto simp: inj_on_def xor_bytes_inject)
      then have "(\<lambda>x. xor_bytes x (rn_origin n)) ` (xors (rn_node n) - {?x})
          = root_ids n - (\<lambda>x. xor_bytes x (rn_origin n)) ` {?x}"
        unfolding root_ids_def using mem by (intro inj_on_image_set_diff) auto
      then show ?thesis using n'(3) len by (simp add: root_ids_def xor_bytes_cancel)
    qed
    moreover have "same_params n ?m" by (simp add: same_params_def)
    ultimately show ?thesis using True dropped by blast
  }
qed

lemma wf_root_New: "wf_root (Btree_New origin k splitting)"
  by (simp add: wf_root_def Btree_New_def)

lemma root_ids_New [simp]: "root_ids (Btree_New origin k splitting) = {}"
  by (simp add: root_ids_def Btree_New_def)

lemma root_count: "wf_root n \<Longrightarrow> Btree_Count n = int (card (root_ids n))"
  using node_count_card [of "length (rn_origin n)" "[]" "rn_node n"]
  by (simp add: Btree_Count_def card_root_ids wf_root_def)

lemma root_origin_not_stored: "wf_root n \<Longrightarrow> rn_origin n \<notin> root_ids n"
  using root_ids_iff [of n "rn_origin n"] xor_bytes_origin [of "rn_origin n" "rn_origin n"]
  by (simp add: wf_root_def)

subsection \<open>Closest identifiers\<close>

lemma res_map_total: "\<forall>x \<in> set xs. f x = Inr (g x) \<Longrightarrow> res_map f xs = Inr (map g xs)"
  by (induction xs) auto

lemma shared_prefix_xor:
  assumes "length a = length c" "length b = length c"
  shows "shared_prefix (xor_bytes a c) (xor_bytes b c) = shared_prefix a b"
proof -
  have "xor_bytes (xor_bytes a c) (xor_bytes b c) = xor_bytes a b"
    using assms by (intro nth_equalityI) (simp_all add: xor.assoc xor.left_commute, simp add: xor.commute)
  then show ?thesis by (simp add: shared_prefix_def)
qed

lemma root_closest:
  assumes wf: "wf_root n" and len: "length i = length (rn_origin n)"
  shows "\<exists>r. Btree_Closest n i cnt = Inr r \<and> set r \<subseteq> root_ids n \<and> distinct r \<and>
             length r = min (nat cnt) (card (root_ids n)) \<and> nearest_first i (root_ids n) r"
proof -
  let ?o = "rn_origin n" and ?x = "xor_bytes i (rn_origin n)"
  let ?g = "\<lambda>x. xor_bytes x (rn_origin n)"
  define xs where "xs = node_xorsClosestToSubpath (rn_node n) (bits_of ?x) cnt"
  have wfn: "wf_node (length ?o) [] (rn_node n)" using wf by (simp add: wf_root_def)
  have xs: "set xs \<subseteq> xors (rn_node n)" "distinct xs" "length xs = min (nat cnt) (card (xors (rn_node n)))"
    using closest_elems [OF wfn] by (simp_all add: xs_def)
  have nf: "nearest_first ?x (xors (rn_node n)) xs"
    unfolding xs_def by (rule closest_nearest_first [OF wfn]) (use len in auto)
  have lenx: "length x = length ?o" if "x \<in> xors (rn_node n)" for x
    using root_xor_length [OF wf that] .
  have eq: "Btree_Closest n i cnt = Inr (map ?g xs)"
    using len xs(1) lenx by (auto simp: Btree_Closest_def xs_def [symmetric] intro!: res_map_total)
  have inj: "inj_on ?g (xors (rn_node n))" using lenx by (auto simp: inj_on_def xor_bytes_inject)
  have sp: "shared_prefix (?g x) i = shared_prefix x ?x" if "x \<in> xors (rn_node n)" for x
    using shared_prefix_xor [of x ?o ?x] lenx [OF that] len by (simp add: xor_bytes_cancel)
  have "sorted_wrt (\<lambda>a b. shared_prefix b ?x \<le> shared_prefix a ?x) xs"
    using nf by (simp add: nearest_first_def)
  then have "sorted_wrt (\<lambda>a b. shared_prefix (?g b) i \<le> shared_prefix (?g a) i) xs"
    by (rule sorted_wrt_mono_rel [rotated]) (simp add: sp subsetD [OF xs(1)])
  moreover have "shared_prefix b i \<le> shared_prefix a i"
    if a: "a \<in> set (map ?g xs)" and b: "b \<in> root_ids n - set (map ?g xs)" for a b
  proof -
    obtain a' where a': "a' \<in> set xs" "a = ?g a'" using a by auto
    obtain b' where b': "b' \<in> xors (rn_node n)" "b = ?g b'" "b' \<notin> set xs"
      using b by (auto simp: root_ids_def)
    have "shared_prefix b' ?x \<le> shared_prefix a' ?x"
      using nf a'(1) b'(1,3) by (simp add: nearest_first_def)
    then show ?thesis using sp [OF b'(1)] sp [of a'] a' b'(2) xs(1) by auto
  qed
  ultimately have "nearest_first i (root_ids n) (map ?g xs)"
    unfolding nearest_first_def by (simp add: sorted_wrt_map)
  moreover have "distinct (map ?g xs)" using xs(1,2) inj by (simp add: distinct_map inj_on_subset)
  moreover have "set (map ?g xs) \<subseteq> root_ids n" using xs(1) by (auto simp: root_ids_def)
  moreover have "length (map ?g xs) = min (nat cnt) (card (root_ids n))"
    using xs(3) card_root_ids [OF wf] by simp
  ultimately show ?thesis using eq by blast
qed

end
