(* ===== verification/BtreeInterface.thy ===== *)
theory BtreeInterface
  imports Btree
begin

text \<open>
  The \<open>Btree\<close> interface of the routing table (\<open>src/internal/protocol/dht/ktable/btree/btree.go\<close>,
  lines 12--19), the two types that implement it, and what both promise.

  A value of the interface type is a record of methods, so that code written against the
  interface takes the record as an argument, as a Go call through the interface does.
  The implementations are \<open>rootNode\<close> (theory \<open>Btree\<close>) and
  \<open>PrometheusCollector\<close> (\<open>btree/prometheus_collector.go\<close>), which wraps another tree and keeps
  a gauge and two counters.  The contract is the locale \<open>btree_contract\<close>: the tree is a finite
  set of identifiers of the origin's length.
\<close>

section \<open>The interface\<close>

record 't Btree_ops =
  bt_N :: "'t \<Rightarrow> nat"
  bt_Put :: "'t \<Rightarrow> NodeID \<Rightarrow> ('t \<times> PutResult) res"
  bt_Has :: "'t \<Rightarrow> NodeID \<Rightarrow> bool res"
  bt_Drop :: "'t \<Rightarrow> NodeID \<Rightarrow> ('t \<times> bool) res"
  bt_Closest :: "'t \<Rightarrow> NodeID \<Rightarrow> int \<Rightarrow> NodeID list res"
  bt_Count :: "'t \<Rightarrow> int"

definition rootNode_ops :: "rootNode Btree_ops" where
  "rootNode_ops = \<lparr>bt_N = Btree_N, bt_Put = Btree_Put, bt_Has = Btree_Has, bt_Drop = Btree_Drop,
     bt_Closest = Btree_Closest, bt_Count = Btree_Count\<rparr>"

section \<open>The collector\<close>

text \<open>The gauge and the counters are the numbers they report.\<close>

record 't PrometheusCollector =
  pc_Btree :: 't
  pc_CountGauge :: int
  pc_AddedCounter :: int
  pc_DroppedCounter :: int

definition Collector_N :: "'t Btree_ops \<Rightarrow> 't PrometheusCollector \<Rightarrow> nat" where
  "Collector_N bo p = bt_N bo (pc_Btree p)"

definition Collector_Put ::
  "'t Btree_ops \<Rightarrow> 't PrometheusCollector \<Rightarrow> NodeID \<Rightarrow> ('t PrometheusCollector \<times> PutResult) res" where
  "Collector_Put bo p i =
     res_bind (bt_Put bo (pc_Btree p) i) (\<lambda>(t, result).
       let p' = p\<lparr>pc_Btree := t\<rparr> in
       if result = PutAccepted
       then Inr (p'\<lparr>pc_CountGauge := pc_CountGauge p' + 1, pc_AddedCounter := pc_AddedCounter p' + 1\<rparr>, result)
       else Inr (p', result))"

definition Collector_Has :: "'t Btree_ops \<Rightarrow> 't PrometheusCollector \<Rightarrow> NodeID \<Rightarrow> bool res" where
  "Collector_Has bo p i = bt_Has bo (pc_Btree p) i"

definition Collector_Drop ::
  "'t Btree_ops \<Rightarrow> 't PrometheusCollector \<Rightarrow> NodeID \<Rightarrow> ('t PrometheusCollector \<times> bool) res" where
  "Collector_Drop bo p i =
     res_bind (bt_Drop bo (pc_Btree p) i) (\<lambda>(t, result).
       let p' = p\<lparr>pc_Btree := t\<rparr> in
       if result
       then Inr (p'\<lparr>pc_CountGauge := pc_CountGauge p' + -1, pc_DroppedCounter := pc_DroppedCounter p' + 1\<rparr>, result)
       else Inr (p', result))"

definition Collector_Closest ::
  "'t Btree_ops \<Rightarrow> 't PrometheusCollector \<Rightarrow> NodeID \<Rightarrow> int \<Rightarrow> NodeID list res" where
  "Collector_Closest bo p i count = bt_Closest bo (pc_Btree p) i count"

definition Collector_Count :: "'t Btree_ops \<Rightarrow> 't PrometheusCollector \<Rightarrow> int" where
  "Collector_Count bo p = bt_Count bo (pc_Btree p)"

definition collector_ops :: "'t Btree_ops \<Rightarrow> 't PrometheusCollector Btree_ops" where
  "collector_ops bo = \<lparr>bt_N = Collector_N bo, bt_Put = Collector_Put bo, bt_Has = Collector_Has bo,
     bt_Drop = Collector_Drop bo, bt_Closest = Collector_Closest bo, bt_Count = Collector_Count bo\<rparr>"

text \<open>A fresh collector reports zero (\<open>newPrometheusCollector\<close> and \<open>patchPrometheusCollector\<close>
  in \<open>ktable/factory.go\<close>).\<close>

definition patchPrometheusCollector :: "'t \<Rightarrow> 't PrometheusCollector" where
  "patchPrometheusCollector t =
     \<lparr>pc_Btree = t, pc_CountGauge = 0, pc_AddedCounter = 0, pc_DroppedCounter = 0\<rparr>"

section \<open>Histories\<close>

text \<open>The trees a caller can reach from \<open>t0\<close> with identifiers of \<open>L\<close> bytes.\<close>

inductive btree_reach :: "'t Btree_ops \<Rightarrow> nat \<Rightarrow> 't \<Rightarrow> 't \<Rightarrow> bool" for bo L t0 where
  start: "btree_reach bo L t0 t0"
| put: "btree_reach bo L t0 t \<Longrightarrow> length i = L \<Longrightarrow> bt_Put bo t i = Inr (t', r) \<Longrightarrow> btree_reach bo L t0 t'"
| drop: "btree_reach bo L t0 t \<Longrightarrow> length i = L \<Longrightarrow> bt_Drop bo t i = Inr (t', ok) \<Longrightarrow> btree_reach bo L t0 t'"

section \<open>The contract\<close>

text \<open>What an insertion with a given result does to the set of identifiers.\<close>

fun put_effect :: "PutResult \<Rightarrow> NodeID \<Rightarrow> NodeID set \<Rightarrow> NodeID set \<Rightarrow> bool" where
  "put_effect PutAccepted i S S' \<longleftrightarrow> i \<notin> S \<and> S' = insert i S"
| "put_effect PutAlreadyExists i S S' \<longleftrightarrow> i \<in> S \<and> S' = S"
| "put_effect PutRejected i S S' \<longleftrightarrow> i \<notin> S \<and> S' = S"

text \<open>The metrics of a collector agree with the contents of the tree it wraps.\<close>

definition collector_invar ::
  "('t \<Rightarrow> bool) \<Rightarrow> ('t \<Rightarrow> NodeID set) \<Rightarrow> 't PrometheusCollector \<Rightarrow> bool" where
  "collector_invar invar ids p \<longleftrightarrow> invar (pc_Btree p) \<and> pc_CountGauge p = int (card (ids (pc_Btree p))) \<and>
     pc_CountGauge p = pc_AddedCounter p - pc_DroppedCounter p"

locale btree_contract =
  fixes bo :: "'t Btree_ops"
    and invar :: "'t \<Rightarrow> bool"
    and ids :: "'t \<Rightarrow> NodeID set"
    and origin :: "'t \<Rightarrow> NodeID"
  assumes ids_finite: "invar t \<Longrightarrow> finite (ids t)"
    and ids_length: "invar t \<Longrightarrow> i \<in> ids t \<Longrightarrow> length i = length (origin t)"
    and put_law: "invar t \<Longrightarrow> length i = length (origin t) \<Longrightarrow>
      \<exists>t' r. bt_Put bo t i = Inr (t', r) \<and> invar t' \<and> origin t' = origin t \<and> put_effect r i (ids t) (ids t')"
    and has_law: "invar t \<Longrightarrow> length i = length (origin t) \<Longrightarrow> bt_Has bo t i = Inr (i \<in> ids t)"
    and drop_law: "invar t \<Longrightarrow> length i = length (origin t) \<Longrightarrow>
      \<exists>t'. bt_Drop bo t i = Inr (t', i \<in> ids t) \<and> invar t' \<and> origin t' = origin t \<and> ids t' = ids t - {i}"
    and closest_law: "invar t \<Longrightarrow> length i = length (origin t) \<Longrightarrow>
      \<exists>r. bt_Closest bo t i c = Inr r \<and> set r \<subseteq> ids t \<and> distinct r \<and>
          length r = min (nat c) (card (ids t)) \<and> nearest_first i (ids t) r"
    and count_law: "invar t \<Longrightarrow> bt_Count bo t = int (card (ids t))"
begin

lemma put_cases:
  assumes "invar t" "length i = length (origin t)"
  obtains (accepted) t' where "bt_Put bo t i = Inr (t', PutAccepted)" "invar t'" "origin t' = origin t"
      "i \<notin> ids t" "ids t' = insert i (ids t)"
  | (exists) t' where "bt_Put bo t i = Inr (t', PutAlreadyExists)" "invar t'" "origin t' = origin t"
      "i \<in> ids t" "ids t' = ids t"
  | (rejected) t' where "bt_Put bo t i = Inr (t', PutRejected)" "invar t'" "origin t' = origin t"
      "i \<notin> ids t" "ids t' = ids t"
proof -
  obtain t' r where "bt_Put bo t i = Inr (t', r)" "invar t'" "origin t' = origin t" "put_effect r i (ids t) (ids t')"
    using put_law [OF assms] by blast
  then show thesis using that by (cases r) auto
qed

text \<open>The wrapped tree behaves as the tree, and its metrics follow its contents.\<close>

lemma put_invar:
  assumes "bt_Put bo t i = Inr (t', r)" "invar t" "length i = length (origin t)"
  shows "invar t' \<and> origin t' = origin t"
  using put_law [OF assms(2,3)] assms(1) by auto

lemma drop_invar:
  assumes "bt_Drop bo t i = Inr (t', ok)" "invar t" "length i = length (origin t)"
  shows "invar t' \<and> origin t' = origin t"
  using drop_law [OF assms(2,3)] assms(1) by auto

lemma reach_invar:
  "btree_reach bo (length (origin t0)) t0 t \<Longrightarrow> invar t0 \<Longrightarrow> invar t \<and> origin t = origin t0"
proof (induction rule: btree_reach.induct)
  case (put t i t' r)
  then show ?case using put_invar [OF put.hyps(3)] by simp
next
  case (drop t i t' ok)
  then show ?case using drop_invar [OF drop.hyps(3)] by simp
qed simp

lemma collector_put:
  assumes "collector_invar invar ids p" "length i = length (origin (pc_Btree p))"
  shows "\<exists>p' r. Collector_Put bo p i = Inr (p', r) \<and> collector_invar invar ids p' \<and>
     origin (pc_Btree p') = origin (pc_Btree p) \<and> put_effect r i (ids (pc_Btree p)) (ids (pc_Btree p'))"
proof -
  have inv: "invar (pc_Btree p)" using assms(1) by (simp add: collector_invar_def)
  from put_cases [OF inv assms(2)] show ?thesis
    using assms(1) ids_finite [OF inv]
    by cases (simp_all add: Collector_Put_def collector_invar_def)
qed

lemma collector_drop:
  assumes "collector_invar invar ids p" "length i = length (origin (pc_Btree p))"
  shows "\<exists>p'. Collector_Drop bo p i = Inr (p', i \<in> ids (pc_Btree p)) \<and> collector_invar invar ids p' \<and>
     origin (pc_Btree p') = origin (pc_Btree p) \<and> ids (pc_Btree p') = ids (pc_Btree p) - {i}"
proof -
  have inv: "invar (pc_Btree p)" using assms(1) by (simp add: collector_invar_def)
  obtain t' where t': "bt_Drop bo (pc_Btree p) i = Inr (t', i \<in> ids (pc_Btree p))" "invar t'"
    "origin t' = origin (pc_Btree p)" "ids t' = ids (pc_Btree p) - {i}"
    using drop_law [OF inv assms(2)] by blast
  have "int (card (ids (pc_Btree p) - {i})) = int (card (ids (pc_Btree p))) - 1" if "i \<in> ids (pc_Btree p)"
    using ids_finite [OF inv] that card_Suc_Diff1 [of "ids (pc_Btree p)" i] by simp
  then show ?thesis
    using assms(1) t' by (cases "i \<in> ids (pc_Btree p)") (simp_all add: Collector_Drop_def collector_invar_def)
qed

lemma collector_contract:
  "btree_contract (collector_ops bo) (collector_invar invar ids) (\<lambda>p. ids (pc_Btree p)) (\<lambda>p. origin (pc_Btree p))"
proof unfold_locales
  fix p :: "'t PrometheusCollector" and i :: NodeID and c :: int
  assume inv: "collector_invar invar ids p"
  then have inv': "invar (pc_Btree p)" by (simp add: collector_invar_def)
  show "finite (ids (pc_Btree p))" using ids_finite [OF inv'] .
  show "bt_Count (collector_ops bo) p = int (card (ids (pc_Btree p)))"
    using count_law [OF inv'] by (simp add: collector_ops_def Collector_Count_def)
  {
    assume "i \<in> ids (pc_Btree p)"
    then show "length i = length (origin (pc_Btree p))" using ids_length [OF inv'] by simp
  next
    assume len: "length i = length (origin (pc_Btree p))"
    show "\<exists>p' r. bt_Put (collector_ops bo) p i = Inr (p', r) \<and> collector_invar invar ids p' \<and>
        origin (pc_Btree p') = origin (pc_Btree p) \<and> put_effect r i (ids (pc_Btree p)) (ids (pc_Btree p'))"
      using collector_put [OF inv len] by (simp add: collector_ops_def)
    show "bt_Has (collector_ops bo) p i = Inr (i \<in> ids (pc_Btree p))"
      using has_law [OF inv' len] by (simp add: collector_ops_def Collector_Has_def)
    show "\<exists>p'. bt_Drop (collector_ops bo) p i = Inr (p', i \<in> ids (pc_Btree p)) \<and> collector_invar invar ids p' \<and>
        origin (pc_Btree p') = origin (pc_Btree p) \<and> ids (pc_Btree p') = ids (pc_Btree p) - {i}"
      using collector_drop [OF inv len] by (simp add: collector_ops_def)
    show "\<exists>r. bt_Closest (collector_ops bo) p i c = Inr r \<and> set r \<subseteq> ids (pc_Btree p) \<and> distinct r \<and>
        length r = min (nat c) (card (ids (pc_Btree p))) \<and> nearest_first i (ids (pc_Btree p)) r"
      using closest_law [OF inv' len, of c] by (simp add: collector_ops_def Collector_Closest_def)
  }
qed

end

section \<open>Both implementations keep the contract\<close>

interpretation root_tree: btree_contract rootNode_ops wf_root root_ids rn_origin
proof unfold_locales
  fix n :: rootNode and i :: NodeID and c :: int
  assume wf: "wf_root n"
  show "finite (root_ids n)" by (simp add: finite_root_ids)
  show "bt_Count rootNode_ops n = int (card (root_ids n))" by (simp add: rootNode_ops_def root_count [OF wf])
  {
    assume "i \<in> root_ids n"
    then show "length i = length (rn_origin n)" using root_ids_length [OF wf] by simp
  next
    assume len: "length i = length (rn_origin n)"
    from root_put_cases [OF wf len]
    show "\<exists>m r. bt_Put rootNode_ops n i = Inr (m, r) \<and> wf_root m \<and> rn_origin m = rn_origin n \<and>
        put_effect r i (root_ids n) (root_ids m)"
      by cases (auto simp: rootNode_ops_def same_params_def root_origin_not_stored [OF wf] wf)
    show "bt_Has rootNode_ops n i = Inr (i \<in> root_ids n)"
      by (simp add: rootNode_ops_def root_has [OF wf len])
    from root_drop_cases [OF wf len]
    show "\<exists>m. bt_Drop rootNode_ops n i = Inr (m, i \<in> root_ids n) \<and> wf_root m \<and>
        rn_origin m = rn_origin n \<and> root_ids m = root_ids n - {i}"
      by cases (auto simp: rootNode_ops_def same_params_def wf)
    show "\<exists>r. bt_Closest rootNode_ops n i c = Inr r \<and> set r \<subseteq> root_ids n \<and> distinct r \<and>
        length r = min (nat c) (card (root_ids n)) \<and> nearest_first i (root_ids n) r"
      using root_closest [OF wf len, of c] by (simp add: rootNode_ops_def)
  }
qed

interpretation collected_tree: btree_contract "collector_ops rootNode_ops" "collector_invar wf_root root_ids"
  "\<lambda>p. root_ids (pc_Btree p)" "\<lambda>p. rn_origin (pc_Btree p)"
  by (rule root_tree.collector_contract)

section \<open>Reachable trees\<close>

abbreviation root_reach :: "NodeID \<Rightarrow> int \<Rightarrow> bool \<Rightarrow> rootNode \<Rightarrow> bool" where
  "root_reach org k splitting \<equiv> btree_reach rootNode_ops (length org) (Btree_New org k splitting)"

lemma New_params [simp]:
  "rn_origin (Btree_New org k splitting) = org" "rn_k (Btree_New org k splitting) = k"
  "rn_splittingEnabled (Btree_New org k splitting) = splitting"
  by (simp_all add: Btree_New_def)

lemma root_reach_wf: "root_reach org k splitting n \<Longrightarrow> wf_root n \<and> rn_origin n = org"
  using root_tree.reach_invar [of "Btree_New org k splitting" n] by (simp add: wf_root_New)

lemma root_put_params:
  assumes "wf_root n" "length i = length (rn_origin n)" "Btree_Put n i = Inr (m, r)"
  shows "same_params n m"
  using root_put_cases [OF assms(1,2)] by cases (use assms(3) in \<open>auto simp: same_params_def\<close>)

lemma root_drop_params:
  assumes "wf_root n" "length i = length (rn_origin n)" "Btree_Drop n i = Inr (m, ok)"
  shows "same_params n m"
  using root_drop_cases [OF assms(1,2)] by cases (use assms(3) in \<open>auto simp: same_params_def\<close>)

lemma root_reach_params:
  "root_reach org k splitting n \<Longrightarrow> rn_k n = k \<and> rn_splittingEnabled n = splitting"
proof (induction rule: btree_reach.induct)
  case (put t i t' r)
  then show ?case using root_put_params [of t i t' r] root_reach_wf [OF put.hyps(1)]
    by (simp add: rootNode_ops_def same_params_def)
next
  case (drop t i t' ok)
  then show ?case using root_drop_params [of t i t' ok] root_reach_wf [OF drop.hyps(1)]
    by (simp add: rootNode_ops_def same_params_def)
qed simp

lemmas root_reach_facts = root_reach_wf [THEN conjunct1] root_reach_wf [THEN conjunct2]
  root_reach_params [THEN conjunct1] root_reach_params [THEN conjunct2]

text \<open>A bucket never exceeds \<open>k\<close> when splitting is off: the counter is consulted before the tree grows.\<close>

lemma bucket_ids_insert:
  assumes "root_ids m = insert i (root_ids n)" "i \<notin> root_ids n" "rn_origin m = rn_origin n"
  shows "card (bucket_ids m b) = card (bucket_ids n b) + (if shared_prefix i (rn_origin n) = b then 1 else 0)"
proof -
  have "bucket_ids m b = (if shared_prefix i (rn_origin n) = b then insert i (bucket_ids n b) else bucket_ids n b)"
    using assms by (auto simp: bucket_ids_def)
  moreover have "finite (bucket_ids n b)" "i \<notin> bucket_ids n b"
    using assms(2) finite_root_ids [of n] by (simp_all add: bucket_ids_def)
  ultimately show ?thesis by simp
qed

lemma bucket_counter:
  assumes "wf_root n" "length i = length (rn_origin n)"
  shows "getBucketCount n (xor_bytes i (rn_origin n)) = int (card (bucket_ids n (shared_prefix i (rn_origin n))))"
  using card_bucket_ids [OF assms(1)] by (simp add: getBucketCount_def shared_prefix_def bucket_of_def)

lemma root_put_capacity:
  assumes "wf_root n" "length i = length (rn_origin n)" "Btree_Put n i = Inr (m, r)"
    "\<not> rn_splittingEnabled n" "int (card (bucket_ids n b)) \<le> rn_k n"
  shows "int (card (bucket_ids m b)) \<le> rn_k n"
  using assms(1,2)
proof (cases rule: root_put_cases)
  case (accept m')
  then have "m = m'" using assms(3) by simp
  then show ?thesis
    using accept assms(4,5) bucket_ids_insert [of m' i n b] bucket_counter [OF assms(1,2)]
    by (auto simp: put_rejects_def same_params_def split: if_splits)
qed (use assms(3,5) in auto)

lemma root_drop_capacity:
  assumes "wf_root n" "length i = length (rn_origin n)" "Btree_Drop n i = Inr (m, ok)"
  shows "card (bucket_ids m b) \<le> card (bucket_ids n b)"
  using assms(1,2)
proof (cases rule: root_drop_cases)
  case (dropped m')
  then have "bucket_ids m b \<subseteq> bucket_ids n b"
    using assms(3) by (auto simp: bucket_ids_def same_params_def)
  then show ?thesis using finite_root_ids [of n] by (simp add: bucket_ids_def card_mono)
qed (use assms(3) in auto)

lemma root_reach_capacity:
  "root_reach org k False n \<Longrightarrow> 0 \<le> k \<Longrightarrow> int (card (bucket_ids n b)) \<le> k"
proof (induction rule: btree_reach.induct)
  case start
  then show ?case by (simp add: bucket_ids_def)
next
  case (put t i t' r)
  then show ?case using root_put_capacity [of t i t' r b] root_reach_facts [OF put.hyps(1)]
    by (simp add: rootNode_ops_def)
next
  case (drop t i t' ok)
  then show ?case using root_drop_capacity [of t i t' ok b] root_reach_facts [OF drop.hyps(1)]
    by (simp add: rootNode_ops_def)
qed

section \<open>Properties of the tree\<close>

text \<open>
  C5. On every tree a caller can reach with identifiers of the origin's length, \<open>Put\<close> returns
  (it never panics), its result says what it did, and the tree afterwards answers \<open>Has\<close> as the
  set of identifiers with that change: an accepted identifier is new and is the only one added,
  a known one is reported as existing and the tree is kept, and the origin is always rejected.
\<close>

theorem Btree_Put_refines_set:
  assumes "root_reach org k splitting n" "length i = length org"
  shows "\<exists>m r. Btree_Put n i = Inr (m, r) \<and> put_effect r i (root_ids n) (root_ids m) \<and>
     (i = org \<longrightarrow> r = PutRejected) \<and> (r \<noteq> PutAccepted \<longrightarrow> m = n) \<and>
     (\<forall>j. length j = length org \<longrightarrow> Btree_Has m j = Inr (j \<in> root_ids m))"
proof -
  have wf: "wf_root n" and org: "rn_origin n = org" using root_reach_facts [OF assms(1)] by auto
  have len: "length i = length (rn_origin n)" using assms(2) org by simp
  from root_put_cases [OF wf len] show ?thesis
    using root_has org root_origin_not_stored [OF wf] wf by cases (auto simp: same_params_def)
qed

theorem Btree_Put_refines_set_witness:
  "\<exists>m r. Btree_Put (Btree_New [0] 2 True) [5] = Inr (m, r) \<and>
     put_effect r [5] (root_ids (Btree_New [0] 2 True)) (root_ids m)"
  using Btree_Put_refines_set [of "[0]" 2 True "Btree_New [0] 2 True" "[5]"]
  by (auto intro: btree_reach.start)

text \<open>
  C19. On every reachable tree \<open>Drop\<close> returns, reports whether the identifier was stored, and
  removes it and nothing else; \<open>Count\<close> is the number of identifiers left.
\<close>

theorem Btree_Drop_refines_set:
  assumes "root_reach org k splitting n" "length i = length org"
  shows "\<exists>m. Btree_Drop n i = Inr (m, i \<in> root_ids n) \<and> root_ids m = root_ids n - {i} \<and>
     Btree_Has m i = Inr False \<and> Btree_Count m = int (card (root_ids n - {i}))"
proof -
  have wf: "wf_root n" and org: "rn_origin n = org" using root_reach_facts [OF assms(1)] by auto
  have len: "length i = length (rn_origin n)" using assms(2) org by simp
  from root_drop_cases [OF wf len] show ?thesis
    using root_has [of _ i] root_count len wf by cases (auto simp: same_params_def)
qed

theorem Btree_Drop_refines_set_witness:
  "\<exists>m. Btree_Drop (Btree_New [0] 2 True) [5] = Inr (m, [5] \<in> root_ids (Btree_New [0] 2 True)) \<and>
     Btree_Has m [5] = Inr False"
  using Btree_Drop_refines_set [of "[0]" 2 True "Btree_New [0] 2 True" "[5]"]
  by (auto intro: btree_reach.start)

text \<open>
  C20. On every reachable tree \<open>Closest\<close> returns as many distinct stored identifiers as asked for
  (or all of them), in order of the length of the prefix they share with the target, and none
  that is left out shares a longer prefix with the target than one that is returned.
\<close>

theorem Btree_Closest_nearest:
  assumes "root_reach org k splitting n" "length i = length org"
  shows "\<exists>r. Btree_Closest n i count = Inr r \<and> set r \<subseteq> root_ids n \<and> distinct r \<and>
     length r = min (nat count) (card (root_ids n)) \<and>
     sorted_wrt (\<lambda>a b. shared_prefix b i \<le> shared_prefix a i) r \<and>
     (\<forall>a \<in> set r. \<forall>b \<in> root_ids n - set r. shared_prefix b i \<le> shared_prefix a i)"
  using root_closest [of n i count] root_reach_facts [OF assms(1)] assms(2)
  by (simp add: nearest_first_def)

theorem Btree_Closest_nearest_witness:
  "\<exists>r. Btree_Closest (Btree_New [0] 2 True) [5] 8 = Inr r \<and> length r = 0"
  using Btree_Closest_nearest [of "[0]" 2 True "Btree_New [0] 2 True" "[5]" 8]
  by (auto intro: btree_reach.start)

text \<open>
  C18. With splitting off the tree is a table of buckets of at most \<open>k\<close> identifiers, where the
  bucket of an identifier is the length of the prefix it shares with the origin; and the counter
  kept for each bucket is its exact size after every history of insertions and removals.
\<close>

theorem Btree_bucket_capacity:
  assumes "root_reach org k False n" "0 \<le> k"
  shows "map_get 0 (rn_bucketCounts n) b = int (card (bucket_ids n b)) \<and> int (card (bucket_ids n b)) \<le> k"
  using card_bucket_ids [of n b] root_reach_facts [OF assms(1)] root_reach_capacity [OF assms] by simp

theorem Btree_bucket_capacity_witness:
  "int (card (bucket_ids (Btree_New [0] 2 False) 3)) \<le> 2"
  using Btree_bucket_capacity [of "[0]" 2 "Btree_New [0] 2 False" 3]
  by (simp add: btree_reach.start)



text \<open>
  The wrapped tree of the routing table: after any history of insertions and removals the
  gauge equals the number of stored identifiers, which is the tree's own count, and the
  difference of the added and dropped counters.
\<close>

theorem Collector_metrics_exact:
  assumes "btree_reach (collector_ops rootNode_ops) (length org)
             (patchPrometheusCollector (Btree_New org k splitting)) p"
  shows "pc_CountGauge p = Collector_Count rootNode_ops p \<and>
     pc_CountGauge p = pc_AddedCounter p - pc_DroppedCounter p \<and>
     pc_CountGauge p = int (card (root_ids (pc_Btree p)))"
proof -
  let ?p0 = "patchPrometheusCollector (Btree_New org k splitting)"
  have "collector_invar wf_root root_ids ?p0"
    by (simp add: collector_invar_def patchPrometheusCollector_def wf_root_New)
  then have "collector_invar wf_root root_ids p"
    using collected_tree.reach_invar [of ?p0 p] assms by (simp add: patchPrometheusCollector_def)
  then show ?thesis
    using root_count [of "pc_Btree p"] by (simp add: collector_invar_def Collector_Count_def rootNode_ops_def)
qed

theorem Collector_metrics_exact_witness:
  "pc_CountGauge (patchPrometheusCollector (Btree_New [0] 2 True)) =
     Collector_Count rootNode_ops (patchPrometheusCollector (Btree_New [0] 2 True))"
  using Collector_metrics_exact [of "[0]" 2 True "patchPrometheusCollector (Btree_New [0] 2 True)"]
  by (simp add: btree_reach.start)

end
