(* ===== verification/Keyspace.thy ===== *)
theory Keyspace
  imports BtreeInterface
begin

text \<open>
  The keyspace of the routing table (\<open>src/internal/protocol/dht/ktable/keyspace.go\<close>): a tree
  of identifiers together with a map from identifiers to items.

  The code is generic in the kind of item.  The methods of \<open>keyspaceItemPrivate\<close> and the item
  factory are a record of functions, and they read and write a state \<open>'w\<close> the keyspace does not
  know (the reverse map of addresses).  Items are held by value: a map entry is the object the
  source's pointer refers to, and a dropped item (with its reason) leaves the model with its map
  entry.  The iteration order of a Go map is an argument (the list of keys
  in the order the range statement meets them).
\<close>

section \<open>Items\<close>

record ('w, 'inp, 'opt, 'it) item_ops =
  io_factory :: "ID \<Rightarrow> 'inp \<Rightarrow> 'w \<Rightarrow> 'it \<times> 'w"
  io_ID :: "'it \<Rightarrow> ID"
  io_update :: "'it option \<Rightarrow> 'inp \<Rightarrow> 'w \<Rightarrow> ('it option \<times> 'w) res"
  io_apply :: "'opt \<Rightarrow> 'it \<Rightarrow> 'it"
  io_drop :: "string \<Rightarrow> 'it \<Rightarrow> 'w \<Rightarrow> 'it \<times> 'w"

abbreviation nil_dereference :: go_fault where
  "nil_dereference \<equiv> Panic ''invalid memory address or nil pointer dereference''"

section \<open>The keyspace\<close>

record ('t, 'it) keyspace =
  ks_origin :: ID
  ks_k :: int
  ks_btree :: 't
  ks_items :: "ID \<rightharpoonup> 'it"

text \<open>The tree is a value of the interface type, made by \<open>btree.New(origin[:], k, true)\<close>.\<close>

definition newKeyspace :: "ID \<Rightarrow> int \<Rightarrow> (rootNode, 'it) keyspace" where
  "newKeyspace origin k =
     \<lparr>ks_origin = origin, ks_k = k, ks_btree = Btree_New origin k True, ks_items = Map.empty\<rparr>"

definition ks_newItem :: "('w, 'inp, 'opt, 'it) item_ops \<Rightarrow> ID \<Rightarrow> 'inp \<Rightarrow> 'w \<Rightarrow> 'it \<times> 'w" where
  "ks_newItem io i input w = io_factory io i input w"

definition ks_count :: "('t, 'it) keyspace \<Rightarrow> nat" where
  "ks_count k = card (dom (ks_items k))"

definition ks_get :: "('t, 'it) keyspace \<Rightarrow> ID \<Rightarrow> 'it option" where
  "ks_get k i = ks_items k i"

text \<open>The loop over the options; a nil item faults as soon as there is an option to apply.\<close>

definition ks_applyOptions :: "('w, 'inp, 'opt, 'it) item_ops \<Rightarrow> 'it option \<Rightarrow> 'opt list \<Rightarrow> 'it option res" where
  "ks_applyOptions io it options =
     (case it of
        Some x \<Rightarrow> Inr (Some (fold (io_apply io) options x))
      | None \<Rightarrow> if options = [] then Inr None else Inl nil_dereference)"

definition ks_put ::
  "'t Btree_ops \<Rightarrow> ('w, 'inp, 'opt, 'it) item_ops \<Rightarrow> ('t, 'it) keyspace \<Rightarrow> ID \<Rightarrow> 'inp \<Rightarrow> 'opt list \<Rightarrow> 'w \<Rightarrow>
   (('t, 'it) keyspace \<times> 'w \<times> PutResult) res" where
  "ks_put bo io k i input options w =
     res_bind (bt_Put bo (ks_btree k) i) (\<lambda>(t, putResult).
       let it = ks_items k i; k1 = k\<lparr>ks_btree := t\<rparr> in
       case putResult of
         PutAccepted \<Rightarrow>
           (let (it', w') = (case it of None \<Rightarrow> ks_newItem io i input w | Some x \<Rightarrow> (x, w)) in
            res_bind (ks_applyOptions io (Some it') options) (\<lambda>p.
              Inr (k1\<lparr>ks_items := (ks_items k)(i := p)\<rparr>, w', putResult)))
       | PutAlreadyExists \<Rightarrow>
           res_bind (io_update io it input w) (\<lambda>(it', w').
             res_bind (ks_applyOptions io it' options) (\<lambda>p.
               Inr (k1\<lparr>ks_items := (ks_items k)(i := p)\<rparr>, w', putResult)))
       | PutRejected \<Rightarrow> Inr (k1, w, putResult))"

abbreviation makeslice_cap_out_of_range :: go_fault where
  "makeslice_cap_out_of_range \<equiv> Panic ''makeslice: cap out of range''"

definition ks_getRandom :: "('t, 'it) keyspace \<Rightarrow> ID list \<Rightarrow> int \<Rightarrow> 'it list res" where
  "ks_getRandom k order n =
     (let n' = (if n > int (ks_count k) then int (ks_count k) else n) in
      if n' < 0 then Inl makeslice_cap_out_of_range
      else Inr (take (nat n') (List.map_filter (ks_items k) order)))"

definition ErrDropReasonNotProvided :: string where
  "ErrDropReasonNotProvided = ''drop reason not provided''"

definition ks_drop ::
  "'t Btree_ops \<Rightarrow> ('w, 'inp, 'opt, 'it) item_ops \<Rightarrow> ('t, 'it) keyspace \<Rightarrow> ID \<Rightarrow> string option \<Rightarrow> 'w \<Rightarrow>
   (('t, 'it) keyspace \<times> 'w \<times> bool) res" where
  "ks_drop bo io k i reason w =
     (case ks_items k i of
        None \<Rightarrow> Inr (k, w, False)
      | Some it \<Rightarrow>
          (let reason' = (case reason of None \<Rightarrow> ErrDropReasonNotProvided | Some r \<Rightarrow> r);
               (it', w') = io_drop io reason' it w;
               k1 = k\<lparr>ks_items := (ks_items k)(i := None)\<rparr> in
           res_bind (bt_Drop bo (ks_btree k1) i) (\<lambda>(t, ok). Inr (k1\<lparr>ks_btree := t\<rparr>, w', ok))))"

text \<open>A missing item would be a nil pointer in the result, here \<open>None\<close>.\<close>

definition ks_getClosest :: "'t Btree_ops \<Rightarrow> ('t, 'it) keyspace \<Rightarrow> ID \<Rightarrow> 'it option list res" where
  "ks_getClosest bo k i =
     (case ks_items k i of
        Some it \<Rightarrow> Inr [Some it]
      | None \<Rightarrow>
          res_bind (bt_Closest bo (ks_btree k) i 8) (\<lambda>closestIDs.
            res_map (\<lambda>j. res_bind (MustNewIDFromByteSlice j) (\<lambda>j'. Inr (ks_items k j'))) closestIDs))"

section \<open>Contract of an item\<close>

text \<open>
  The identifier of an item is fixed when it is made, and updating an item that exists does not
  fault.
\<close>

locale item_contract =
  fixes io :: "('w, 'inp, 'opt, 'it) item_ops"
  assumes factory_ID: "io_ID io (fst (io_factory io i input w)) = i"
    and update_law: "\<exists>it' w'. io_update io (Some it) input w = Inr (Some it', w') \<and> io_ID io it' = io_ID io it"
    and apply_ID: "io_ID io (io_apply io opt it) = io_ID io it"
begin

lemma fold_apply_ID: "io_ID io (fold (io_apply io) options it) = io_ID io it"
  by (induction options arbitrary: it) (simp_all add: apply_ID)

end

section \<open>The items are those of the tree\<close>

definition ks_invar ::
  "('t \<Rightarrow> bool) \<Rightarrow> ('t \<Rightarrow> NodeID set) \<Rightarrow> ('t \<Rightarrow> NodeID) \<Rightarrow> ('it \<Rightarrow> ID) \<Rightarrow> ('t, 'it) keyspace \<Rightarrow> bool" where
  "ks_invar invar ids origin item_ID k \<longleftrightarrow>
     invar (ks_btree k) \<and> origin (ks_btree k) = ks_origin k \<and> wf_ID (ks_origin k) \<and>
     dom (ks_items k) = ids (ks_btree k) \<and> (\<forall>i it. ks_items k i = Some it \<longrightarrow> item_ID it = i)"

locale keyspace_client = btree_contract bo invar ids origin + item_contract io
  for bo :: "'t Btree_ops" and invar ids origin
    and io :: "('w, 'inp, 'opt, 'it) item_ops"
begin

abbreviation ok :: "('t, 'it) keyspace \<Rightarrow> bool" where
  "ok \<equiv> ks_invar invar ids origin (io_ID io)"

lemma ok_tree:
  assumes "ok k" "wf_ID i"
  shows "invar (ks_btree k)" "length i = length (origin (ks_btree k))"
  using assms by (simp_all add: ks_invar_def wf_ID_def)

lemma ok_finite: "ok k \<Longrightarrow> finite (dom (ks_items k))"
  using ids_finite by (simp add: ks_invar_def)

lemma ok_wf: "ok k \<Longrightarrow> ks_items k i = Some it \<Longrightarrow> wf_ID i"
  using ids_length [of "ks_btree k" i] by (auto simp: ks_invar_def wf_ID_def)

lemma put_outcome:
  assumes k: "ok k" and i: "wf_ID i"
  obtains (accepted) it w' t where "ks_items k i = None" "io_factory io i input w = (it, w')"
      "ks_put bo io k i input options w =
         Inr (k\<lparr>ks_btree := t, ks_items := (ks_items k)(i \<mapsto> fold (io_apply io) options it)\<rparr>, w', PutAccepted)"
      "ok (k\<lparr>ks_btree := t, ks_items := (ks_items k)(i \<mapsto> fold (io_apply io) options it)\<rparr>)"
  | (exists) it it' w' t where "ks_items k i = Some it" "io_update io (Some it) input w = Inr (Some it', w')"
      "ks_put bo io k i input options w =
         Inr (k\<lparr>ks_btree := t, ks_items := (ks_items k)(i \<mapsto> fold (io_apply io) options it')\<rparr>, w', PutAlreadyExists)"
      "ok (k\<lparr>ks_btree := t, ks_items := (ks_items k)(i \<mapsto> fold (io_apply io) options it')\<rparr>)"
  | (rejected) t where "ks_items k i = None"
      "ks_put bo io k i input options w = Inr (k\<lparr>ks_btree := t\<rparr>, w, PutRejected)" "ok (k\<lparr>ks_btree := t\<rparr>)"
proof -
  have dom: "dom (ks_items k) = ids (ks_btree k)" using k by (simp add: ks_invar_def)
  from ok_tree [OF k i] show thesis
  proof (cases rule: put_cases)
    case (accepted t)
    have none: "ks_items k i = None" using accepted(4) dom by (auto simp: dom_def)
    obtain it w' where fac: "io_factory io i input w = (it, w')" by fastforce
    show thesis
    proof (rule that(1) [OF none fac])
      show "ks_put bo io k i input options w =
         Inr (k\<lparr>ks_btree := t, ks_items := (ks_items k)(i \<mapsto> fold (io_apply io) options it)\<rparr>, w', PutAccepted)"
        using accepted(1) none fac by (simp add: ks_put_def ks_newItem_def ks_applyOptions_def)
      show "ok (k\<lparr>ks_btree := t, ks_items := (ks_items k)(i \<mapsto> fold (io_apply io) options it)\<rparr>)"
        using k accepted(2,3,5) dom fold_apply_ID factory_ID [of i input w] fac by (auto simp: ks_invar_def)
    qed
  next
    case (exists t)
    obtain it where it: "ks_items k i = Some it" using exists(4) dom by (auto simp: dom_def)
    obtain it' w' where upd: "io_update io (Some it) input w = Inr (Some it', w')" "io_ID io it' = io_ID io it"
      using update_law by blast
    have "io_ID io it = i" using k it by (simp add: ks_invar_def)
    show thesis
    proof (rule that(2) [OF it upd(1)])
      show "ks_put bo io k i input options w =
         Inr (k\<lparr>ks_btree := t, ks_items := (ks_items k)(i \<mapsto> fold (io_apply io) options it')\<rparr>, w', PutAlreadyExists)"
        using exists(1) it upd(1) by (simp add: ks_put_def ks_applyOptions_def)
      show "ok (k\<lparr>ks_btree := t, ks_items := (ks_items k)(i \<mapsto> fold (io_apply io) options it')\<rparr>)"
        using k exists(2-5) dom fold_apply_ID upd(2) \<open>io_ID io it = i\<close> by (auto simp: ks_invar_def)
    qed
  next
    case (rejected t)
    then show thesis using that(3) [of t] k dom by (auto simp: ks_put_def ks_invar_def dom_def)
  qed
qed

lemma drop_outcome:
  assumes k: "ok k" and i: "wf_ID i"
  obtains (missing) "ks_items k i = None" "ks_drop bo io k i reason w = Inr (k, w, False)"
  | (dropped) it t where "ks_items k i = Some it"
      "ks_drop bo io k i reason w = Inr (k\<lparr>ks_items := (ks_items k)(i := None), ks_btree := t\<rparr>,
         snd (io_drop io (case reason of None \<Rightarrow> ErrDropReasonNotProvided | Some r \<Rightarrow> r) it w), True)"
      "ok (k\<lparr>ks_items := (ks_items k)(i := None), ks_btree := t\<rparr>)"
proof (cases "ks_items k i")
  case None
  then show ?thesis using missing by (simp add: ks_drop_def)
next
  case (Some it)
  have dom: "dom (ks_items k) = ids (ks_btree k)" using k by (simp add: ks_invar_def)
  obtain t where t: "bt_Drop bo (ks_btree k) i = Inr (t, True)" "invar t" "origin t = origin (ks_btree k)"
    "ids t = ids (ks_btree k) - {i}"
    using drop_law [OF ok_tree [OF k i]] Some dom by (metis domI)
  show ?thesis
  proof (rule dropped [OF Some])
    show "ks_drop bo io k i reason w = Inr (k\<lparr>ks_items := (ks_items k)(i := None), ks_btree := t\<rparr>,
         snd (io_drop io (case reason of None \<Rightarrow> ErrDropReasonNotProvided | Some r \<Rightarrow> r) it w), True)"
      using Some t(1) by (simp add: ks_drop_def split_def)
    show "ok (k\<lparr>ks_items := (ks_items k)(i := None), ks_btree := t\<rparr>)"
      using k t dom by (auto simp: ks_invar_def)
  qed
qed

text \<open>No item of the answer is missing: the tree never names an identifier without an item.\<close>

lemma closest_outcome:
  assumes k: "ok k" and i: "wf_ID i"
  shows "\<exists>its. ks_getClosest bo k i = Inr (map Some its) \<and> distinct (map (io_ID io) its) \<and>
     (\<forall>it \<in> set its. ks_items k (io_ID io it) = Some it) \<and>
     (ks_items k i \<noteq> None \<longrightarrow> map (io_ID io) its = [i]) \<and>
     (ks_items k i = None \<longrightarrow> length its = min 8 (ks_count k) \<and>
        nearest_first i (dom (ks_items k)) (map (io_ID io) its))"
proof (cases "ks_items k i")
  case (Some it)
  then show ?thesis using k by (intro exI [of _ "[it]"]) (auto simp: ks_getClosest_def ks_invar_def)
next
  case None
  have dom: "dom (ks_items k) = ids (ks_btree k)" and idf: "\<And>j x. ks_items k j = Some x \<Longrightarrow> io_ID io x = j"
    and wfo: "wf_ID (ks_origin k)" and org: "origin (ks_btree k) = ks_origin k"
    using k by (auto simp: ks_invar_def)
  obtain r where r: "bt_Closest bo (ks_btree k) i 8 = Inr r" "set r \<subseteq> ids (ks_btree k)" "distinct r"
    "length r = min 8 (card (ids (ks_btree k)))" "nearest_first i (ids (ks_btree k)) r"
    using closest_law [OF ok_tree [OF k i], of 8] by auto
  define its where "its = map (\<lambda>j. the (ks_items k j)) r"
  have some: "ks_items k j = Some (the (ks_items k j))" "wf_ID j" if "j \<in> set r" for j
  proof -
    have mem: "j \<in> ids (ks_btree k)" using r(2) that by blast
    then have "j \<in> dom (ks_items k)" using dom by simp
    then show "ks_items k j = Some (the (ks_items k j))" by auto
    show "wf_ID j" using ids_length [OF ok_tree(1) [OF k i] mem] wfo org by (simp add: wf_ID_def)
  qed
  have ids: "map (io_ID io) its = r"
    unfolding its_def map_map by (rule map_idI) (use some(1) idf in fastforce)
  have "ks_getClosest bo k i = Inr (map (ks_items k) r)"
    using None r(1) some(2)
    by (auto simp: ks_getClosest_def MustNewIDFromByteSlice_wf intro!: res_map_total)
  also have "map (ks_items k) r = map Some its" using some(1) by (simp add: its_def)
  finally show ?thesis
    using None r ids dom some(1) idf
    by (intro exI [of _ its]) (auto simp: ks_count_def its_def)
qed

lemma getRandom_outcome:
  assumes "ok k" "map_order (ks_items k) order" "0 \<le> n"
  shows "\<exists>its. ks_getRandom k order n = Inr its \<and> length its = min (nat n) (ks_count k) \<and>
     distinct (map (io_ID io) its) \<and> (\<forall>it \<in> set its. ks_items k (io_ID io it) = Some it)"
proof -
  have ord: "set order = dom (ks_items k)" "distinct order" using assms(2) by (simp_all add: map_order_def)
  have idf: "\<And>j x. ks_items k j = Some x \<Longrightarrow> io_ID io x = j" using assms(1) by (auto simp: ks_invar_def)
  define its where "its = map (\<lambda>j. the (ks_items k j)) order"
  have some: "ks_items k j = Some (the (ks_items k j))" if "j \<in> set order" for j using that ord(1) by auto
  have mf: "List.map_filter (ks_items k) xs = map (\<lambda>j. the (ks_items k j)) xs" if "set xs \<subseteq> set order" for xs
    using that some by (induction xs) (auto simp: map_filter_simps split: option.splits)
  have ids: "map (io_ID io) its = order"
    unfolding its_def map_map by (rule map_idI) (use some idf in fastforce)
  have len: "length order = ks_count k" using ord by (simp add: ks_count_def flip: distinct_card)
  have mem: "\<forall>it \<in> set its. ks_items k (io_ID io it) = Some it" using some idf by (auto simp: its_def)
  have "ks_getRandom k order n = Inr (take (min (nat n) (length order)) its)"
    using assms(3) len by (auto simp: ks_getRandom_def mf its_def Let_def)
  moreover have "distinct (map (io_ID io) (take m its))" for m
    using ids ord(2) by (metis distinct_take take_map)
  moreover have "\<forall>it \<in> set (take m its). ks_items k (io_ID io it) = Some it" for m
    using mem by (meson in_set_takeD)
  moreover have "length its = ks_count k" using len by (simp add: its_def)
  ultimately show ?thesis using len by (auto simp del: set_take_subset)
qed

end

end
