(* ===== verification/KTable.thy ===== *)
theory KTable
  imports Keyspace NetIP
begin

text \<open>
  The routing table (\<open>src/internal/protocol/dht/ktable\<close>): the reverse map of addresses
  (\<open>reverse_map.go\<close>), the node and hash items (\<open>node.go\<close>, \<open>hash.go\<close>), the commands and queries
  (\<open>command.go\<close>, \<open>query.go\<close>) and the table that executes them under its lock (\<open>table.go\<close>,
  \<open>factory.go\<close>).  Every method holds the lock for its whole body, so a history of the table is a
  sequence of commands.

  The reverse map is keyed by the printed address in the source and by the address here, since
  \<open>netip.Addr.String\<close> gives different addresses different texts.  Each operation takes the time
  its clock readings return.  No type implements \<open>HashOption\<close>, so hashes have no options.
\<close>

section \<open>The reverse map (\<open>reverse_map.go\<close>)\<close>

record infoForAddr =
  ia_peerID :: ID
  ia_hashes :: "ID set"

type_synonym reverseMap = "addr \<rightharpoonup> infoForAddr"

definition addHashes :: "infoForAddr \<Rightarrow> ID list \<Rightarrow> infoForAddr" where
  "addHashes i hashes = i\<lparr>ia_hashes := ia_hashes i \<union> set hashes\<rparr>"

definition dropHashes :: "infoForAddr \<Rightarrow> ID list \<Rightarrow> infoForAddr" where
  "dropHashes i hashes = i\<lparr>ia_hashes := ia_hashes i - set hashes\<rparr>"

definition newInfoForAddr :: "ID \<Rightarrow> ID list \<Rightarrow> infoForAddr" where
  "newInfoForAddr peerID hashes = addHashes \<lparr>ia_peerID = peerID, ia_hashes = {}\<rparr> hashes"

definition putAddrPeerID :: "reverseMap \<Rightarrow> addr \<Rightarrow> ID \<Rightarrow> reverseMap" where
  "putAddrPeerID m a i =
     (case m a of
        Some info \<Rightarrow> m(a \<mapsto> info\<lparr>ia_peerID := i\<rparr>)
      | None \<Rightarrow> m(a \<mapsto> newInfoForAddr i []))"

definition putAddrHashes :: "reverseMap \<Rightarrow> addr \<Rightarrow> ID list \<Rightarrow> reverseMap" where
  "putAddrHashes m a hashes =
     (case m a of
        Some info \<Rightarrow> m(a \<mapsto> addHashes info hashes)
      | None \<Rightarrow> m(a \<mapsto> newInfoForAddr ID_zero hashes))"

definition getPeerIDForAddr :: "reverseMap \<Rightarrow> addr \<Rightarrow> ID option" where
  "getPeerIDForAddr m a =
     (case m a of
        Some info \<Rightarrow> if \<not> ID_IsZero (ia_peerID info) then Some (ia_peerID info) else None
      | None \<Rightarrow> None)"

definition dropAddr :: "reverseMap \<Rightarrow> addr \<Rightarrow> reverseMap \<times> bool" where
  "dropAddr m a = (case m a of Some info \<Rightarrow> (m(a := None), True) | None \<Rightarrow> (m, False))"

definition dropHashForAddrs :: "reverseMap \<Rightarrow> ID \<Rightarrow> addr list \<Rightarrow> reverseMap" where
  "dropHashForAddrs m h addrs =
     fold (\<lambda>a m. case m a of Some info \<Rightarrow> m(a \<mapsto> dropHashes info [h]) | None \<Rightarrow> m) addrs m"

definition reverseMap_len :: "reverseMap \<Rightarrow> nat" where
  "reverseMap_len m = card (dom m)"

section \<open>Nodes (\<open>node.go\<close>)\<close>

datatype protocolSupport = protocolSupportUnknown | protocolSupportYes | protocolSupportNo

record node =
  nd_id :: ID
  nd_addr :: addr_port
  nd_discoveredAt :: time
  nd_lastRespondedAt :: time
  nd_dropReason :: "string option"
  nd_bep51Support :: protocolSupport
  nd_sampledNum :: int
  nd_lastDiscoveredNum :: int
  nd_totalNum :: int
  nd_nextSampleInfoHashesTime :: time

text \<open>The node the factory of \<open>newTable\<close> makes: the fields it leaves out are zero.\<close>

definition new_node :: "time \<Rightarrow> ID \<Rightarrow> addr_port \<Rightarrow> reverseMap \<Rightarrow> node \<times> reverseMap" where
  "new_node now i a rm =
     (\<lparr>nd_id = i, nd_addr = a, nd_discoveredAt = now, nd_lastRespondedAt = 0, nd_dropReason = None,
       nd_bep51Support = protocolSupportUnknown, nd_sampledNum = 0, nd_lastDiscoveredNum = 0,
       nd_totalNum = 0, nd_nextSampleInfoHashesTime = 0\<rparr>, rm)"

datatype NodeOption =
    NodeResponded
  | NodeBep51Support bool
  | NodeSampleInfoHashesRes int int time

fun node_apply :: "time \<Rightarrow> NodeOption \<Rightarrow> node \<Rightarrow> node" where
  "node_apply now NodeResponded n = n\<lparr>nd_lastRespondedAt := now\<rparr>"
| "node_apply now (NodeBep51Support supported) n =
     n\<lparr>nd_bep51Support := (if supported then protocolSupportYes else protocolSupportNo)\<rparr>"
| "node_apply now (NodeSampleInfoHashesRes discoveredNum totalNum nextSampleTime) n =
     n\<lparr>nd_sampledNum := nd_sampledNum n + discoveredNum,
       nd_lastDiscoveredNum := discoveredNum,
       nd_totalNum := nd_totalNum n + totalNum,
       nd_nextSampleInfoHashesTime :=
         (if discoveredNum = 0
          then (if nextSampleTime < now then now else nextSampleTime) + 5 * Minute
          else nextSampleTime)\<rparr>"

fun node_update :: "node option \<Rightarrow> addr_port \<Rightarrow> reverseMap \<Rightarrow> (node option \<times> reverseMap) res" where
  "node_update None a rm = Inl nil_dereference"
| "node_update (Some n) a rm =
     (let rm1 = (if nd_addr n \<noteq> a then fst (dropAddr rm (ap_addr (nd_addr n))) else rm) in
      Inr (Some (n\<lparr>nd_addr := a\<rparr>), putAddrPeerID rm1 (ap_addr a) (nd_id n)))"

definition node_dropped :: "string \<Rightarrow> node \<Rightarrow> reverseMap \<Rightarrow> node \<times> reverseMap" where
  "node_dropped reason n rm = (n\<lparr>nd_dropReason := Some reason\<rparr>, fst (dropAddr rm (ap_addr (nd_addr n))))"

definition node_Dropped :: "node \<Rightarrow> bool" where
  "node_Dropped n \<longleftrightarrow> nd_dropReason n \<noteq> None"

definition node_Time :: "node \<Rightarrow> time" where
  "node_Time n = nd_lastRespondedAt n"

definition node_IsSampleInfoHashesCandidate :: "time \<Rightarrow> node \<Rightarrow> bool" where
  "node_IsSampleInfoHashesCandidate now n \<longleftrightarrow>
     (let threshold = now + - (5 * Second) in
      nd_bep51Support n \<noteq> protocolSupportNo \<and> nd_nextSampleInfoHashesTime n < now \<and>
      nd_lastRespondedAt n < threshold)"

definition node_olderThan :: "node \<Rightarrow> time \<Rightarrow> bool" where
  "node_olderThan n t \<longleftrightarrow> nd_lastRespondedAt n < t"

definition node_item_ops :: "time \<Rightarrow> (reverseMap, addr_port, NodeOption, node) item_ops" where
  "node_item_ops now = \<lparr>io_factory = new_node now, io_ID = nd_id, io_update = node_update,
     io_apply = node_apply now, io_drop = node_dropped\<rparr>"

section \<open>Hashes (\<open>hash.go\<close>)\<close>

record HashPeer =
  hp_Addr :: addr_port

record hash =
  hs_id :: ID
  hs_peers :: "addr \<rightharpoonup> HashPeer"
  hs_discoveredAt :: time
  hs_droppedReason :: "string option"

text \<open>The loop that registers peers, shared by the factory of \<open>newTable\<close> and \<open>update\<close>.\<close>

fun put_peers :: "ID \<Rightarrow> HashPeer list \<Rightarrow> (addr \<rightharpoonup> HashPeer) \<times> reverseMap \<Rightarrow> (addr \<rightharpoonup> HashPeer) \<times> reverseMap" where
  "put_peers i [] s = s"
| "put_peers i (p # ps) (peers, rm) =
     put_peers i ps (peers(ap_addr (hp_Addr p) \<mapsto> p), putAddrHashes rm (ap_addr (hp_Addr p)) [i])"

definition new_hash :: "time \<Rightarrow> ID \<Rightarrow> HashPeer list \<Rightarrow> reverseMap \<Rightarrow> hash \<times> reverseMap" where
  "new_hash now i ps rm =
     (let (peersMap, rm') = put_peers i ps (Map.empty, rm) in
      (\<lparr>hs_id = i, hs_peers = peersMap, hs_discoveredAt = now, hs_droppedReason = None\<rparr>, rm'))"

fun hash_update :: "hash option \<Rightarrow> HashPeer list \<Rightarrow> reverseMap \<Rightarrow> (hash option \<times> reverseMap) res" where
  "hash_update None ps rm = (if ps = [] then Inr (None, rm) else Inl nil_dereference)"
| "hash_update (Some h) ps rm =
     (let (peers', rm') = put_peers (hs_id h) ps (hs_peers h, rm) in Inr (Some (h\<lparr>hs_peers := peers'\<rparr>), rm'))"

text \<open>The loop of \<open>drop\<close> over the peers touches each address once, whatever the order.\<close>

definition hash_dropped :: "string \<Rightarrow> hash \<Rightarrow> reverseMap \<Rightarrow> hash \<times> reverseMap" where
  "hash_dropped reason h rm =
     (h\<lparr>hs_droppedReason := Some reason\<rparr>,
      \<lambda>a. if a \<in> (\<lambda>p. ap_addr (hp_Addr p)) ` ran (hs_peers h)
          then map_option (\<lambda>info. dropHashes info [hs_id h]) (rm a) else rm a)"

definition hash_hasPeers :: "hash \<Rightarrow> bool" where
  "hash_hasPeers h \<longleftrightarrow> card (dom (hs_peers h)) > 0"

definition hash_Peers :: "hash \<Rightarrow> addr list \<Rightarrow> HashPeer list" where
  "hash_Peers h order = List.map_filter (hs_peers h) order"

definition hash_Dropped :: "hash \<Rightarrow> bool" where
  "hash_Dropped h \<longleftrightarrow> hs_droppedReason h \<noteq> None"

definition hash_item_ops :: "time \<Rightarrow> (reverseMap, HashPeer list, unit, hash) item_ops" where
  "hash_item_ops now = \<lparr>io_factory = new_hash now, io_ID = hs_id, io_update = hash_update,
     io_apply = \<lambda>_ h. h, io_drop = hash_dropped\<rparr>"

section \<open>The table (\<open>factory.go\<close>, \<open>table.go\<close>)\<close>

definition nodesK :: int where "nodesK = 80"
definition hashesK :: int where "hashesK = 80"

type_synonym tree = "rootNode PrometheusCollector"

record table =
  tb_origin :: ID
  tb_nodesK :: int
  tb_hashesK :: int
  tb_nodes :: "(tree, node) keyspace"
  tb_hashes :: "(tree, hash) keyspace"
  tb_addrs :: reverseMap

definition tree_ops :: "tree Btree_ops" where
  "tree_ops = collector_ops rootNode_ops"

text \<open>Wrapping the tree of a keyspace in a collector changes the type of the tree.\<close>

definition patch_keyspace :: "(rootNode, 'it) keyspace \<Rightarrow> (tree, 'it) keyspace" where
  "patch_keyspace ks = \<lparr>ks_origin = ks_origin ks, ks_k = ks_k ks,
     ks_btree = patchPrometheusCollector (ks_btree ks), ks_items = ks_items ks\<rparr>"

definition newTable :: "ID \<Rightarrow> table" where
  "newTable nodeID = \<lparr>tb_origin = nodeID, tb_nodesK = nodesK, tb_hashesK = hashesK,
     tb_nodes = patch_keyspace (newKeyspace nodeID nodesK),
     tb_hashes = patch_keyspace (newKeyspace nodeID hashesK), tb_addrs = Map.empty\<rparr>"

section \<open>Commands (\<open>command.go\<close>)\<close>

datatype Command =
    PutNode ID addr_port "NodeOption list"
  | DropNode ID "string option"
  | DropAddr addr "string option"
  | PutHash ID "HashPeer list"

definition PutNode_exec :: "time \<Rightarrow> ID \<Rightarrow> addr_port \<Rightarrow> NodeOption list \<Rightarrow> table \<Rightarrow> (table \<times> PutResult) res" where
  "PutNode_exec now i a options t =
     (if \<not> addr_port_IsValid a then Inr (t, PutRejected)
      else res_bind (ks_put tree_ops (node_item_ops now) (tb_nodes t) i a options (tb_addrs t))
             (\<lambda>(ks, rm, r). Inr (t\<lparr>tb_nodes := ks, tb_addrs := rm\<rparr>, r)))"

definition DropNode_exec :: "time \<Rightarrow> ID \<Rightarrow> string option \<Rightarrow> table \<Rightarrow> (table \<times> bool) res" where
  "DropNode_exec now i reason t =
     res_bind (ks_drop tree_ops (node_item_ops now) (tb_nodes t) i reason (tb_addrs t))
       (\<lambda>(ks, rm, ok). Inr (t\<lparr>tb_nodes := ks, tb_addrs := rm\<rparr>, ok))"

definition DropAddr_exec :: "time \<Rightarrow> addr \<Rightarrow> string option \<Rightarrow> table \<Rightarrow> (table \<times> bool) res" where
  "DropAddr_exec now a reason t =
     (case getPeerIDForAddr (tb_addrs t) a of
        None \<Rightarrow> Inr (t, False)
      | Some i \<Rightarrow> DropNode_exec now i reason t)"

definition PutHash_exec :: "time \<Rightarrow> ID \<Rightarrow> HashPeer list \<Rightarrow> table \<Rightarrow> (table \<times> PutResult) res" where
  "PutHash_exec now i peers t =
     res_bind (ks_put tree_ops (hash_item_ops now) (tb_hashes t) i peers [] (tb_addrs t))
       (\<lambda>(ks, rm, r). Inr (t\<lparr>tb_hashes := ks, tb_addrs := rm\<rparr>, r))"

fun exec :: "time \<Rightarrow> Command \<Rightarrow> table \<Rightarrow> table res" where
  "exec now (PutNode i a options) t = res_bind (PutNode_exec now i a options t) (\<lambda>(t', _). Inr t')"
| "exec now (DropNode i reason) t = res_bind (DropNode_exec now i reason t) (\<lambda>(t', _). Inr t')"
| "exec now (DropAddr a reason) t = res_bind (DropAddr_exec now a reason t) (\<lambda>(t', _). Inr t')"
| "exec now (PutHash i peers) t = res_bind (PutHash_exec now i peers t) (\<lambda>(t', _). Inr t')"

fun BatchCommand :: "time \<Rightarrow> Command list \<Rightarrow> table \<Rightarrow> table res" where
  "BatchCommand now [] t = Inr t"
| "BatchCommand now (c # cs) t = res_bind (exec now c t) (BatchCommand now cs)"

section \<open>Queries (\<open>query.go\<close>, \<open>node.go\<close>, \<open>table.go\<close>)\<close>

definition GetClosestPeers :: "ID \<Rightarrow> table \<Rightarrow> node option list res" where
  "GetClosestPeers i t = ks_getClosest tree_ops (tb_nodes t) i"

definition getLastRespondedBefore :: "(tree, node) keyspace \<Rightarrow> ID list \<Rightarrow> time \<Rightarrow> node list" where
  "getLastRespondedBefore k order t =
     filter (\<lambda>n. nd_lastRespondedAt n < t) (List.map_filter (ks_items k) order)"

text \<open>
  \<open>sort.Slice\<close> leaves the order of equal elements open; so does the iteration order, of which
  the stable sort keeps the order of equal elements.
\<close>

definition GetOldestPeers :: "time \<Rightarrow> int \<Rightarrow> ID list \<Rightarrow> table \<Rightarrow> node list" where
  "GetOldestPeers cutoff N order t =
     (let peers = sort_key node_Time (getLastRespondedBefore (tb_nodes t) order cutoff) in
      if N > 0 \<and> int (length peers) > N then take (nat N) peers else peers)"

definition FilterKnownAddrs :: "addr list \<Rightarrow> table \<Rightarrow> addr list" where
  "FilterKnownAddrs addrs t = filter (\<lambda>a. tb_addrs t a = None) addrs"

text \<open>The scan stops at the \<open>n\<close>-th candidate; it never stops early when \<open>n\<close> is zero.\<close>

fun candidates_loop :: "time \<Rightarrow> int \<Rightarrow> node list \<Rightarrow> node list \<Rightarrow> node list" where
  "candidates_loop now n candidates [] = candidates"
| "candidates_loop now n candidates (it # its) =
     (if \<not> node_IsSampleInfoHashesCandidate now it then candidates_loop now n candidates its
      else let candidates' = candidates @ [it] in
        if int (length candidates') = n then candidates' else candidates_loop now n candidates' its)"

definition getCandidatesForSampleInfoHashes :: "time \<Rightarrow> (tree, node) keyspace \<Rightarrow> ID list \<Rightarrow> int \<Rightarrow> node list" where
  "getCandidatesForSampleInfoHashes now k order n =
     candidates_loop now n [] (List.map_filter (ks_items k) order)"

fun take_until :: "int \<Rightarrow> node list \<Rightarrow> node list \<Rightarrow> node list" where
  "take_until N peers [] = peers"
| "take_until N peers (p # ps) =
     (let peers' = peers @ [p] in if int (length peers') \<ge> N then peers' else take_until N peers' ps)"

definition GetNodesForSampleInfoHashes :: "time \<Rightarrow> int \<Rightarrow> ID list \<Rightarrow> table \<Rightarrow> node list res" where
  "GetNodesForSampleInfoHashes now N order t =
     (if N < 0 then Inl makeslice_cap_out_of_range
      else Inr (take_until N [] (getCandidatesForSampleInfoHashes now (tb_nodes t) order N)))"

record GetHashOrClosestNodesResult =
  gh_Hash :: "hash option"
  gh_ClosestNodes :: "node option list"
  gh_Found :: bool

definition GetHashOrClosestNodes :: "ID \<Rightarrow> table \<Rightarrow> GetHashOrClosestNodesResult res" where
  "GetHashOrClosestNodes i t =
     (case ks_get (tb_hashes t) i of
        Some h \<Rightarrow> Inr \<lparr>gh_Hash = Some h, gh_ClosestNodes = [], gh_Found = True\<rparr>
      | None \<Rightarrow> res_bind (ks_getClosest tree_ops (tb_nodes t) i)
          (\<lambda>closestNodes. Inr \<lparr>gh_Hash = None, gh_ClosestNodes = closestNodes, gh_Found = False\<rparr>))"

record SampleHashesAndNodesResult =
  sr_Hashes :: "hash list"
  sr_Nodes :: "node list"
  sr_TotalHashes :: nat

definition SampleHashesAndNodes :: "ID list \<Rightarrow> ID list \<Rightarrow> table \<Rightarrow> SampleHashesAndNodesResult res" where
  "SampleHashesAndNodes hash_order node_order t =
     (let nHashes = 20 in
      res_bind (ks_getRandom (tb_hashes t) hash_order nHashes) (\<lambda>hashes.
        let nNodes = 20 + (nHashes - int (length hashes)) in
        res_bind (ks_getRandom (tb_nodes t) node_order nNodes) (\<lambda>nodes.
          Inr \<lparr>sr_Hashes = hashes, sr_Nodes = nodes, sr_TotalHashes = ks_count (tb_hashes t)\<rparr>)))"

definition SnapshotNodeAddrs :: "int \<Rightarrow> ID list \<Rightarrow> table \<Rightarrow> addr_port list res" where
  "SnapshotNodeAddrs limit order t =
     (if limit \<le> 0 then Inr []
      else res_bind (ks_getRandom (tb_nodes t) order limit)
        (\<lambda>nodes. Inr (filter addr_port_IsValid (map nd_addr nodes))))"

section \<open>The keyspaces of the table keep their contracts\<close>

abbreviation tree_invar :: "tree \<Rightarrow> bool" where
  "tree_invar \<equiv> collector_invar wf_root root_ids"

abbreviation tree_ids :: "tree \<Rightarrow> NodeID set" where
  "tree_ids p \<equiv> root_ids (pc_Btree p)"

abbreviation tree_origin :: "tree \<Rightarrow> NodeID" where
  "tree_origin p \<equiv> rn_origin (pc_Btree p)"

abbreviation nodes_ok :: "(tree, node) keyspace \<Rightarrow> bool" where
  "nodes_ok \<equiv> ks_invar tree_invar tree_ids tree_origin nd_id"

abbreviation hashes_ok :: "(tree, hash) keyspace \<Rightarrow> bool" where
  "hashes_ok \<equiv> ks_invar tree_invar tree_ids tree_origin hs_id"

lemma node_apply_keeps:
  "nd_id (node_apply now opt n) = nd_id n" "nd_addr (node_apply now opt n) = nd_addr n"
  "nd_dropReason (node_apply now opt n) = nd_dropReason n"
  by (cases opt; simp)+

lemma fold_node_apply_keeps [simp]:
  "nd_id (fold (node_apply now) opts n) = nd_id n" "nd_addr (fold (node_apply now) opts n) = nd_addr n"
  "nd_dropReason (fold (node_apply now) opts n) = nd_dropReason n"
  by (induction opts arbitrary: n) (simp_all add: node_apply_keeps)

lemma node_item_ops_simps [simp]:
  "io_ID (node_item_ops now) = nd_id" "io_factory (node_item_ops now) = new_node now"
  "io_update (node_item_ops now) = node_update" "io_apply (node_item_ops now) = node_apply now"
  "io_drop (node_item_ops now) = node_dropped"
  by (simp_all add: node_item_ops_def)

lemma hash_item_ops_simps [simp]:
  "io_ID (hash_item_ops now) = hs_id" "io_factory (hash_item_ops now) = new_hash now"
  "io_update (hash_item_ops now) = hash_update" "io_apply (hash_item_ops now) = (\<lambda>_ h. h)"
  "io_drop (hash_item_ops now) = hash_dropped"
  by (simp_all add: hash_item_ops_def)

interpretation node_items: item_contract "node_item_ops now" for now
  by unfold_locales (simp_all add: new_node_def node_apply_keeps Let_def)

interpretation hash_items: item_contract "hash_item_ops now" for now
  by unfold_locales (simp_all add: new_hash_def split_def Let_def)

lemma tree_contract: "btree_contract tree_ops tree_invar tree_ids tree_origin"
  unfolding tree_ops_def by (rule collected_tree.btree_contract_axioms)

interpretation node_ks: keyspace_client tree_ops tree_invar tree_ids tree_origin "node_item_ops now" for now
  by (rule keyspace_client.intro [OF tree_contract node_items.item_contract_axioms])

interpretation hash_ks: keyspace_client tree_ops tree_invar tree_ids tree_origin "hash_item_ops now" for now
  by (rule keyspace_client.intro [OF tree_contract hash_items.item_contract_axioms])

section \<open>Consistency of the table\<close>

text \<open>
  An address that names a peer names a node of the table at that address, and an address that
  names a hash is one of the hash's peers.
\<close>

definition rm_nodes_ok :: "reverseMap \<Rightarrow> (ID \<rightharpoonup> node) \<Rightarrow> bool" where
  "rm_nodes_ok rm ns \<longleftrightarrow> (\<forall>a i. getPeerIDForAddr rm a = Some i \<longrightarrow>
     (\<exists>n. ns i = Some n \<and> ap_addr (nd_addr n) = a))"

definition rm_hashes_ok :: "reverseMap \<Rightarrow> (ID \<rightharpoonup> hash) \<Rightarrow> bool" where
  "rm_hashes_ok rm hs \<longleftrightarrow> (\<forall>a info h. rm a = Some info \<longrightarrow> h \<in> ia_hashes info \<longrightarrow>
     (\<exists>x. hs h = Some x \<and> a \<in> dom (hs_peers x)))"

definition live_nodes :: "(ID \<rightharpoonup> node) \<Rightarrow> bool" where
  "live_nodes ns \<longleftrightarrow> (\<forall>n \<in> ran ns. addr_port_IsValid (nd_addr n) \<and> \<not> node_Dropped n)"

definition keyed :: "(addr \<rightharpoonup> HashPeer) \<Rightarrow> bool" where
  "keyed peers \<longleftrightarrow> (\<forall>a p. peers a = Some p \<longrightarrow> ap_addr (hp_Addr p) = a)"

definition live_hashes :: "(ID \<rightharpoonup> hash) \<Rightarrow> bool" where
  "live_hashes hs \<longleftrightarrow> (\<forall>h \<in> ran hs. \<not> hash_Dropped h \<and> keyed (hs_peers h))"

definition table_ok :: "table \<Rightarrow> bool" where
  "table_ok t \<longleftrightarrow> nodes_ok (tb_nodes t) \<and> hashes_ok (tb_hashes t) \<and>
     ks_origin (tb_nodes t) = tb_origin t \<and> ks_origin (tb_hashes t) = tb_origin t \<and>
     rm_nodes_ok (tb_addrs t) (ks_items (tb_nodes t)) \<and> rm_hashes_ok (tb_addrs t) (ks_items (tb_hashes t)) \<and>
     live_nodes (ks_items (tb_nodes t)) \<and> live_hashes (ks_items (tb_hashes t))"

subsection \<open>The reverse map\<close>

lemma fst_dropAddr [simp]: "fst (dropAddr rm a) = rm(a := None)"
  by (auto simp: dropAddr_def split: option.splits)

lemma getPeerID_drop [simp]:
  "getPeerIDForAddr (rm(a := None)) b = (if b = a then None else getPeerIDForAddr rm b)"
  by (simp add: getPeerIDForAddr_def)

lemma getPeerID_put [simp]:
  "getPeerIDForAddr (putAddrPeerID rm a i) b =
     (if b = a then (if ID_IsZero i then None else Some i) else getPeerIDForAddr rm b)"
  by (auto simp: getPeerIDForAddr_def putAddrPeerID_def newInfoForAddr_def addHashes_def split: option.splits)

lemma getPeerID_putHashes [simp]: "getPeerIDForAddr (putAddrHashes rm a hs) = getPeerIDForAddr rm"
  by (rule ext) (auto simp: getPeerIDForAddr_def putAddrHashes_def newInfoForAddr_def addHashes_def
      ID_IsZero_def ID_zero_def split: option.splits)

definition hashes_at :: "reverseMap \<Rightarrow> addr \<Rightarrow> ID set" where
  "hashes_at rm a = (case rm a of None \<Rightarrow> {} | Some info \<Rightarrow> ia_hashes info)"

lemma rm_hashes_ok_iff:
  "rm_hashes_ok rm hs \<longleftrightarrow> (\<forall>a. \<forall>h \<in> hashes_at rm a. \<exists>x. hs h = Some x \<and> a \<in> dom (hs_peers x))"
  by (fastforce simp: rm_hashes_ok_def hashes_at_def split: option.splits)

lemma hashes_at_simps [simp]:
  "hashes_at (rm(a := None)) b = (if b = a then {} else hashes_at rm b)"
  "hashes_at (putAddrPeerID rm a i) b = hashes_at rm b"
  "hashes_at (putAddrHashes rm a hs) b = hashes_at rm b \<union> (if b = a then set hs else {})"
  by (auto simp: hashes_at_def putAddrPeerID_def putAddrHashes_def newInfoForAddr_def addHashes_def
      split: option.splits)

lemma put_peers_Cons:
  "put_peers i (p # ps) s =
     put_peers i ps ((fst s)(ap_addr (hp_Addr p) \<mapsto> p), putAddrHashes (snd s) (ap_addr (hp_Addr p)) [i])"
  by (cases s) simp

declare put_peers.simps(2) [simp del]

lemma put_peers_peerID: "getPeerIDForAddr (snd (put_peers i ps s)) = getPeerIDForAddr (snd s)"
  by (induction ps arbitrary: s) (simp_all add: put_peers_Cons)

lemma put_peers_hashes:
  "hashes_at (snd (put_peers i ps s)) a =
     hashes_at (snd s) a \<union> (if a \<in> (\<lambda>p. ap_addr (hp_Addr p)) ` set ps then {i} else {})"
  by (induction ps arbitrary: s) (simp_all add: put_peers_Cons)

lemma put_peers_dom:
  "dom (fst (put_peers i ps s)) = dom (fst s) \<union> (\<lambda>p. ap_addr (hp_Addr p)) ` set ps"
  by (induction ps arbitrary: s) (simp_all add: put_peers_Cons)

lemma keyed_simps [simp]: "keyed Map.empty" "keyed m \<Longrightarrow> keyed (m(ap_addr (hp_Addr p) \<mapsto> p))"
  by (simp_all add: keyed_def)

lemma put_peers_keyed: "keyed (fst s) \<Longrightarrow> keyed (fst (put_peers i ps s))"
  by (induction ps arbitrary: s) (simp_all add: put_peers_Cons)

subsection \<open>Every command keeps the table consistent\<close>

lemma live_nodes_upd:
  "live_nodes ns \<Longrightarrow> addr_port_IsValid (nd_addr n) \<Longrightarrow> \<not> node_Dropped n \<Longrightarrow> live_nodes (ns(i \<mapsto> n))"
  by (auto simp: live_nodes_def ran_def split: if_splits)

lemma live_nodes_del: "live_nodes ns \<Longrightarrow> live_nodes (ns(i := None))"
  by (auto simp: live_nodes_def ran_def split: if_splits)

lemma live_nodesD: "live_nodes ns \<Longrightarrow> ns i = Some n \<Longrightarrow> addr_port_IsValid (nd_addr n) \<and> \<not> node_Dropped n"
  by (auto simp: live_nodes_def ran_def)

lemma rm_nodes_okD: "rm_nodes_ok rm ns \<Longrightarrow> getPeerIDForAddr rm a = Some i \<Longrightarrow> \<exists>n. ns i = Some n \<and> ap_addr (nd_addr n) = a"
  by (simp add: rm_nodes_ok_def)

lemma rm_nodes_ok_new:
  assumes "rm_nodes_ok rm ns" "ns i = None"
  shows "rm_nodes_ok rm (ns(i \<mapsto> n))"
  unfolding rm_nodes_ok_def
proof (intro allI impI)
  fix a j
  assume "getPeerIDForAddr rm a = Some j"
  then obtain m where "ns j = Some m" "ap_addr (nd_addr m) = a" using rm_nodes_okD [OF assms(1)] by blast
  then show "\<exists>m. (ns(i \<mapsto> n)) j = Some m \<and> ap_addr (nd_addr m) = a" using assms(2) by auto
qed

lemma rm_nodes_ok_drop:
  assumes "rm_nodes_ok rm ns" "ns i = Some n"
  shows "rm_nodes_ok (rm(ap_addr (nd_addr n) := None)) (ns(i := None))"
  unfolding rm_nodes_ok_def
proof (intro allI impI)
  fix a j
  assume "getPeerIDForAddr (rm(ap_addr (nd_addr n) := None)) a = Some j"
  then have j: "getPeerIDForAddr rm a = Some j" "a \<noteq> ap_addr (nd_addr n)" by (auto split: if_splits)
  then obtain m where "ns j = Some m" "ap_addr (nd_addr m) = a" using rm_nodes_okD [OF assms(1)] by blast
  then show "\<exists>m. (ns(i := None)) j = Some m \<and> ap_addr (nd_addr m) = a" using assms(2) j(2) by auto
qed

lemma rm_nodes_ok_update:
  assumes ok: "rm_nodes_ok rm ns" and n: "ns i = Some n" and a: "nd_addr n' = a"
  shows "rm_nodes_ok (putAddrPeerID (if nd_addr n \<noteq> a then rm(ap_addr (nd_addr n) := None) else rm) (ap_addr a) i)
           (ns(i \<mapsto> n'))"
  unfolding rm_nodes_ok_def
proof (intro allI impI)
  fix b j
  assume j: "getPeerIDForAddr (putAddrPeerID (if nd_addr n \<noteq> a then rm(ap_addr (nd_addr n) := None) else rm) (ap_addr a) i) b = Some j"
  show "\<exists>m. (ns(i \<mapsto> n')) j = Some m \<and> ap_addr (nd_addr m) = b"
  proof (cases "b = ap_addr a")
    case True
    then show ?thesis using j a by (simp split: if_splits)
  next
    case False
    then have *: "getPeerIDForAddr rm b = Some j" "nd_addr n \<noteq> a \<longrightarrow> b \<noteq> ap_addr (nd_addr n)"
      using j by (auto split: if_splits)
    obtain m where m: "ns j = Some m" "ap_addr (nd_addr m) = b" using rm_nodes_okD [OF ok *(1)] by blast
    then have "j \<noteq> i" using n False *(2) by auto
    then show ?thesis using m by simp
  qed
qed

lemma rm_hashes_ok_put:
  assumes ok: "rm_hashes_ok (snd s) hs" and sub: "\<forall>x. hs i = Some x \<longrightarrow> dom (hs_peers x) \<subseteq> dom (fst s)"
    and h: "hs_peers h = fst (put_peers i ps s)"
  shows "rm_hashes_ok (snd (put_peers i ps s)) (hs(i \<mapsto> h))"
  unfolding rm_hashes_ok_iff
proof (intro allI ballI)
  fix a j
  assume "j \<in> hashes_at (snd (put_peers i ps s)) a"
  then consider "j \<in> hashes_at (snd s) a" | "j = i" "a \<in> (\<lambda>p. ap_addr (hp_Addr p)) ` set ps"
    unfolding put_peers_hashes by (auto split: if_splits)
  then show "\<exists>x. (hs(i \<mapsto> h)) j = Some x \<and> a \<in> dom (hs_peers x)"
  proof cases
    case 1
    then obtain x where x: "hs j = Some x" "a \<in> dom (hs_peers x)" using ok unfolding rm_hashes_ok_iff by blast
    show ?thesis
    proof (cases "j = i")
      case True
      then have "a \<in> dom (fst s)" using x sub by auto
      then have "a \<in> dom (hs_peers h)" unfolding h put_peers_dom by blast
      then show ?thesis using True by simp
    qed (use x in simp)
  next
    case 2
    then have "a \<in> dom (fst (put_peers i ps s))" unfolding put_peers_dom by blast
    then show ?thesis using 2(1) h by auto
  qed
qed

lemma rm_hashes_ok_less: "rm_hashes_ok rm hs \<Longrightarrow> (\<And>a. hashes_at rm' a \<subseteq> hashes_at rm a) \<Longrightarrow> rm_hashes_ok rm' hs"
  unfolding rm_hashes_ok_iff by blast

lemma table_okD:
  assumes "table_ok t"
  shows "nodes_ok (tb_nodes t)" "hashes_ok (tb_hashes t)"
    "rm_nodes_ok (tb_addrs t) (ks_items (tb_nodes t))" "rm_hashes_ok (tb_addrs t) (ks_items (tb_hashes t))"
    "live_nodes (ks_items (tb_nodes t))" "live_hashes (ks_items (tb_hashes t))"
    "ks_origin (tb_nodes t) = tb_origin t" "ks_origin (tb_hashes t) = tb_origin t"
  using assms by (simp_all add: table_ok_def)

lemma PutNode_outcome:
  assumes ok: "table_ok t" and i: "wf_ID i"
  obtains (invalid) "\<not> addr_port_IsValid a" "PutNode_exec now i a opts t = Inr (t, PutRejected)"
  | (accepted) k where "addr_port_IsValid a" "ks_items (tb_nodes t) i = None"
      "PutNode_exec now i a opts t = Inr (t\<lparr>tb_nodes := k\<rparr>, PutAccepted)" "table_ok (t\<lparr>tb_nodes := k\<rparr>)"
      "ks_items k = (ks_items (tb_nodes t))(i \<mapsto> fold (node_apply now) opts (fst (new_node now i a (tb_addrs t))))"
  | (exists) n k rm where "addr_port_IsValid a" "ks_items (tb_nodes t) i = Some n"
      "PutNode_exec now i a opts t = Inr (t\<lparr>tb_nodes := k, tb_addrs := rm\<rparr>, PutAlreadyExists)"
      "table_ok (t\<lparr>tb_nodes := k, tb_addrs := rm\<rparr>)"
      "ks_items k = (ks_items (tb_nodes t))(i \<mapsto> fold (node_apply now) opts (n\<lparr>nd_addr := a\<rparr>))"
      "rm = putAddrPeerID (if nd_addr n \<noteq> a then (tb_addrs t)(ap_addr (nd_addr n) := None) else tb_addrs t) (ap_addr a) i"
  | (rejected) k where "addr_port_IsValid a" "ks_items (tb_nodes t) i = None"
      "PutNode_exec now i a opts t = Inr (t\<lparr>tb_nodes := k\<rparr>, PutRejected)" "table_ok (t\<lparr>tb_nodes := k\<rparr>)"
      "ks_items k = ks_items (tb_nodes t)"
proof (cases "addr_port_IsValid a")
  case False
  then show ?thesis using invalid by (simp add: PutNode_exec_def)
next
  case valid: True
  let ?k = "tb_nodes t" and ?rm = "tb_addrs t"
  note ok' = table_okD [OF ok]
  have nok: "ks_invar tree_invar tree_ids tree_origin (io_ID (node_item_ops now)) ?k" using ok'(1) by simp
  from nok i show ?thesis
  proof (cases rule: node_ks.put_outcome [where input = a and options = opts and w = ?rm and now = now])
    case (accepted n rm tr)
    let ?n = "fold (node_apply now) opts n"
    let ?k' = "?k\<lparr>ks_btree := tr, ks_items := (ks_items ?k)(i \<mapsto> ?n)\<rparr>"
    have n: "n = fst (new_node now i a ?rm)" "rm = ?rm" using accepted(2) by (simp_all add: new_node_def)
    then have na: "nd_addr n = a" "nd_dropReason n = None" by (simp_all add: new_node_def)
    have "table_ok (t\<lparr>tb_nodes := ?k'\<rparr>)"
      using ok' accepted(1,4) valid na rm_nodes_ok_new [OF ok'(3) accepted(1)]
        live_nodes_upd [OF ok'(5), of ?n i] by (simp add: table_ok_def node_Dropped_def)
    then show ?thesis
      using that(2) [of ?k'] valid accepted(1,3) n by (simp add: PutNode_exec_def)
  next
    case (exists n n' rm tr)
    let ?n = "fold (node_apply now) opts n'"
    let ?k' = "?k\<lparr>ks_btree := tr, ks_items := (ks_items ?k)(i \<mapsto> ?n)\<rparr>"
    have n: "n' = n\<lparr>nd_addr := a\<rparr>"
      "rm = putAddrPeerID (if nd_addr n \<noteq> a then ?rm(ap_addr (nd_addr n) := None) else ?rm) (ap_addr a) (nd_id n)"
      using exists(2) by (auto simp: Let_def split: if_splits)
    have ni: "nd_id n = i" using ok'(1) exists(1) by (simp add: ks_invar_def)
    have "rm_nodes_ok rm ((ks_items ?k)(i \<mapsto> ?n))"
      unfolding n(2) ni using n(1) by (intro rm_nodes_ok_update ok'(3) exists(1)) simp
    moreover have "rm_hashes_ok rm (ks_items (tb_hashes t))"
      by (rule rm_hashes_ok_less [OF ok'(4)]) (auto simp: n(2))
    moreover have "live_nodes ((ks_items ?k)(i \<mapsto> ?n))"
      using live_nodesD [OF ok'(5) exists(1)] valid n(1)
      by (intro live_nodes_upd ok'(5)) (simp_all add: node_Dropped_def)
    ultimately have "table_ok (t\<lparr>tb_nodes := ?k', tb_addrs := rm\<rparr>)"
      using ok' exists(4) by (simp add: table_ok_def)
    then show ?thesis
      using that(3) [of n rm ?k'] valid exists(1,3) n ni by (simp add: PutNode_exec_def)
  next
    case (rejected tr)
    then show ?thesis
      using that(4) [of "?k\<lparr>ks_btree := tr\<rparr>"] valid ok' by (simp add: PutNode_exec_def table_ok_def)
  qed
qed

lemma DropNode_outcome:
  assumes ok: "table_ok t" and i: "wf_ID i"
  obtains (missing) "ks_items (tb_nodes t) i = None" "DropNode_exec now i reason t = Inr (t, False)"
  | (dropped) n k where "ks_items (tb_nodes t) i = Some n"
      "DropNode_exec now i reason t =
         Inr (t\<lparr>tb_nodes := k, tb_addrs := (tb_addrs t)(ap_addr (nd_addr n) := None)\<rparr>, True)"
      "table_ok (t\<lparr>tb_nodes := k, tb_addrs := (tb_addrs t)(ap_addr (nd_addr n) := None)\<rparr>)"
      "ks_items k = (ks_items (tb_nodes t))(i := None)"
proof -
  let ?k = "tb_nodes t" and ?rm = "tb_addrs t"
  note ok' = table_okD [OF ok]
  have nok: "ks_invar tree_invar tree_ids tree_origin (io_ID (node_item_ops now)) ?k" using ok'(1) by simp
  from nok i show thesis
  proof (cases rule: node_ks.drop_outcome [where reason = reason and w = ?rm and now = now])
    case missing
    then show ?thesis using that(1) by (simp add: DropNode_exec_def)
  next
    case (dropped n tr)
    let ?k' = "?k\<lparr>ks_items := (ks_items ?k)(i := None), ks_btree := tr\<rparr>"
    let ?rm' = "?rm(ap_addr (nd_addr n) := None)"
    have "rm_hashes_ok ?rm' (ks_items (tb_hashes t))"
      by (rule rm_hashes_ok_less [OF ok'(4)]) simp
    then have "table_ok (t\<lparr>tb_nodes := ?k', tb_addrs := ?rm'\<rparr>)"
      using ok' dropped(3) rm_nodes_ok_drop [OF ok'(3) dropped(1)] live_nodes_del [OF ok'(5)]
      by (simp add: table_ok_def)
    then show ?thesis
      using that(2) [of n ?k'] dropped(1,2) by (simp add: DropNode_exec_def node_dropped_def)
  qed
qed

lemma PutHash_outcome:
  assumes ok: "table_ok t" and i: "wf_ID i"
  obtains (stored) h k rm r where "PutHash_exec now i ps t = Inr (t\<lparr>tb_hashes := k, tb_addrs := rm\<rparr>, r)"
      "r = (if ks_items (tb_hashes t) i = None then PutAccepted else PutAlreadyExists)"
      "table_ok (t\<lparr>tb_hashes := k, tb_addrs := rm\<rparr>)"
      "ks_items k = (ks_items (tb_hashes t))(i \<mapsto> h)" "hs_id h = i"
      "(hs_peers h, rm) = put_peers i ps
         (case ks_items (tb_hashes t) i of None \<Rightarrow> Map.empty | Some h' \<Rightarrow> hs_peers h', tb_addrs t)"
  | (rejected) k where "ks_items (tb_hashes t) i = None"
      "PutHash_exec now i ps t = Inr (t\<lparr>tb_hashes := k\<rparr>, PutRejected)" "table_ok (t\<lparr>tb_hashes := k\<rparr>)"
      "ks_items k = ks_items (tb_hashes t)"
proof -
  let ?k = "tb_hashes t" and ?rm = "tb_addrs t"
  note ok' = table_okD [OF ok]
  have hok: "ks_invar tree_invar tree_ids tree_origin (io_ID (hash_item_ops now)) ?k" using ok'(2) by simp
  have live: "live_hashes ((ks_items ?k)(i \<mapsto> h))" if "hs_droppedReason h = None" "keyed (hs_peers h)" for h
    using ok'(6) that by (auto simp: live_hashes_def hash_Dropped_def ran_def split: if_splits)
  have table: "table_ok (t\<lparr>tb_hashes := k, tb_addrs := snd (put_peers i ps s)\<rparr>)"
    if "hashes_ok k" "ks_items k = (ks_items ?k)(i \<mapsto> h)" "ks_origin k = ks_origin ?k" "snd s = ?rm"
      "hs_peers h = fst (put_peers i ps s)" "hs_droppedReason h = None" "keyed (fst s)"
      "\<forall>x. ks_items ?k i = Some x \<longrightarrow> dom (hs_peers x) \<subseteq> dom (fst s)" for k h s
  proof -
    have "rm_hashes_ok (snd (put_peers i ps s)) ((ks_items ?k)(i \<mapsto> h))"
      by (rule rm_hashes_ok_put) (use ok'(4) that in simp_all)
    moreover have "rm_nodes_ok (snd (put_peers i ps s)) (ks_items (tb_nodes t))"
      using ok'(3) that(4) by (simp add: rm_nodes_ok_def put_peers_peerID)
    ultimately show ?thesis
      using ok' that live [of h] by (simp add: table_ok_def put_peers_keyed)
  qed
  from hok i show thesis
  proof (cases rule: hash_ks.put_outcome [where input = ps and options = "[]" and w = ?rm and now = now])
    case (accepted h rm tr)
    let ?k' = "?k\<lparr>ks_btree := tr, ks_items := (ks_items ?k)(i \<mapsto> h)\<rparr>"
    have h: "hs_peers h = fst (put_peers i ps (Map.empty, ?rm))" "rm = snd (put_peers i ps (Map.empty, ?rm))"
      "hs_droppedReason h = None" "hs_id h = i"
      using accepted(2) by (auto simp: new_hash_def split_def Let_def)
    have "table_ok (t\<lparr>tb_hashes := ?k', tb_addrs := rm\<rparr>)"
      unfolding h(2) by (rule table [where h = h]) (use accepted(1,4) h in simp_all)
    then show ?thesis
      using that(1) [of rm ?k' PutAccepted h] accepted(1,3) h by (simp add: PutHash_exec_def)
  next
    case (exists h h' rm tr)
    let ?k' = "?k\<lparr>ks_btree := tr, ks_items := (ks_items ?k)(i \<mapsto> h')\<rparr>"
    have hi: "hs_id h = i" using ok'(2) exists(1) by (simp add: ks_invar_def)
    have lh: "hs_droppedReason h = None" "keyed (hs_peers h)"
      using ok'(6) exists(1) by (auto simp: live_hashes_def hash_Dropped_def ran_def)
    have h: "h' = h\<lparr>hs_peers := fst (put_peers i ps (hs_peers h, ?rm))\<rparr>" "rm = snd (put_peers i ps (hs_peers h, ?rm))"
      using exists(2) hi by (auto simp: split_def Let_def)
    have "table_ok (t\<lparr>tb_hashes := ?k', tb_addrs := rm\<rparr>)"
      unfolding h(2) by (rule table [where h = h']) (use exists(1,4) h lh in simp_all)
    then show ?thesis
      using that(1) [of rm ?k' PutAlreadyExists h'] exists(1,3) h hi by (simp add: PutHash_exec_def)
  next
    case (rejected tr)
    then show ?thesis
      using that(2) [of "?k\<lparr>ks_btree := tr\<rparr>"] ok' by (simp add: PutHash_exec_def table_ok_def)
  qed
qed

lemma peerID_item:
  assumes "table_ok t" "getPeerIDForAddr (tb_addrs t) a = Some i"
  obtains n where "ks_items (tb_nodes t) i = Some n" "ap_addr (nd_addr n) = a" "wf_ID i"
proof -
  obtain n where n: "ks_items (tb_nodes t) i = Some n" "ap_addr (nd_addr n) = a"
    using rm_nodes_okD [OF table_okD(3) [OF assms(1)] assms(2)] by blast
  then show thesis using that node_ks.ok_wf [where k = "tb_nodes t" and i = i and it = n] table_okD(1) [OF assms(1)] by simp
qed

fun wf_command :: "Command \<Rightarrow> bool" where
  "wf_command (PutNode i a options) \<longleftrightarrow> wf_ID i"
| "wf_command (DropNode i reason) \<longleftrightarrow> wf_ID i"
| "wf_command (DropAddr a reason) \<longleftrightarrow> True"
| "wf_command (PutHash i peers) \<longleftrightarrow> wf_ID i"

lemma DropAddr_ok:
  assumes "table_ok t"
  shows "\<exists>t' ok. DropAddr_exec now a reason t = Inr (t', ok) \<and> table_ok t'"
proof (cases "getPeerIDForAddr (tb_addrs t) a")
  case None
  then show ?thesis using assms by (auto simp: DropAddr_exec_def)
next
  case (Some i)
  then have "wf_ID i" using peerID_item [OF assms] by blast
  from assms this show ?thesis
    by (cases rule: DropNode_outcome [where reason = reason and now = now])
      (use Some assms in \<open>auto simp: DropAddr_exec_def\<close>)
qed

lemma exec_ok:
  assumes "table_ok t" "wf_command c"
  shows "\<exists>t'. exec now c t = Inr t' \<and> table_ok t'"
proof (cases c)
  case (PutNode i a opts)
  then have "wf_ID i" using assms(2) by simp
  from assms(1) this show ?thesis
    by (cases rule: PutNode_outcome [where a = a and opts = opts and now = now]) (use PutNode assms(1) in simp_all)
next
  case (DropNode i reason)
  then have "wf_ID i" using assms(2) by simp
  from assms(1) this show ?thesis
    by (cases rule: DropNode_outcome [where reason = reason and now = now]) (use DropNode assms(1) in simp_all)
next
  case (DropAddr a reason)
  then show ?thesis using DropAddr_ok [OF assms(1), of now a reason] by auto
next
  case (PutHash i ps)
  then have "wf_ID i" using assms(2) by simp
  from assms(1) this show ?thesis
    by (cases rule: PutHash_outcome [where ps = ps and now = now]) (use PutHash in simp_all)
qed

lemma BatchCommand_ok:
  "table_ok t \<Longrightarrow> \<forall>c \<in> set cs. wf_command c \<Longrightarrow> \<exists>t'. BatchCommand now cs t = Inr t' \<and> table_ok t'"
proof (induction cs arbitrary: t)
  case (Cons c cs)
  obtain t1 where t1: "exec now c t = Inr t1" "table_ok t1" using exec_ok [OF Cons.prems(1), of c now] Cons.prems(2) by auto
  then show ?case using Cons.IH [OF t1(2)] Cons.prems(2) by simp
qed simp

lemma newTable_ok: "wf_ID i \<Longrightarrow> table_ok (newTable i)"
  by (simp add: table_ok_def newTable_def patch_keyspace_def newKeyspace_def ks_invar_def collector_invar_def
      patchPrometheusCollector_def wf_root_New rm_nodes_ok_def rm_hashes_ok_def live_nodes_def live_hashes_def
      getPeerIDForAddr_def)

text \<open>The tables reachable from a fresh one by batches of commands with 20-byte identifiers.\<close>

inductive table_reach :: "ID \<Rightarrow> table \<Rightarrow> bool" for origin where
  new: "table_reach origin (newTable origin)"
| batch: "table_reach origin t \<Longrightarrow> \<forall>c \<in> set cs. wf_command c \<Longrightarrow> BatchCommand now cs t = Inr t' \<Longrightarrow> table_reach origin t'"

lemma table_reach_ok: "table_reach origin t \<Longrightarrow> wf_ID origin \<Longrightarrow> table_ok t"
proof (induction rule: table_reach.induct)
  case new
  then show ?case by (rule newTable_ok)
next
  case (batch t cs now t')
  then show ?case using BatchCommand_ok [of t cs now] by auto
qed

section \<open>Lookups\<close>

lemma closest_known:
  assumes "ks_items (tb_nodes t) i = Some n"
  shows "GetClosestPeers i t = Inr [Some n]"
  using assms by (simp add: GetClosestPeers_def ks_getClosest_def)

lemma fresh_tree_put:
  assumes "length i = length org" "i \<noteq> org" "0 < k"
  shows "\<exists>p. bt_Put tree_ops (patchPrometheusCollector (Btree_New org k True)) i = Inr (p, PutAccepted)"
proof -
  let ?n = "Btree_New org k True"
  have "put_rejects ?n (xor_bytes i (rn_origin ?n)) = Inr False"
    using assms(3) by (simp add: put_rejects_def getBucketCount_def Btree_New_def)
  moreover have "length i = length (rn_origin ?n)" using assms(1) by simp
  ultimately obtain m where "Btree_Put ?n i = Inr (m, PutAccepted)"
    using root_put_cases [OF wf_root_New, of i org k True] assms(2) by auto
  then show ?thesis
    by (simp add: tree_ops_def collector_ops_def Collector_Put_def patchPrometheusCollector_def rootNode_ops_def)
qed

text \<open>A fresh table takes the first node.\<close>

lemma fresh_table_put:
  assumes "wf_ID org" "wf_ID i" "i \<noteq> org" "addr_port_IsValid a"
  shows "\<exists>t. PutNode_exec now i a opts (newTable org) = Inr (t, PutAccepted)"
proof -
  obtain p where "bt_Put tree_ops (patchPrometheusCollector (Btree_New org nodesK True)) i = Inr (p, PutAccepted)"
    using fresh_tree_put [of i org nodesK] assms by (auto simp: wf_ID_def nodesK_def)
  then show ?thesis
    using assms(4) by (simp add: PutNode_exec_def newTable_def patch_keyspace_def newKeyspace_def ks_put_def
        ks_newItem_def new_node_def ks_applyOptions_def)
qed

lemma map_filter_items:
  assumes "set order \<subseteq> dom m"
  shows "List.map_filter m order = map (\<lambda>j. the (m j)) order"
  using assms by (induction order) (auto simp: map_filter_simps)

lemma map_filter_order:
  assumes "map_order m order"
  shows "set (List.map_filter m order) = ran m"
  using assms by (auto simp: map_order_def map_filter_items ran_def dom_def image_def)

lemma sort_key_take_oldest:
  assumes "a \<in> set (take n (sort_key f xs))" "b \<in> set (drop n (sort_key f xs))"
  shows "f a \<le> f b"
proof -
  have "sorted (map f (take n (sort_key f xs) @ drop n (sort_key f xs)))" by simp
  then show ?thesis using assms unfolding map_append sorted_append by auto
qed

lemma candidates_loop_eq:
  "int (length cs) < n \<Longrightarrow>
   candidates_loop now n cs its =
     cs @ take (nat n - length cs) (filter (node_IsSampleInfoHashesCandidate now) its)"
proof (induction its arbitrary: cs)
  case (Cons it its)
  show ?case
  proof (cases "node_IsSampleInfoHashesCandidate now it \<and> int (length (cs @ [it])) \<noteq> n")
    case True
    then have "int (length (cs @ [it])) < n" using Cons.prems by simp
    moreover from this have "nat n - length cs = Suc (nat n - length (cs @ [it]))" by simp
    ultimately show ?thesis using True Cons.IH [of "cs @ [it]"] by simp
  next
    case False
    moreover have "nat n - length cs = Suc 0" if "1 + int (length cs) = n" using that by simp
    ultimately show ?thesis using Cons by (auto simp: Let_def)
  qed
qed simp

lemma take_until_eq:
  "int (length ps) < N \<Longrightarrow> take_until N ps xs = ps @ take (nat N - length ps) xs"
proof (induction xs arbitrary: ps)
  case (Cons x xs)
  show ?case
  proof (cases "int (length (ps @ [x])) < N")
    case True
    moreover from this have "nat N - length ps = Suc (nat N - length (ps @ [x]))" by simp
    ultimately show ?thesis using Cons.IH [of "ps @ [x]"] by simp
  next
    case False
    then have "nat N - length ps = Suc 0" using Cons.prems by simp
    then show ?thesis using False by simp
  qed
qed simp

section \<open>Properties of the table\<close>

text \<open>
  C4. A batch of commands with 20-byte identifiers never panics on a table that was itself
  reached by such batches, and leaves it consistent: the items of both keyspaces are exactly the
  identifiers of their trees, the metrics equal the number of items, an address that the reverse
  map gives a peer for belongs to a stored node at that address, a hash listed for an address is
  stored with that address among its peers, and no stored node is marked dropped or has an
  invalid address.
\<close>

theorem BatchCommand_consistent:
  assumes "table_reach origin t" "wf_ID origin" "\<forall>c \<in> set cs. wf_command c"
  shows "\<exists>t'. BatchCommand now cs t = Inr t' \<and>
     dom (ks_items (tb_nodes t')) = tree_ids (ks_btree (tb_nodes t')) \<and>
     dom (ks_items (tb_hashes t')) = tree_ids (ks_btree (tb_hashes t')) \<and>
     pc_CountGauge (ks_btree (tb_nodes t')) = int (ks_count (tb_nodes t')) \<and>
     pc_CountGauge (ks_btree (tb_hashes t')) = int (ks_count (tb_hashes t')) \<and>
     (\<forall>a i. getPeerIDForAddr (tb_addrs t') a = Some i \<longrightarrow>
        (\<exists>n. ks_items (tb_nodes t') i = Some n \<and> ap_addr (nd_addr n) = a)) \<and>
     (\<forall>a info h. tb_addrs t' a = Some info \<longrightarrow> h \<in> ia_hashes info \<longrightarrow>
        (\<exists>x. ks_items (tb_hashes t') h = Some x \<and> hs_peers x a \<noteq> None)) \<and>
     (\<forall>i n. ks_items (tb_nodes t') i = Some n \<longrightarrow>
        nd_id n = i \<and> addr_port_IsValid (nd_addr n) \<and> \<not> node_Dropped n)"
proof -
  obtain t' where t': "BatchCommand now cs t = Inr t'" "table_ok t'"
    using BatchCommand_ok [OF table_reach_ok [OF assms(1,2)] assms(3)] by blast
  note ok = table_okD [OF t'(2)]
  have "(\<forall>a info h. tb_addrs t' a = Some info \<longrightarrow> h \<in> ia_hashes info \<longrightarrow>
        (\<exists>x. ks_items (tb_hashes t') h = Some x \<and> hs_peers x a \<noteq> None))"
    using ok(4) unfolding rm_hashes_ok_def by blast
  moreover have "\<forall>i n. ks_items (tb_nodes t') i = Some n \<longrightarrow>
        nd_id n = i \<and> addr_port_IsValid (nd_addr n) \<and> \<not> node_Dropped n"
    using ok(1) live_nodesD [OF ok(5)] unfolding ks_invar_def by blast
  ultimately show ?thesis
    using t'(1) ok(1-3) by (simp add: ks_invar_def collector_invar_def ks_count_def rm_nodes_ok_def)
qed

theorem BatchCommand_consistent_witness:
  "\<exists>t'. BatchCommand 5 [PutNode (replicate 20 7) \<lparr>ap_addr = Addr4 [1, 2, 3, 4], ap_port = 6881\<rparr> [NodeResponded],
           DropAddr (Addr4 [1, 2, 3, 4]) None] (newTable (replicate 20 0)) = Inr t' \<and>
     dom (ks_items (tb_nodes t')) = tree_ids (ks_btree (tb_nodes t'))"
proof -
  have "wf_ID (replicate 20 0)" "wf_ID (replicate 20 7)" by (simp_all add: wf_ID_def)
  then show ?thesis
    using BatchCommand_consistent [OF table_reach.new, of "replicate 20 0"
        "[PutNode (replicate 20 7) \<lparr>ap_addr = Addr4 [1, 2, 3, 4], ap_port = 6881\<rparr> [NodeResponded],
          DropAddr (Addr4 [1, 2, 3, 4]) None]" 5]
    by (simp del: BatchCommand.simps) blast
qed

text \<open>
  C21. Insert and look up: \<open>PutNode\<close> never panics; when it does not reject, asking for the nodes
  closest to the identifier gives exactly that node with the address just put, and the address
  book of every other identifier is as before.
\<close>

theorem PutNode_then_GetClosest:
  assumes "table_reach origin t" "wf_ID origin" "wf_ID i"
  shows "\<exists>t' r. PutNode_exec now i a opts t = Inr (t', r) \<and>
     (r \<noteq> PutRejected \<longrightarrow> (\<exists>n. GetClosestPeers i t' = Inr [Some n] \<and> nd_id n = i \<and> nd_addr n = a)) \<and>
     (\<forall>j. j \<noteq> i \<longrightarrow> ks_items (tb_nodes t') j = ks_items (tb_nodes t) j)"
proof -
  have ok: "table_ok t" using table_reach_ok [OF assms(1,2)] .
  have ids: "\<And>n. ks_items (tb_nodes t) i = Some n \<Longrightarrow> nd_id n = i"
    using table_okD(1) [OF ok] by (simp add: ks_invar_def)
  from ok assms(3) show ?thesis
    by (cases rule: PutNode_outcome [where a = a and opts = opts and now = now])
      (simp_all add: closest_known new_node_def ids)
qed

theorem PutNode_then_GetClosest_witness:
  "\<exists>t' n. PutNode_exec 5 (replicate 20 7) \<lparr>ap_addr = Addr4 [1, 2, 3, 4], ap_port = 6881\<rparr> [] (newTable (replicate 20 0)) =
       Inr (t', PutAccepted) \<and> GetClosestPeers (replicate 20 7) t' = Inr [Some n] \<and> nd_id n = replicate 20 7"
proof -
  obtain t where "PutNode_exec 5 (replicate 20 7) \<lparr>ap_addr = Addr4 [1, 2, 3, 4], ap_port = 6881\<rparr> []
      (newTable (replicate 20 0)) = Inr (t, PutAccepted)"
    using fresh_table_put [of "replicate 20 0" "replicate 20 7"
        "\<lparr>ap_addr = Addr4 [1, 2, 3, 4], ap_port = 6881\<rparr>" 5 "[]"]
    by (auto simp: wf_ID_def addr_port_IsValid_def)
  then show ?thesis
    using PutNode_then_GetClosest [of "replicate 20 0" "newTable (replicate 20 0)" "replicate 20 7" 5
        "\<lparr>ap_addr = Addr4 [1, 2, 3, 4], ap_port = 6881\<rparr>" "[]"]
    by (auto simp: wf_ID_def intro: table_reach.new)
qed

text \<open>
  The address of a node is entered into the reverse map only when the node is put a second
  time.  After the first insertion of a node at an unknown address the address still counts as
  unknown and \<open>DropAddr\<close> finds nothing to drop; after the same insertion again the address is
  known and, for a nonzero identifier, \<open>DropAddr\<close> evicts the node.
\<close>

theorem PutNode_address_registered_on_update:
  assumes "table_reach origin t" "wf_ID origin" "wf_ID i" "\<not> ID_IsZero i"
    "tb_addrs t (ap_addr a) = None" "PutNode_exec now i a opts t = Inr (t1, PutAccepted)"
  shows "FilterKnownAddrs [ap_addr a] t1 = [ap_addr a] \<and>
     DropAddr_exec now (ap_addr a) reason t1 = Inr (t1, False) \<and>
     (\<exists>t2 t3. PutNode_exec now i a opts t1 = Inr (t2, PutAlreadyExists) \<and>
        FilterKnownAddrs [ap_addr a] t2 = [] \<and>
        DropAddr_exec now (ap_addr a) reason t2 = Inr (t3, True) \<and> ks_items (tb_nodes t3) i = None)"
proof -
  have ok: "table_ok t" using table_reach_ok [OF assms(1,2)] .
  obtain k where k: "t1 = t\<lparr>tb_nodes := k\<rparr>" "table_ok t1" "addr_port_IsValid a"
    "ks_items k = (ks_items (tb_nodes t))(i \<mapsto> fold (node_apply now) opts (fst (new_node now i a (tb_addrs t))))"
    using ok assms(3) by (cases rule: PutNode_outcome [where a = a and opts = opts and now = now])
      (use assms(6) in auto)
  have known: "ks_items (tb_nodes t1) i \<noteq> None" using k(1,4) by simp
  have unknown: "FilterKnownAddrs [ap_addr a] t1 = [ap_addr a]"
    "DropAddr_exec now (ap_addr a) reason t1 = Inr (t1, False)"
    using assms(5) k(1) by (simp_all add: FilterKnownAddrs_def DropAddr_exec_def getPeerIDForAddr_def)
  obtain k2 rm n where t2: "PutNode_exec now i a opts t1 = Inr (t1\<lparr>tb_nodes := k2, tb_addrs := rm\<rparr>, PutAlreadyExists)"
    "table_ok (t1\<lparr>tb_nodes := k2, tb_addrs := rm\<rparr>)" "ks_items k2 i = Some n"
    "getPeerIDForAddr rm (ap_addr a) = Some i"
    using k(2) assms(3)
  proof (cases rule: PutNode_outcome [where a = a and opts = opts and now = now])
    case (exists n k2 rm)
    then show thesis using that [of rm k2] assms(4) by simp
  qed (use known k(3) in simp_all)
  then have "rm (ap_addr a) \<noteq> None" by (auto simp: getPeerIDForAddr_def split: option.splits)
  moreover obtain t3 where "DropNode_exec now i reason (t1\<lparr>tb_nodes := k2, tb_addrs := rm\<rparr>) = Inr (t3, True)"
    "ks_items (tb_nodes t3) i = None"
    using t2(2) assms(3)
    by (cases rule: DropNode_outcome [where reason = reason and now = now]) (use t2(3) in simp_all)
  ultimately show ?thesis
    using unknown t2 by (simp add: FilterKnownAddrs_def DropAddr_exec_def)
qed

theorem PutNode_address_registered_on_update_witness:
  "\<exists>t1. PutNode_exec 5 (replicate 20 7) \<lparr>ap_addr = Addr4 [1, 2, 3, 4], ap_port = 6881\<rparr> [] (newTable (replicate 20 0)) =
       Inr (t1, PutAccepted) \<and> FilterKnownAddrs [Addr4 [1, 2, 3, 4]] t1 = [Addr4 [1, 2, 3, 4]]"
proof -
  let ?a = "\<lparr>ap_addr = Addr4 [1, 2, 3, 4], ap_port = 6881\<rparr>"
  obtain t where t: "PutNode_exec 5 (replicate 20 7) ?a [] (newTable (replicate 20 0)) = Inr (t, PutAccepted)"
    using fresh_table_put [of "replicate 20 0" "replicate 20 7" ?a 5 "[]"]
    by (auto simp: wf_ID_def addr_port_IsValid_def)
  then show ?thesis
    using PutNode_address_registered_on_update [OF table_reach.new, of "replicate 20 0" "replicate 20 7" ?a 5 "[]" t]
    by (simp add: wf_ID_def ID_IsZero_def newTable_def)
qed

text \<open>
  C22. Dropping by address: on a reachable table \<open>DropAddr\<close> returns true exactly when the reverse
  map names a peer for the address; then that node, and no other, leaves the table, and the address
  is no longer known.
\<close>

theorem DropAddr_evicts:
  assumes "table_reach origin t" "wf_ID origin"
  shows "\<exists>t' ok. DropAddr_exec now a reason t = Inr (t', ok) \<and>
     ok = (getPeerIDForAddr (tb_addrs t) a \<noteq> None) \<and>
     ks_items (tb_nodes t') = (case getPeerIDForAddr (tb_addrs t) a of
        None \<Rightarrow> ks_items (tb_nodes t) | Some i \<Rightarrow> (ks_items (tb_nodes t))(i := None)) \<and>
     (ok \<longrightarrow> FilterKnownAddrs [a] t' = [a]) \<and> getPeerIDForAddr (tb_addrs t') a = None"
proof (cases "getPeerIDForAddr (tb_addrs t) a")
  case None
  then show ?thesis by (intro exI [of _ t] exI [of _ False]) (simp add: DropAddr_exec_def)
next
  case (Some i)
  have ok: "table_ok t" using table_reach_ok [OF assms] .
  obtain n where n: "ks_items (tb_nodes t) i = Some n" "ap_addr (nd_addr n) = a" "wf_ID i"
    using peerID_item [OF ok Some] .
  from ok n(3) show ?thesis
    by (cases rule: DropNode_outcome [where reason = reason and now = now])
      (use n Some in \<open>auto simp: DropAddr_exec_def FilterKnownAddrs_def\<close>)
qed

theorem DropAddr_evicts_witness:
  "\<exists>t' ok. DropAddr_exec 5 (Addr4 [1, 2, 3, 4]) None (newTable (replicate 20 0)) = Inr (t', ok) \<and>
     getPeerIDForAddr (tb_addrs t') (Addr4 [1, 2, 3, 4]) = None"
  using DropAddr_evicts [OF table_reach.new, of "replicate 20 0" 5 "Addr4 [1, 2, 3, 4]" None]
  by (auto simp: wf_ID_def)

text \<open>
  The oldest nodes, for every order in which the map may be walked: the answer lists stored
  nodes that last responded before the cutoff, oldest first, at most \<open>N\<close> when \<open>N\<close> is positive;
  a node before the cutoff is left out only when \<open>N\<close> nodes are returned, none of them younger.
\<close>

theorem GetOldestPeers_oldest:
  assumes "map_order (ks_items (tb_nodes t)) order"
  shows "sorted (map node_Time (GetOldestPeers cutoff N order t)) \<and>
     set (GetOldestPeers cutoff N order t) \<subseteq> {n \<in> ran (ks_items (tb_nodes t)). nd_lastRespondedAt n < cutoff} \<and>
     (N > 0 \<longrightarrow> int (length (GetOldestPeers cutoff N order t)) \<le> N) \<and>
     (\<forall>n \<in> ran (ks_items (tb_nodes t)). nd_lastRespondedAt n < cutoff \<longrightarrow>
        n \<notin> set (GetOldestPeers cutoff N order t) \<longrightarrow>
        int (length (GetOldestPeers cutoff N order t)) = N \<and>
        (\<forall>m \<in> set (GetOldestPeers cutoff N order t). node_Time m \<le> node_Time n))"
proof -
  define all where "all = sort_key node_Time (getLastRespondedBefore (tb_nodes t) order cutoff)"
  have set_all: "set all = {n \<in> ran (ks_items (tb_nodes t)). nd_lastRespondedAt n < cutoff}"
    using map_filter_order [OF assms] by (auto simp: all_def getLastRespondedBefore_def)
  have sorted_all: "sorted (map node_Time all)" by (simp add: all_def)
  show ?thesis
  proof (cases "N > 0 \<and> int (length all) > N")
    case False
    then have "GetOldestPeers cutoff N order t = all" by (auto simp: GetOldestPeers_def all_def Let_def)
    then show ?thesis using False set_all sorted_all by auto
  next
    case True
    then have r: "GetOldestPeers cutoff N order t = take (nat N) all"
      by (simp add: GetOldestPeers_def all_def)
    have split: "set all = set (take (nat N) all) \<union> set (drop (nat N) all)"
      by (metis append_take_drop_id set_append)
    have "node_Time m \<le> node_Time n" if "m \<in> set (take (nat N) all)" "n \<in> set (drop (nat N) all)" for m n
      using sort_key_take_oldest that unfolding all_def .
    moreover have "sorted (map node_Time (take (nat N) all))"
      using sorted_all by (simp add: sorted_wrt_take flip: take_map)
    ultimately show ?thesis using True r set_all split by auto
  qed
qed

theorem GetOldestPeers_oldest_witness:
  "sorted (map node_Time (GetOldestPeers 100 3 [] (newTable (replicate 20 0))))"
  using GetOldestPeers_oldest [of "newTable (replicate 20 0)" "[]" 100 3]
  by (simp add: map_order_def newTable_def patch_keyspace_def newKeyspace_def)

text \<open>
  The nodes to sample: for a positive \<open>N\<close> the answer is \<open>N\<close> stored nodes that support
  sampling, are due for it and have not responded in the last five seconds, or all of them when
  there are fewer; for \<open>N\<close> zero the code still returns one such node when there is one.
\<close>

theorem GetNodesForSampleInfoHashes_candidates:
  assumes "map_order (ks_items (tb_nodes t)) order"
  shows "let cs = filter (node_IsSampleInfoHashesCandidate now) (List.map_filter (ks_items (tb_nodes t)) order) in
     set cs = {n \<in> ran (ks_items (tb_nodes t)). node_IsSampleInfoHashesCandidate now n} \<and>
     (N > 0 \<longrightarrow> GetNodesForSampleInfoHashes now N order t = Inr (take (nat N) cs)) \<and>
     GetNodesForSampleInfoHashes now 0 order t = Inr (take 1 cs) \<and>
     (N < 0 \<longrightarrow> GetNodesForSampleInfoHashes now N order t = Inl makeslice_cap_out_of_range)"
proof -
  let ?its = "List.map_filter (ks_items (tb_nodes t)) order"
  have zero: "candidates_loop now 0 cs its = cs @ filter (node_IsSampleInfoHashesCandidate now) its" for cs its
    by (induction its arbitrary: cs) (auto simp: Let_def)
  have "take_until 0 [] xs = take 1 xs" for xs by (cases xs) auto
  moreover have "set (filter (node_IsSampleInfoHashesCandidate now) ?its) =
      {n \<in> ran (ks_items (tb_nodes t)). node_IsSampleInfoHashesCandidate now n}"
    using map_filter_order [OF assms] by auto
  ultimately show ?thesis
    by (simp add: GetNodesForSampleInfoHashes_def getCandidatesForSampleInfoHashes_def Let_def zero
        candidates_loop_eq take_until_eq)
qed

theorem GetNodesForSampleInfoHashes_candidates_witness:
  "GetNodesForSampleInfoHashes 5 0 [] (newTable (replicate 20 0)) = Inr []"
  using GetNodesForSampleInfoHashes_candidates [of "newTable (replicate 20 0)" "[]" 5 3]
  by (simp add: map_order_def newTable_def patch_keyspace_def newKeyspace_def map_filter_simps)

text \<open>
  The sample for \<open>sample_infohashes\<close>, for every order in which the maps may be walked: it
  never panics, holds as many distinct hashes as there are up to 20, fills the answer up with nodes
  to 40 entries in total when the table has them, and reports the exact number of stored hashes.
\<close>

theorem SampleHashesAndNodes_sizes:
  assumes "table_reach origin t" "wf_ID origin"
    "map_order (ks_items (tb_hashes t)) hash_order" "map_order (ks_items (tb_nodes t)) node_order"
  shows "\<exists>r. SampleHashesAndNodes hash_order node_order t = Inr r \<and>
     sr_TotalHashes r = card (dom (ks_items (tb_hashes t))) \<and>
     length (sr_Hashes r) = min 20 (sr_TotalHashes r) \<and> distinct (map hs_id (sr_Hashes r)) \<and>
     set (sr_Hashes r) \<subseteq> ran (ks_items (tb_hashes t)) \<and>
     length (sr_Nodes r) = min (40 - length (sr_Hashes r)) (card (dom (ks_items (tb_nodes t)))) \<and>
     distinct (map nd_id (sr_Nodes r)) \<and> set (sr_Nodes r) \<subseteq> ran (ks_items (tb_nodes t))"
proof -
  note ok = table_okD [OF table_reach_ok [OF assms(1,2)]]
  obtain hs where hs: "ks_getRandom (tb_hashes t) hash_order 20 = Inr hs"
    "length hs = min 20 (ks_count (tb_hashes t))" "distinct (map hs_id hs)"
    "\<forall>h \<in> set hs. ks_items (tb_hashes t) (hs_id h) = Some h"
    using hash_ks.getRandom_outcome [of _ "tb_hashes t" hash_order 20] ok(2) assms(3) by auto
  have len: "length hs \<le> 20" using hs(2) by simp
  then obtain ns where ns: "ks_getRandom (tb_nodes t) node_order (20 + (20 - int (length hs))) = Inr ns"
    "length ns = min (40 - length hs) (ks_count (tb_nodes t))" "distinct (map nd_id ns)"
    "\<forall>n \<in> set ns. ks_items (tb_nodes t) (nd_id n) = Some n"
    using node_ks.getRandom_outcome [of _ "tb_nodes t" node_order "20 + (20 - int (length hs))"] ok(1) assms(4)
    by (auto simp: nat_diff_distrib)
  show ?thesis
    using hs ns by (auto simp: SampleHashesAndNodes_def ks_count_def intro: ranI)
qed

theorem SampleHashesAndNodes_sizes_witness:
  "\<exists>r. SampleHashesAndNodes [] [] (newTable (replicate 20 0)) = Inr r \<and> length (sr_Hashes r) = min 20 (sr_TotalHashes r)"
  using SampleHashesAndNodes_sizes [OF table_reach.new, of "replicate 20 0" "[]" "[]"]
  by (auto simp: wf_ID_def map_order_def newTable_def patch_keyspace_def newKeyspace_def)

end
