(* ===== verification/DhtWire.thy ===== *)
theory DhtWire
  imports ProtocolID NetIP
begin

text \<open>
  The wire format of the DHT protocol (\<open>src/internal/protocol/dht\<close>): compact node addresses and
  node infos (\<open>nodeaddr.go\<close>, \<open>nodeinfo.go\<close>), the messages (\<open>msg.go\<close>, \<open>dht.go\<close>), protocol errors
  (\<open>error.go\<close>) and the scrape Bloom filter (\<open>scrape.go\<close>).

  The bencode library is a parameter wherever the code calls it.  A slice codec works on elements of
  a positive fixed size, \<open>Suc m\<close> bytes, so that the decoding loop terminates.
\<close>

section \<open>Node addresses (\<open>nodeaddr.go\<close>)\<close>

record NodeAddr =
  na_IP :: "byte list"
  na_Port :: int

definition be16 :: "16 word \<Rightarrow> byte list" where
  "be16 p = [ucast (drop_bit 8 p), ucast p]"

definition BigEndian_Uint16 :: "byte list \<Rightarrow> 16 word" where
  "BigEndian_Uint16 b = push_bit 8 (ucast (b ! 0)) + ucast (b ! 1)"

definition NodeAddr_ToAddrPort :: "NodeAddr \<Rightarrow> addr_port" where
  "NodeAddr_ToAddrPort a = AddrPortFrom (AddrFromSlice (na_IP a)) (of_int (na_Port a))"

definition NewNodeAddrFromAddrPort :: "addr_port \<Rightarrow> NodeAddr" where
  "NewNodeAddrFromAddrPort f = \<lparr>na_IP = addr_AsSlice (ap_addr f), na_Port = uint (ap_port f)\<rparr>"

abbreviation makeslice_len_out_of_range :: go_fault where
  "makeslice_len_out_of_range \<equiv> Panic ''makeslice: len out of range''"

definition NodeAddr_UnmarshalBinary :: "byte list \<Rightarrow> NodeAddr res" where
  "NodeAddr_UnmarshalBinary b =
     (if length b < 2 then Inl makeslice_len_out_of_range
      else Inr \<lparr>na_IP = take (length b - 2) b, na_Port = uint (BigEndian_Uint16 (drop (length b - 2) b))\<rparr>)"

definition NodeAddr_MarshalBinary :: "NodeAddr \<Rightarrow> byte list" where
  "NodeAddr_MarshalBinary a = na_IP a @ be16 (of_int (na_Port a))"

definition NodeAddr_Equal :: "NodeAddr \<Rightarrow> NodeAddr \<Rightarrow> bool" where
  "NodeAddr_Equal a x \<longleftrightarrow> ip_Equal (na_IP a) (na_IP x) \<and> na_Port a = na_Port x"

text \<open>\<open>net.UDPAddr\<close> has the same two fields and a zone, which the conversions leave out.\<close>

record UDPAddr =
  udp_IP :: "byte list"
  udp_Port :: int

definition NodeAddr_UDP :: "NodeAddr \<Rightarrow> UDPAddr" where
  "NodeAddr_UDP a = \<lparr>udp_IP = na_IP a, udp_Port = na_Port a\<rparr>"

definition NodeAddr_FromUDPAddr :: "UDPAddr \<Rightarrow> NodeAddr" where
  "NodeAddr_FromUDPAddr ua = \<lparr>na_IP = udp_IP ua, na_Port = udp_Port ua\<rparr>"

section \<open>Node infos and slices of them (\<open>nodeinfo.go\<close>)\<close>

record NodeInfo =
  ni_ID :: ID
  ni_Addr :: NodeAddr

definition NodeInfo_MarshalBinary :: "NodeInfo \<Rightarrow> byte list" where
  "NodeInfo_MarshalBinary ni = ni_ID ni @ na_IP (ni_Addr ni) @ be16 (of_int (na_Port (ni_Addr ni)))"

definition NodeInfo_UnmarshalBinary :: "byte list \<Rightarrow> NodeInfo res" where
  "NodeInfo_UnmarshalBinary b =
     (let i = go_copy ID_zero b in
      res_bind (go_slice_from b 20) (\<lambda>rest.
        res_bind (NodeAddr_UnmarshalBinary rest) (\<lambda>a. Inr \<lparr>ni_ID = i, ni_Addr = a\<rparr>)))"

text \<open>
  Decoding appends to the slice it is given.  An error (trailing bytes, or an element that cannot
  be decoded) is returned beside the elements read so far; \<open>Inl\<close> is a panic of an element.
\<close>

function unmarshalBinarySlice ::
  "(byte list \<Rightarrow> 'a res) \<Rightarrow> nat \<Rightarrow> 'a list \<Rightarrow> byte list \<Rightarrow> ('a list \<times> string option) res" where
  "unmarshalBinarySlice dec m acc b =
     (if b = [] then Inr (acc, None)
      else if length b < Suc m then Inr (acc, Some ''trailing bytes'')
      else case dec (take (Suc m) b) of
             Inl (Err e) \<Rightarrow> Inr (acc, Some e)
           | Inl (Panic e) \<Rightarrow> Inl (Panic e)
           | Inr x \<Rightarrow> unmarshalBinarySlice dec m (acc @ [x]) (drop (Suc m) b))"
  by pat_completeness auto
termination
  by (relation "measure (\<lambda>(dec, m, acc, b). length b)") auto

declare unmarshalBinarySlice.simps [simp del]

definition marshalled_wrong_size :: go_fault where
  "marshalled_wrong_size = Panic ''marshalled bytes, but expected ElemSize''"

fun marshalBinarySlice :: "('a \<Rightarrow> byte list) \<Rightarrow> nat \<Rightarrow> 'a list \<Rightarrow> byte list res" where
  "marshalBinarySlice enc m [] = Inr []"
| "marshalBinarySlice enc m (e # elems) =
     (if length (enc e) \<noteq> Suc m then Inl marshalled_wrong_size
      else res_bind (marshalBinarySlice enc m elems) (\<lambda>bs. Inr (enc e @ bs)))"

text \<open>The element sizes 26, 38 and 20.\<close>

definition CompactIPv4NodeInfo_MarshalBinary :: "NodeInfo list \<Rightarrow> byte list res" where
  "CompactIPv4NodeInfo_MarshalBinary nis =
     marshalBinarySlice NodeInfo_MarshalBinary 25
       (map (\<lambda>ni. ni\<lparr>ni_Addr := (ni_Addr ni)\<lparr>na_IP := ip_To4 (na_IP (ni_Addr ni))\<rparr>\<rparr>) nis)"

definition CompactIPv4NodeInfo_UnmarshalBinary :: "NodeInfo list \<Rightarrow> byte list \<Rightarrow> (NodeInfo list \<times> string option) res" where
  "CompactIPv4NodeInfo_UnmarshalBinary = unmarshalBinarySlice NodeInfo_UnmarshalBinary 25"

definition CompactIPv6NodeInfo_MarshalBinary :: "NodeInfo list \<Rightarrow> byte list res" where
  "CompactIPv6NodeInfo_MarshalBinary = marshalBinarySlice NodeInfo_MarshalBinary 37"

definition CompactIPv6NodeInfo_UnmarshalBinary :: "NodeInfo list \<Rightarrow> byte list \<Rightarrow> (NodeInfo list \<times> string option) res" where
  "CompactIPv6NodeInfo_UnmarshalBinary = unmarshalBinarySlice NodeInfo_UnmarshalBinary 37"

definition CompactInfohashes_MarshalBinary :: "ID list \<Rightarrow> byte list res" where
  "CompactInfohashes_MarshalBinary = marshalBinarySlice ID_MarshalBinary 19"

definition CompactInfohashes_UnmarshalBinary :: "ID list \<Rightarrow> byte list \<Rightarrow> (ID list \<times> string option) res" where
  "CompactInfohashes_UnmarshalBinary = unmarshalBinarySlice ID_UnmarshalBinary 19"

text \<open>The bencode forms: the library encodes and decodes a byte string.\<close>

definition bencodeBytesResult :: "(byte list \<Rightarrow> byte list) \<Rightarrow> byte list res \<Rightarrow> byte list res" where
  "bencodeBytesResult bencode_Marshal r = res_bind r (\<lambda>b. Inr (bencode_Marshal b))"

definition unmarshalBencodedBinary ::
  "(byte list \<Rightarrow> byte list res) \<Rightarrow> (byte list \<Rightarrow> 'a res) \<Rightarrow> byte list \<Rightarrow> 'a res" where
  "unmarshalBencodedBinary bencode_Unmarshal u b = res_bind (bencode_Unmarshal b) u"

section \<open>Messages (\<open>msg.go\<close>, \<open>dht.go\<close>)\<close>

text \<open>The fields the program reads or writes; the BEP 44 storage fields are never used.\<close>

record MsgArgs =
  ma_ID :: ID
  ma_InfoHash :: ID
  ma_Target :: ID
  ma_Token :: string
  ma_Port :: "int option"
  ma_ImpliedPort :: bool
  ma_Scrape :: int

record Error =
  er_Code :: int
  er_Msg :: string

type_synonym ScrapeBloomFilter = "byte list"

record Return =
  rt_ID :: ID
  rt_Nodes :: "NodeInfo list"
  rt_Token :: "string option"
  rt_Values :: "NodeAddr list"
  rt_BFsd :: "ScrapeBloomFilter option"
  rt_BFpe :: "ScrapeBloomFilter option"
  rt_Interval :: "int option"
  rt_Num :: "int option"
  rt_Samples :: "ID list option"

record Msg =
  mg_Q :: string
  mg_A :: "MsgArgs option"
  mg_T :: string
  mg_Y :: string
  mg_R :: "Return option"
  mg_E :: "Error option"
  mg_IP :: "NodeAddr option"
  mg_ReadOnly :: bool

definition YQuery :: string where "YQuery = ''q''"
definition YResponse :: string where "YResponse = ''r''"
definition YError :: string where "YError = ''e''"

definition QPing :: string where "QPing = ''ping''"
definition QFindNode :: string where "QFindNode = ''find_node''"
definition QGetPeers :: string where "QGetPeers = ''get_peers''"
definition QAnnouncePeer :: string where "QAnnouncePeer = ''announce_peer''"
definition QSampleInfohashes :: string where "QSampleInfohashes = ''sample_infohashes''"

record RecvMsg =
  rm_Msg :: Msg
  rm_From :: addr_port

definition AnnouncePort :: "RecvMsg \<Rightarrow> 16 word" where
  "AnnouncePort m =
     (let port = ap_port (rm_From m) in
      case mg_A (rm_Msg m) of
        None \<Rightarrow> port
      | Some args \<Rightarrow>
          if \<not> ma_ImpliedPort args
          then (case ma_Port args of None \<Rightarrow> port | Some argsPort \<Rightarrow> of_int argsPort)
          else port)"

section \<open>Protocol errors (\<open>error.go\<close>)\<close>

text \<open>What the bencode library decodes into an untyped value.\<close>

datatype bvalue = BInt64 int | BStr string | BList "bvalue list" | BOther

definition ErrorCodeGenericError :: int where "ErrorCodeGenericError = 201"
definition ErrorCodeServerError :: int where "ErrorCodeServerError = 202"
definition ErrorCodeProtocolError :: int where "ErrorCodeProtocolError = 203"
definition ErrorCodeMethodUnknown :: int where "ErrorCodeMethodUnknown = 204"

text \<open>
  Decoding into an error value; the result carries the error returned.  The panics of the index and
  type assertions are recovered, after \<open>Code\<close> may have been set.
\<close>

fun Error_UnmarshalBencode :: "Error \<Rightarrow> bvalue res \<Rightarrow> Error \<times> string option" where
  "Error_UnmarshalBencode e (Inl f) = (e, Some ''bencode'')"
| "Error_UnmarshalBencode e (Inr (BList (BInt64 c # BStr s # _))) = (e\<lparr>er_Code := c, er_Msg := s\<rparr>, None)"
| "Error_UnmarshalBencode e (Inr (BList (BInt64 c # _))) = (e\<lparr>er_Code := c\<rparr>, Some ''unpacking'')"
| "Error_UnmarshalBencode e (Inr (BList _)) = (e, Some ''unpacking'')"
| "Error_UnmarshalBencode e (Inr (BStr s)) = (e\<lparr>er_Msg := s\<rparr>, None)"
| "Error_UnmarshalBencode e (Inr _) = (e, Some ''KRPC error bencode value has unexpected type'')"

definition Error_MarshalBencode :: "Error \<Rightarrow> bvalue" where
  "Error_MarshalBencode e = BList [BInt64 (er_Code e), BStr (er_Msg e)]"

section \<open>The scrape filter (\<open>scrape.go\<close>)\<close>

definition scrape_m :: nat where "scrape_m = 256 * 8"

definition addK :: "ScrapeBloomFilter \<Rightarrow> nat \<Rightarrow> ScrapeBloomFilter" where
  "addK f index =
     (let i = index mod scrape_m in f[i div 8 := or (f ! (i div 8)) (push_bit (i mod 8) 1)])"

definition AddIP :: "(byte list \<Rightarrow> byte list) \<Rightarrow> ScrapeBloomFilter \<Rightarrow> byte list \<Rightarrow> ScrapeBloomFilter" where
  "AddIP sha1 f ip =
     (let sum = sha1 ip;
          f1 = addK f (or (unat (sum ! 0)) (push_bit 8 (unat (sum ! 1)))) in
      addK f1 (or (unat (sum ! 2)) (push_bit 8 (unat (sum ! 3)))))"

definition OnesCount8 :: "byte \<Rightarrow> nat" where
  "OnesCount8 b = length (filter (bit b) [0..<8])"

definition countZeroes :: "ScrapeBloomFilter \<Rightarrow> nat" where
  "countZeroes f = sum_list (map (\<lambda>b. 8 - OnesCount8 b) f)"

section \<open>Codecs\<close>

lemma length_be16 [simp]: "length (be16 p) = 2"
  by (simp add: be16_def)

lemma bit_be16:
  "bit (push_bit 8 (ucast (ucast (drop_bit 8 p) :: byte)) :: 16 word) n \<longleftrightarrow> n \<ge> 8 \<and> bit p n"
  "bit (ucast (ucast p :: byte) :: 16 word) n \<longleftrightarrow> n < 8 \<and> bit p n" for p :: "16 word"
  using bit_imp_le_length [of p n]
  by (auto simp: bit_push_bit_iff bit_ucast_iff bit_drop_bit_eq)

lemma BigEndian_be16 [simp]: "BigEndian_Uint16 (be16 p) = p"
proof -
  let ?hi = "push_bit 8 (ucast (ucast (drop_bit 8 p) :: byte)) :: 16 word"
  let ?lo = "ucast (ucast p :: byte) :: 16 word"
  have "?hi + ?lo = or ?hi ?lo"
    by (rule disjunctive_add) (auto simp: bit_be16)
  also have "\<dots> = p" by (rule bit_word_eqI) (auto simp: bit_or_iff bit_be16)
  finally show ?thesis by (simp add: BigEndian_Uint16_def be16_def)
qed

lemma uint_of_int_port: "0 \<le> p \<Longrightarrow> p < 65536 \<Longrightarrow> uint (of_int p :: 16 word) = p"
  by (simp add: uint_word_of_int)

lemma NodeAddr_roundtrip:
  "0 \<le> na_Port a \<Longrightarrow> na_Port a < 65536 \<Longrightarrow> NodeAddr_UnmarshalBinary (NodeAddr_MarshalBinary a) = Inr a"
  by (simp add: NodeAddr_UnmarshalBinary_def NodeAddr_MarshalBinary_def uint_of_int_port)

lemma NodeInfo_roundtrip:
  assumes "wf_ID (ni_ID ni)" "0 \<le> na_Port (ni_Addr ni)" "na_Port (ni_Addr ni) < 65536"
  shows "NodeInfo_UnmarshalBinary (NodeInfo_MarshalBinary ni) = Inr ni"
proof -
  have "go_copy ID_zero (ni_ID ni @ xs) = ni_ID ni" for xs
    using assms(1) by (simp add: go_copy_def wf_ID_def ID_zero_def)
  then show ?thesis
    using assms NodeAddr_roundtrip [OF assms(2,3)]
    by (simp add: NodeInfo_UnmarshalBinary_def NodeInfo_MarshalBinary_def go_slice_from_def wf_ID_def
        NodeAddr_MarshalBinary_def)
qed

text \<open>What a slice codec needs of its elements.\<close>

locale elem_codec =
  fixes enc :: "'a \<Rightarrow> byte list" and dec :: "byte list \<Rightarrow> 'a res" and m :: nat and valid :: "'a \<Rightarrow> bool"
  assumes enc_length: "valid x \<Longrightarrow> length (enc x) = Suc m"
    and dec_enc: "valid x \<Longrightarrow> dec (enc x) = Inr x"
    and dec_total: "length b = Suc m \<Longrightarrow> \<exists>x. dec b = Inr x"
begin

lemma marshal_ok: "\<forall>x \<in> set xs. valid x \<Longrightarrow> marshalBinarySlice enc m xs = Inr (concat (map enc xs))"
  by (induction xs) (simp_all add: enc_length)

lemma unmarshal_concat:
  "\<forall>x \<in> set xs. valid x \<Longrightarrow> unmarshalBinarySlice dec m acc (concat (map enc xs)) = Inr (acc @ xs, None)"
proof (induction xs arbitrary: acc)
  case Nil
  then show ?case by (simp add: unmarshalBinarySlice.simps)
next
  case (Cons x xs)
  then have "length (enc x) = Suc m" "dec (enc x) = Inr x" by (simp_all add: enc_length dec_enc)
  then show ?case using Cons by (subst unmarshalBinarySlice.simps) auto
qed

lemma slice_roundtrip:
  assumes "\<forall>x \<in> set xs. valid x"
  shows "\<exists>bs. marshalBinarySlice enc m xs = Inr bs \<and> length bs = Suc m * length xs \<and>
     unmarshalBinarySlice dec m [] bs = Inr (xs, None)"
proof -
  have "length (concat (map enc xs)) = Suc m * length xs"
    using assms by (induction xs) (simp_all add: enc_length algebra_simps)
  then show ?thesis using marshal_ok [OF assms] unmarshal_concat [OF assms, of "[]"] by simp
qed

text \<open>Any input is decoded without a panic: as many elements as fit, an error for a rest.\<close>

lemma unmarshal_total:
  "\<exists>xs err. unmarshalBinarySlice dec m acc b = Inr (acc @ xs, err) \<and> length xs = length b div Suc m \<and>
     (err = None \<longleftrightarrow> length b mod Suc m = 0)"
proof (induction "length b" arbitrary: acc b rule: less_induct)
  case less
  show ?case
  proof (cases "length b < Suc m")
    case True
    then show ?thesis by (auto simp: unmarshalBinarySlice.simps [of dec m acc b])
  next
    case False
    then obtain x where x: "dec (take (Suc m) b) = Inr x" using dec_total [of "take (Suc m) b"] by auto
    have "length (drop (Suc m) b) < length b" using False by simp
    note IH = less [OF this, of "acc @ [x]"]
    then obtain xs err where u: "unmarshalBinarySlice dec m (acc @ [x]) (drop (Suc m) b) = Inr ((acc @ [x]) @ xs, err) \<and>
      length xs = length (drop (Suc m) b) div Suc m \<and> (err = None \<longleftrightarrow> length (drop (Suc m) b) mod Suc m = 0)"
      using IH by (elim exE)
    have "length b div Suc m = Suc ((length b - Suc m) div Suc m)"
      "length b mod Suc m = (length b - Suc m) mod Suc m"
      using False by (simp_all add: le_div_geq le_mod_geq)
    moreover have "b \<noteq> []" using False by auto
    ultimately show ?thesis
      using x u False by (subst unmarshalBinarySlice.simps) auto
  qed
qed

end

definition valid_NodeInfo :: "nat \<Rightarrow> NodeInfo \<Rightarrow> bool" where
  "valid_NodeInfo len ni \<longleftrightarrow> wf_ID (ni_ID ni) \<and> length (na_IP (ni_Addr ni)) = len \<and>
     0 \<le> na_Port (ni_Addr ni) \<and> na_Port (ni_Addr ni) < 65536"

lemma valid_NodeInfo_codec:
  assumes "valid_NodeInfo len ni"
  shows "NodeInfo_UnmarshalBinary (NodeInfo_MarshalBinary ni) = Inr ni" "length (NodeInfo_MarshalBinary ni) = 22 + len"
  using assms NodeInfo_roundtrip by (simp_all add: valid_NodeInfo_def NodeInfo_MarshalBinary_def wf_ID_def)

lemma NodeInfo_dec_total: "22 \<le> length b \<Longrightarrow> \<exists>x. NodeInfo_UnmarshalBinary b = Inr x"
  by (simp add: NodeInfo_UnmarshalBinary_def go_slice_from_def NodeAddr_UnmarshalBinary_def)

interpretation ipv4_codec: elem_codec NodeInfo_MarshalBinary NodeInfo_UnmarshalBinary 25 "valid_NodeInfo 4"
  by unfold_locales
    (simp_all add: valid_NodeInfo_codec NodeInfo_dec_total)

interpretation ipv6_codec: elem_codec NodeInfo_MarshalBinary NodeInfo_UnmarshalBinary 37 "valid_NodeInfo 16"
  by unfold_locales
    (simp_all add: valid_NodeInfo_codec NodeInfo_dec_total)

interpretation infohash_codec: elem_codec ID_MarshalBinary ID_UnmarshalBinary 19 wf_ID
  by unfold_locales (auto simp: ID_MarshalBinary_def ID_UnmarshalBinary_def wf_ID_def ID_zero_def go_copy_full)

section \<open>Node addresses\<close>

lemma to4_valid:
  assumes "valid_NodeInfo 4 ni"
  shows "ni\<lparr>ni_Addr := (ni_Addr ni)\<lparr>na_IP := ip_To4 (na_IP (ni_Addr ni))\<rparr>\<rparr> = ni"
  using assms by (simp add: valid_NodeInfo_def ip_To4_v4)

lemma marshalBinarySlice_ok_iff:
  "(\<exists>bs. marshalBinarySlice enc m xs = Inr bs) \<longleftrightarrow> (\<forall>x \<in> set xs. length (enc x) = Suc m)"
  by (induction xs) (auto simp: res_simps)

section \<open>The scrape filter\<close>

definition filter_bit :: "ScrapeBloomFilter \<Rightarrow> nat \<Rightarrow> bool" where
  "filter_bit f i = bit (f ! (i div 8)) (i mod 8)"

lemma length_addK [simp]: "length (addK f i) = length f"
  by (simp add: addK_def Let_def)

lemma filter_bit_addK:
  assumes "length f = 256" "j < scrape_m"
  shows "filter_bit (addK f i) j \<longleftrightarrow> filter_bit f j \<or> j = i mod scrape_m"
proof -
  let ?i = "i mod scrape_m"
  have i: "?i div 8 < 256" "j div 8 < 256" using assms(2) by (simp_all add: scrape_m_def less_mult_imp_div_less)
  have m8: "j mod 8 < 8" "?i mod 8 < 8" by simp_all
  have split: "j = ?i \<longleftrightarrow> j div 8 = ?i div 8 \<and> j mod 8 = ?i mod 8"
    by (metis div_mult_mod_eq)
  have "bit (push_bit (?i mod 8) 1 :: byte) (j mod 8) \<longleftrightarrow> j mod 8 = ?i mod 8"
    using m8 by (auto simp: bit_exp_iff)
  then show ?thesis
    using assms(1) i unfolding split
    by (auto simp: filter_bit_def addK_def Let_def nth_list_update bit_or_iff)
qed

section \<open>Properties of the wire format\<close>

text \<open>
  C25. Compact IPv4 node lists round-trip: a list of nodes with 20-byte identifiers, 4-byte addresses
  and ports in range is encoded without a panic in 26 bytes per node, and decoding gives it back.
\<close>

theorem CompactIPv4NodeInfo_roundtrip:
  assumes "\<forall>ni \<in> set nis. valid_NodeInfo 4 ni"
  shows "\<exists>bs. CompactIPv4NodeInfo_MarshalBinary nis = Inr bs \<and> length bs = 26 * length nis \<and>
     CompactIPv4NodeInfo_UnmarshalBinary [] bs = Inr (nis, None)"
proof -
  have "map (\<lambda>ni. ni\<lparr>ni_Addr := (ni_Addr ni)\<lparr>na_IP := ip_To4 (na_IP (ni_Addr ni))\<rparr>\<rparr>) nis = nis"
    by (rule map_idI) (use assms to4_valid in blast)
  then show ?thesis
    using ipv4_codec.slice_roundtrip [OF assms]
    by (simp add: CompactIPv4NodeInfo_MarshalBinary_def CompactIPv4NodeInfo_UnmarshalBinary_def)
qed

theorem CompactIPv4NodeInfo_roundtrip_witness:
  "\<exists>bs. CompactIPv4NodeInfo_MarshalBinary
       [\<lparr>ni_ID = replicate 20 7, ni_Addr = \<lparr>na_IP = [1, 2, 3, 4], na_Port = 6881\<rparr>\<rparr>] = Inr bs \<and> length bs = 26 \<and>
     CompactIPv4NodeInfo_UnmarshalBinary [] bs =
       Inr ([\<lparr>ni_ID = replicate 20 7, ni_Addr = \<lparr>na_IP = [1, 2, 3, 4], na_Port = 6881\<rparr>\<rparr>], None)"
  using CompactIPv4NodeInfo_roundtrip [of "[\<lparr>ni_ID = replicate 20 7, ni_Addr = \<lparr>na_IP = [1, 2, 3, 4], na_Port = 6881\<rparr>\<rparr>]"]
  by (simp add: valid_NodeInfo_def wf_ID_def)

text \<open>
  Decoding node lists and info-hash lists from the network is total: for every byte string each
  of the three decoders returns without a panic, with one element per full element size, and
  reports an error exactly when bytes are left over.
\<close>

theorem compact_decoders_total:
  "(\<exists>xs err. CompactIPv4NodeInfo_UnmarshalBinary [] b = Inr (xs, err) \<and> length xs = length b div 26 \<and>
      (err = None \<longleftrightarrow> 26 dvd length b)) \<and>
   (\<exists>xs err. CompactIPv6NodeInfo_UnmarshalBinary [] b = Inr (xs, err) \<and> length xs = length b div 38 \<and>
      (err = None \<longleftrightarrow> 38 dvd length b)) \<and>
   (\<exists>xs err. CompactInfohashes_UnmarshalBinary [] b = Inr (xs, err) \<and> length xs = length b div 20 \<and>
      (err = None \<longleftrightarrow> 20 dvd length b))"
  using ipv4_codec.unmarshal_total [of "[]" b] ipv6_codec.unmarshal_total [of "[]" b]
    infohash_codec.unmarshal_total [of "[]" b]
  by (simp add: CompactIPv4NodeInfo_UnmarshalBinary_def CompactIPv6NodeInfo_UnmarshalBinary_def
      CompactInfohashes_UnmarshalBinary_def dvd_eq_mod_eq_0)

text \<open>
  The single-address decoder is not total: it panics exactly on inputs of fewer than two bytes.
  On longer inputs the port is in range and encoding the result gives the input back.
\<close>

theorem NodeAddr_decode_short_panics:
  "(is_panic (NodeAddr_UnmarshalBinary b) \<longleftrightarrow> length b < 2) \<and>
   (\<forall>a. NodeAddr_UnmarshalBinary b = Inr a \<longrightarrow>
      0 \<le> na_Port a \<and> na_Port a < 65536 \<and> NodeAddr_MarshalBinary a = b)"
proof -
  have be: "be16 (BigEndian_Uint16 xs) = xs" if xs: "length xs = 2" for xs
  proof -
    obtain x y where xy: "xs = [x, y]" using xs by (auto simp: numeral_2_eq_2 length_Suc_conv)
    have sum: "push_bit 8 (ucast x) + ucast y = or (push_bit 8 (ucast x)) (ucast y :: 16 word)"
      by (rule disjunctive_add) (auto simp: bit_push_bit_iff bit_ucast_iff dest: bit_imp_le_length)
    have "ucast (drop_bit 8 (or (push_bit 8 (ucast x)) (ucast y :: 16 word))) = x"
      by (rule bit_word_eqI) (auto simp: bit_ucast_iff bit_drop_bit_eq bit_or_iff bit_push_bit_iff dest: bit_imp_le_length)
    moreover have "ucast (or (push_bit 8 (ucast x)) (ucast y :: 16 word)) = y"
      by (rule bit_word_eqI) (auto simp: bit_ucast_iff bit_or_iff bit_push_bit_iff)
    ultimately show ?thesis by (simp add: be16_def BigEndian_Uint16_def xy sum)
  qed
  show ?thesis
    using uint_lt2p [of "BigEndian_Uint16 (drop (length b - 2) b)"]
    by (auto simp: NodeAddr_UnmarshalBinary_def NodeAddr_MarshalBinary_def is_panic_def be)
qed

theorem NodeAddr_decode_short_panics_witness:
  "is_panic (NodeAddr_UnmarshalBinary [5])"
  using NodeAddr_decode_short_panics [of "[5]"] by simp

text \<open>
  The IPv4 list encoder panics exactly when some address is neither a 4-byte address nor an
  IPv4-mapped one (identifiers being 20 bytes).
\<close>

theorem CompactIPv4NodeInfo_encode_panics:
  assumes "\<forall>ni \<in> set nis. wf_ID (ni_ID ni)"
  shows "is_panic (CompactIPv4NodeInfo_MarshalBinary nis) \<longleftrightarrow> (\<exists>ni \<in> set nis. ip_To4 (na_IP (ni_Addr ni)) = [])"
proof -
  let ?f = "\<lambda>ni. ni\<lparr>ni_Addr := (ni_Addr ni)\<lparr>na_IP := ip_To4 (na_IP (ni_Addr ni))\<rparr>\<rparr>"
  have panic: "is_panic (marshalBinarySlice enc m xs) \<longleftrightarrow> \<not> (\<exists>bs. marshalBinarySlice enc m xs = Inr bs)"
    for enc :: "NodeInfo \<Rightarrow> byte list" and m xs
    by (induction xs) (auto simp: is_panic_def marshalled_wrong_size_def res_simps split: sum.splits)
  have "length (NodeInfo_MarshalBinary (?f ni)) = Suc 25 \<longleftrightarrow> ip_To4 (na_IP (ni_Addr ni)) \<noteq> []"
    if "ni \<in> set nis" for ni
    using assms that ip_To4_length [of "na_IP (ni_Addr ni)"] by (auto simp: NodeInfo_MarshalBinary_def wf_ID_def)
  then show ?thesis
    by (simp add: CompactIPv4NodeInfo_MarshalBinary_def panic marshalBinarySlice_ok_iff)
qed

theorem CompactIPv4NodeInfo_encode_panics_witness:
  "is_panic (CompactIPv4NodeInfo_MarshalBinary
     [\<lparr>ni_ID = replicate 20 7, ni_Addr = \<lparr>na_IP = replicate 16 1, na_Port = 6881\<rparr>\<rparr>])"
  using CompactIPv4NodeInfo_encode_panics
    [of "[\<lparr>ni_ID = replicate 20 7, ni_Addr = \<lparr>na_IP = replicate 16 1, na_Port = 6881\<rparr>\<rparr>]"]
  by (simp add: wf_ID_def ip_To4_def numeral_nat)

text \<open>
  The scrape filter never forgets: adding an address sets the two bits its hash names and keeps
  every bit that was set, so each address added before still tests positive.
\<close>

theorem AddIP_keeps_members:
  assumes "length f = 256" "j < scrape_m"
  shows "length (AddIP sha1 f ip) = 256 \<and>
     (filter_bit (AddIP sha1 f ip) j \<longleftrightarrow> filter_bit f j \<or>
        j = or (unat (sha1 ip ! 0)) (push_bit 8 (unat (sha1 ip ! 1))) mod scrape_m \<or>
        j = or (unat (sha1 ip ! 2)) (push_bit 8 (unat (sha1 ip ! 3))) mod scrape_m)"
  using assms by (auto simp: AddIP_def Let_def filter_bit_addK)

theorem AddIP_keeps_members_witness:
  "filter_bit (AddIP (\<lambda>ip. replicate 20 1) (replicate 256 0) [1, 2, 3, 4]) 257"
  using AddIP_keeps_members [of "replicate 256 0" 257 "\<lambda>ip. replicate 20 1" "[1, 2, 3, 4]"]
  by (simp add: scrape_m_def)

end
