(* ===== verification/Responder.thy ===== *)
theory Responder
  imports KTable DhtWire
begin

text \<open>
  The responder of the DHT node (\<open>src/internal/protocol/dht/responder\<close>): the handler of the five
  queries (\<open>responder.go\<close>) and the wrappers it is installed behind (\<open>factory.go\<close>): the rate limiter
  (\<open>limiter.go\<close>), the metrics (\<open>prometheus_collector.go\<close>) and the node discovery
  (\<open>node_discovery.go\<close>).

  The hash function of the announce token, the printed form of an address and the state and decision
  of the rate limiters (third-party token buckets) are parameters.  The orders in which the
  maps are walked and the clock reading are fields of an environment.
\<close>

section \<open>The responder (\<open>responder.go\<close>)\<close>

record responder =
  rs_nodeID :: ID
  rs_tokenSecret :: "byte list"
  rs_sampleInfoHashesInterval :: int

record renv =
  re_md5 :: "byte list \<Rightarrow> byte list"
  re_addr_String :: "addr \<Rightarrow> string"
  re_now :: time
  re_hash_order :: "ID list"
  re_node_order :: "ID list"
  re_peers_order :: "hash \<Rightarrow> addr list"

definition ErrMissingArguments :: Error where
  "ErrMissingArguments = \<lparr>er_Code = ErrorCodeProtocolError, er_Msg = ''missing arguments''\<rparr>"

definition ErrInvalidToken :: Error where
  "ErrInvalidToken = \<lparr>er_Code = ErrorCodeProtocolError, er_Msg = ''invalid token''\<rparr>"

definition ErrMethodUnknown :: Error where
  "ErrMethodUnknown = \<lparr>er_Code = ErrorCodeMethodUnknown, er_Msg = ''method Unknown''\<rparr>"

definition ErrTooManyRequests :: Error where
  "ErrTooManyRequests = \<lparr>er_Code = ErrorCodeGenericError, er_Msg = ''too many requests''\<rparr>"

definition Return_zero :: Return where
  "Return_zero = \<lparr>rt_ID = ID_zero, rt_Nodes = [], rt_Token = None, rt_Values = [], rt_BFsd = None,
     rt_BFpe = None, rt_Interval = None, rt_Num = None, rt_Samples = None\<rparr>"

definition announceToken :: "renv \<Rightarrow> responder \<Rightarrow> ID \<Rightarrow> ID \<Rightarrow> addr \<Rightarrow> string" where
  "announceToken env r infoHash nodeID nodeAddr =
     hex_encode (re_md5 env (rs_tokenSecret r @ rs_nodeID r @ infoHash @ nodeID @
                             bytes_of_string (re_addr_String env nodeAddr)))"

text \<open>A nil node in the answer of the table would be dereferenced here.\<close>

definition nodeInfoFromNode :: "node option \<Rightarrow> NodeInfo res" where
  "nodeInfoFromNode n =
     (case n of
        None \<Rightarrow> Inl nil_dereference
      | Some n \<Rightarrow> Inr \<lparr>ni_ID = nd_id n, ni_Addr = NewNodeAddrFromAddrPort (nd_addr n)\<rparr>)"

definition nodeInfosFromNodes :: "node option list \<Rightarrow> NodeInfo list res" where
  "nodeInfosFromNodes ns = res_map nodeInfoFromNode ns"

definition Respond :: "renv \<Rightarrow> responder \<Rightarrow> RecvMsg \<Rightarrow> table \<Rightarrow> (table \<times> Return \<times> Error option) res" where
  "Respond env r msg t =
     (case mg_A (rm_Msg msg) of
        None \<Rightarrow> Inr (t, Return_zero, Some ErrMissingArguments)
      | Some args \<Rightarrow>
          (let ret = Return_zero\<lparr>rt_ID := rs_nodeID r\<rparr>;
               q = mg_Q (rm_Msg msg);
               from = rm_From msg in
           if q = QPing then Inr (t, ret, None)
           else if q = QFindNode then
             (if ma_Target args = ID_zero then Inr (t, ret, Some ErrMissingArguments)
              else res_bind (GetClosestPeers (ma_Target args) t) (\<lambda>closestNodes.
                     res_bind (nodeInfosFromNodes closestNodes) (\<lambda>nodes.
                       Inr (t, ret\<lparr>rt_Nodes := nodes\<rparr>, None))))
           else if q = QGetPeers then
             (if ma_InfoHash args = ID_zero then Inr (t, ret, Some ErrMissingArguments)
              else res_bind (GetHashOrClosestNodes (ma_InfoHash args) t) (\<lambda>result.
                     res_bind
                       (if gh_Found result then
                          (case gh_Hash result of
                             None \<Rightarrow> Inl nil_dereference
                           | Some h \<Rightarrow> Inr (ret\<lparr>rt_Values := map (\<lambda>p. NewNodeAddrFromAddrPort (hp_Addr p))
                                            (hash_Peers h (re_peers_order env h))\<rparr>))
                        else Inr ret)
                       (\<lambda>ret1.
                     res_bind (nodeInfosFromNodes (gh_ClosestNodes result)) (\<lambda>nodes.
                       Inr (t, ret1\<lparr>rt_Nodes := nodes,
                              rt_Token := Some (announceToken env r (ma_InfoHash args) (ma_ID args) (ap_addr from))\<rparr>,
                            None)))))
           else if q = QAnnouncePeer then
             (if ma_InfoHash args = ID_zero then Inr (t, ret, Some ErrMissingArguments)
              else if ma_Token args \<noteq> announceToken env r (ma_InfoHash args) (ma_ID args) (ap_addr from)
              then Inr (t, ret, Some ErrInvalidToken)
              else res_bind (BatchCommand (re_now env)
                     [PutHash (ma_InfoHash args) [\<lparr>hp_Addr = AddrPortFrom (ap_addr from) (AnnouncePort msg)\<rparr>]] t)
                     (\<lambda>t'. Inr (t', ret, None)))
           else if q = QSampleInfohashes then
             res_bind (SampleHashesAndNodes (re_hash_order env) (re_node_order env) t) (\<lambda>result.
               res_bind (nodeInfosFromNodes (map Some (sr_Nodes result))) (\<lambda>nodes.
                 Inr (t, ret\<lparr>rt_Samples := Some (map hs_id (sr_Hashes result)), rt_Nodes := nodes,
                        rt_Num := Some (int (sr_TotalHashes result)),
                        rt_Interval := Some (rs_sampleInfoHashesInterval r)\<rparr>, None)))
           else Inr (t, ret, Some ErrMethodUnknown)))"

section \<open>The wrappers\<close>

text \<open>
  Token buckets: the state and one request.  The limiter asks the bucket of the sender's address
  first and the common one only when that allows.
\<close>

record ('k, 'o) limiter =
  lm_keyed :: 'k
  lm_overall :: 'o

definition limiter_Allow ::
  "('k \<Rightarrow> string \<Rightarrow> bool \<times> 'k) \<Rightarrow> ('o \<Rightarrow> bool \<times> 'o) \<Rightarrow> renv \<Rightarrow> ('k, 'o) limiter \<Rightarrow> addr \<Rightarrow> bool \<times> ('k, 'o) limiter" where
  "limiter_Allow keyed_Allow Allow env l a =
     (let (ok, k) = keyed_Allow (lm_keyed l) (re_addr_String env a) in
      if \<not> ok then (False, l\<lparr>lm_keyed := k\<rparr>)
      else let (ok', ov) = Allow (lm_overall l) in (ok', l\<lparr>lm_keyed := k, lm_overall := ov\<rparr>))"

definition normalizeQuery :: "string \<Rightarrow> string" where
  "normalizeQuery q =
     (if q = QPing then QPing
      else if q = QFindNode then QFindNode
      else if q = QGetPeers then QGetPeers
      else if q = QSampleInfohashes then QSampleInfohashes
      else ''unknown'')"

record metrics =
  mt_success :: "string \<Rightarrow> nat"
  mt_error :: "string \<Rightarrow> nat"
  mt_concurrency :: "string \<Rightarrow> int"

record ('k, 'o) responder_state =
  st_table :: table
  st_limiter :: "('k, 'o) limiter"
  st_metrics :: metrics

definition responderLimiter_Respond ::
  "('k \<Rightarrow> string \<Rightarrow> bool \<times> 'k) \<Rightarrow> ('o \<Rightarrow> bool \<times> 'o) \<Rightarrow> renv \<Rightarrow> responder \<Rightarrow> RecvMsg \<Rightarrow> ('k, 'o) responder_state \<Rightarrow>
   (('k, 'o) responder_state \<times> Return \<times> Error option) res" where
  "responderLimiter_Respond keyed_Allow Allow env r msg st =
     (let (ok, l) = limiter_Allow keyed_Allow Allow env (st_limiter st) (ap_addr (rm_From msg));
          st1 = st\<lparr>st_limiter := l\<rparr> in
      if \<not> ok then Inr (st1, Return_zero, Some ErrTooManyRequests)
      else res_bind (Respond env r msg (st_table st1)) (\<lambda>(t, ret, err). Inr (st1\<lparr>st_table := t\<rparr>, ret, err)))"

definition prometheusCollector_Respond ::
  "('k \<Rightarrow> string \<Rightarrow> bool \<times> 'k) \<Rightarrow> ('o \<Rightarrow> bool \<times> 'o) \<Rightarrow> renv \<Rightarrow> responder \<Rightarrow> RecvMsg \<Rightarrow> ('k, 'o) responder_state \<Rightarrow>
   (('k, 'o) responder_state \<times> Return \<times> Error option) res" where
  "prometheusCollector_Respond keyed_Allow Allow env r msg st =
     (let l = normalizeQuery (mg_Q (rm_Msg msg));
          m = st_metrics st;
          st1 = st\<lparr>st_metrics := m\<lparr>mt_concurrency := (mt_concurrency m)(l := mt_concurrency m l + 1)\<rparr>\<rparr> in
      res_bind (responderLimiter_Respond keyed_Allow Allow env r msg st1) (\<lambda>(st2, ret, err).
        let m2 = st_metrics st2;
            m3 = m2\<lparr>mt_concurrency := (mt_concurrency m2)(l := mt_concurrency m2 l - 1)\<rparr>;
            m4 = (case err of
                    None \<Rightarrow> m3\<lparr>mt_success := (mt_success m3)(l := mt_success m3 l + 1)\<rparr>
                  | Some _ \<Rightarrow> m3\<lparr>mt_error := (mt_error m3)(l := mt_error m3 l + 1)\<rparr>) in
        Inr (st2\<lparr>st_metrics := m4\<rparr>, ret, err)))"

text \<open>
  The outermost wrapper.  The last component is the node it offers to the crawler (by a goroutine
  that gives up after a second); a missing argument record would be dereferenced there.
\<close>

definition responderNodeDiscovery_Respond ::
  "('k \<Rightarrow> string \<Rightarrow> bool \<times> 'k) \<Rightarrow> ('o \<Rightarrow> bool \<times> 'o) \<Rightarrow> renv \<Rightarrow> responder \<Rightarrow> RecvMsg \<Rightarrow> ('k, 'o) responder_state \<Rightarrow>
   (('k, 'o) responder_state \<times> Return \<times> Error option \<times> (ID \<times> addr_port) option) res" where
  "responderNodeDiscovery_Respond keyed_Allow Allow env r msg st =
     res_bind (prometheusCollector_Respond keyed_Allow Allow env r msg st) (\<lambda>(st', ret, err).
       if err = None \<and> \<not> mg_ReadOnly (rm_Msg msg) then
         (case mg_A (rm_Msg msg) of
            None \<Rightarrow> Inl nil_dereference
          | Some args \<Rightarrow> Inr (st', ret, err, Some (ma_ID args, rm_From msg)))
       else Inr (st', ret, err, None))"

section \<open>The responder never panics\<close>

text \<open>Identifiers are 20-byte arrays by their Go type; the orders are walks of the maps.\<close>

definition wf_msg :: "RecvMsg \<Rightarrow> bool" where
  "wf_msg msg \<longleftrightarrow> (case mg_A (rm_Msg msg) of None \<Rightarrow> True
     | Some args \<Rightarrow> wf_ID (ma_ID args) \<and> wf_ID (ma_InfoHash args) \<and> wf_ID (ma_Target args))"

definition wf_env :: "renv \<Rightarrow> table \<Rightarrow> bool" where
  "wf_env env t \<longleftrightarrow> map_order (ks_items (tb_hashes t)) (re_hash_order env) \<and>
     map_order (ks_items (tb_nodes t)) (re_node_order env) \<and>
     (\<forall>h \<in> ran (ks_items (tb_hashes t)). map_order (hs_peers h) (re_peers_order env h))"

lemma nodeInfos_ok [simp]:
  "nodeInfosFromNodes (map Some ns) =
     Inr (map (\<lambda>n. \<lparr>ni_ID = nd_id n, ni_Addr = NewNodeAddrFromAddrPort (nd_addr n)\<rparr>) ns)"
proof -
  have "nodeInfosFromNodes (map Some ns) =
      Inr (map (\<lambda>n. \<lparr>ni_ID = nd_id (the n), ni_Addr = NewNodeAddrFromAddrPort (nd_addr (the n))\<rparr>) (map Some ns))"
    unfolding nodeInfosFromNodes_def by (rule res_map_total) (auto simp: nodeInfoFromNode_def)
  then show ?thesis by simp
qed

lemma closest_total:
  assumes "table_ok t" "wf_ID i"
  shows "\<exists>ns. GetClosestPeers i t = Inr (map Some ns) \<and> set ns \<subseteq> ran (ks_items (tb_nodes t))"
proof -
  obtain ns where "ks_getClosest tree_ops (tb_nodes t) i = Inr (map Some ns)"
    "\<forall>n \<in> set ns. ks_items (tb_nodes t) (nd_id n) = Some n"
    using node_ks.closest_outcome [of undefined "tb_nodes t" i] table_okD(1) [OF assms(1)] assms(2) by auto
  then show ?thesis by (auto simp: GetClosestPeers_def ran_def)
qed

lemma GetHash_total:
  assumes "table_ok t" "wf_ID i"
  shows "\<exists>r ns. GetHashOrClosestNodes i t = Inr r \<and> gh_ClosestNodes r = map Some ns \<and>
     gh_Hash r = ks_items (tb_hashes t) i \<and> gh_Found r = (ks_items (tb_hashes t) i \<noteq> None)"
  using closest_total [OF assms]
  by (cases "ks_items (tb_hashes t) i")
    (auto simp: GetHashOrClosestNodes_def ks_get_def GetClosestPeers_def)

lemma announce_reach:
  assumes "table_reach org t" "wf_ID org" "wf_ID i"
  shows "\<exists>t'. BatchCommand now [PutHash i ps] t = Inr t' \<and> table_reach org t'"
  using BatchCommand_ok [OF table_reach_ok [OF assms(1,2)], of "[PutHash i ps]" now] assms(3)
    table_reach.batch [OF assms(1), of "[PutHash i ps]" now] by auto

lemma Q_distinct:
  "QPing \<noteq> QFindNode" "QPing \<noteq> QGetPeers" "QPing \<noteq> QAnnouncePeer" "QPing \<noteq> QSampleInfohashes"
  "QFindNode \<noteq> QGetPeers" "QFindNode \<noteq> QAnnouncePeer" "QFindNode \<noteq> QSampleInfohashes"
  "QGetPeers \<noteq> QAnnouncePeer" "QGetPeers \<noteq> QSampleInfohashes" "QAnnouncePeer \<noteq> QSampleInfohashes"
  by (simp_all add: QPing_def QFindNode_def QGetPeers_def QAnnouncePeer_def QSampleInfohashes_def)

lemma sample_total:
  assumes "table_ok t" "wf_env env t"
  shows "\<exists>r. SampleHashesAndNodes (re_hash_order env) (re_node_order env) t = Inr r"
proof -
  note ok = table_okD [OF assms(1)]
  obtain hs where hs: "ks_getRandom (tb_hashes t) (re_hash_order env) 20 = Inr hs" "length hs \<le> 20"
    using hash_ks.getRandom_outcome [of undefined "tb_hashes t" "re_hash_order env" 20] ok(2) assms(2)
    by (auto simp: wf_env_def)
  then obtain ns where "ks_getRandom (tb_nodes t) (re_node_order env) (20 + (20 - int (length hs))) = Inr ns"
    using node_ks.getRandom_outcome [of undefined "tb_nodes t" "re_node_order env" "20 + (20 - int (length hs))"]
      ok(1) assms(2) by (auto simp: wf_env_def)
  with hs(1) show ?thesis by (simp add: SampleHashesAndNodes_def)
qed

lemma Respond_total:
  assumes reach: "table_reach org t" and org: "wf_ID org" and msg: "wf_msg msg" and env: "wf_env env t"
  shows "\<exists>t' ret err. Respond env r msg t = Inr (t', ret, err) \<and> table_reach org t' \<and>
     (mg_Q (rm_Msg msg) \<noteq> QAnnouncePeer \<or> err \<noteq> None \<longrightarrow> t' = t) \<and>
     (err = None \<longrightarrow> mg_A (rm_Msg msg) \<noteq> None \<and> rt_ID ret = rs_nodeID r)"
proof (cases "mg_A (rm_Msg msg)")
  case None
  then show ?thesis using reach by (simp add: Respond_def)
next
  case (Some args)
  have ok: "table_ok t" using table_reach_ok [OF reach org] .
  have wf: "wf_ID (ma_InfoHash args)" "wf_ID (ma_Target args)" using msg Some by (simp_all add: wf_msg_def)
  obtain ns where find: "GetClosestPeers (ma_Target args) t = Inr (map Some ns)"
    using closest_total [OF ok wf(2)] by blast
  obtain rg ns' where get: "GetHashOrClosestNodes (ma_InfoHash args) t = Inr rg" "gh_ClosestNodes rg = map Some ns'"
    "gh_Found rg = (gh_Hash rg \<noteq> None)"
    using GetHash_total [OF ok wf(1)] by auto
  obtain t' where ann: "BatchCommand (re_now env)
      [PutHash (ma_InfoHash args) [\<lparr>hp_Addr = AddrPortFrom (ap_addr (rm_From msg)) (AnnouncePort msg)\<rparr>]] t = Inr t'"
    "table_reach org t'"
    using announce_reach [OF reach org wf(1)] by blast
  obtain rs where samp: "SampleHashesAndNodes (re_hash_order env) (re_node_order env) t = Inr rs"
    using sample_total [OF ok env] by blast
  consider "mg_Q (rm_Msg msg) = QPing" | "mg_Q (rm_Msg msg) = QFindNode" | "mg_Q (rm_Msg msg) = QGetPeers"
    | "mg_Q (rm_Msg msg) = QAnnouncePeer" | "mg_Q (rm_Msg msg) = QSampleInfohashes"
    | "mg_Q (rm_Msg msg) \<notin> {QPing, QFindNode, QGetPeers, QAnnouncePeer, QSampleInfohashes}" by blast
  then show ?thesis
  proof cases
    case 3
    then show ?thesis using Some get reach Q_distinct
      by (cases "gh_Hash rg") (auto simp: Respond_def Let_def simp del: BatchCommand.simps)
  next
    case 4
    then show ?thesis using Some ann reach Q_distinct by (simp add: Respond_def Let_def del: BatchCommand.simps)
  qed (use Some find samp reach Q_distinct in \<open>simp_all add: Respond_def Let_def del: BatchCommand.simps\<close>)
qed

lemma put_peers_single: "fst (put_peers i [p] s) (ap_addr (hp_Addr p)) = Some p"
  by (simp add: put_peers_Cons)

lemma PutHash_stores:
  assumes "table_ok t" "wf_ID i" "BatchCommand now [PutHash i [p]] t = Inr t'" "ks_items (tb_hashes t') i = Some h"
  shows "hs_peers h (ap_addr (hp_Addr p)) = Some p"
  using assms(1,2)
proof (cases rule: PutHash_outcome [where ps = "[p]" and now = now])
  case (stored h' k rm r)
  then have "t' = t\<lparr>tb_hashes := k, tb_addrs := rm\<rparr>" using assms(3) by simp
  then have "h = h'" using assms(4) stored(4) by simp
  moreover have "hs_peers h' = fst (put_peers i [p]
      (case ks_items (tb_hashes t) i of None \<Rightarrow> Map.empty | Some h' \<Rightarrow> hs_peers h', tb_addrs t))"
    using stored(6) by (metis fst_conv)
  ultimately show ?thesis using put_peers_single by simp
next
  case (rejected k)
  then show ?thesis using assms(3,4) by auto
qed

lemma hash_Peers_set: "map_order (hs_peers h) order \<Longrightarrow> set (hash_Peers h order) = ran (hs_peers h)"
  unfolding hash_Peers_def by (rule map_filter_order)

lemma get_peers_values:
  assumes "table_ok t" "mg_A (rm_Msg g) = Some ga" "mg_Q (rm_Msg g) = QGetPeers" "ma_InfoHash ga \<noteq> ID_zero"
    "ks_items (tb_hashes t) (ma_InfoHash ga) = Some h" "map_order (hs_peers h) (re_peers_order env h)"
  shows "\<exists>ret. Respond env r g t = Inr (t, ret, None) \<and>
     set (rt_Values ret) = (\<lambda>p. NewNodeAddrFromAddrPort (hp_Addr p)) ` ran (hs_peers h)"
  using assms hash_Peers_set [OF assms(6)] Q_distinct nodeInfos_ok [of "[]"]
  by (simp add: Respond_def Let_def GetHashOrClosestNodes_def ks_get_def)

lemma get_peers_token:
  assumes "table_ok t" "mg_A (rm_Msg g) = Some ga" "mg_Q (rm_Msg g) = QGetPeers" "ma_InfoHash ga \<noteq> ID_zero"
    "wf_ID (ma_InfoHash ga)"
  shows "\<exists>ret. Respond env r g t = Inr (t, ret, None) \<and>
     rt_Token ret = Some (announceToken env r (ma_InfoHash ga) (ma_ID ga) (ap_addr (rm_From g)))"
  using assms GetHash_total [OF assms(1,5)] Q_distinct by (auto simp: Respond_def Let_def)

text \<open>Concrete inputs for the instances below.\<close>

definition demo_env :: renv where
  "demo_env = \<lparr>re_md5 = \<lambda>_. replicate 16 0, re_addr_String = \<lambda>_. ''a'', re_now = 5, re_hash_order = [],
     re_node_order = [], re_peers_order = \<lambda>_. []\<rparr>"

definition demo_responder :: responder where
  "demo_responder = \<lparr>rs_nodeID = replicate 20 0, rs_tokenSecret = [1], rs_sampleInfoHashesInterval = 10\<rparr>"

definition demo_args :: "string \<Rightarrow> MsgArgs" where
  "demo_args token = \<lparr>ma_ID = replicate 20 9, ma_InfoHash = replicate 20 7, ma_Target = replicate 20 0, ma_Token = token,
     ma_Port = None, ma_ImpliedPort = False, ma_Scrape = 0\<rparr>"

definition demo_msg :: "string \<Rightarrow> MsgArgs \<Rightarrow> RecvMsg" where
  "demo_msg q args = \<lparr>rm_Msg = \<lparr>mg_Q = q, mg_A = Some args, mg_T = ''t'', mg_Y = YQuery, mg_R = None, mg_E = None,
       mg_IP = None, mg_ReadOnly = False\<rparr>,
     rm_From = \<lparr>ap_addr = Addr4 [1, 2, 3, 4], ap_port = 6881\<rparr>\<rparr>"

lemma demo_wf:
  "wf_ID (replicate 20 0)" "wf_msg (demo_msg q (demo_args token))" "wf_env demo_env (newTable (replicate 20 0))"
  by (simp_all add: demo_msg_def demo_args_def demo_env_def wf_msg_def wf_env_def wf_ID_def map_order_def newTable_def
      patch_keyspace_def newKeyspace_def)

section \<open>Properties of the responder\<close>





text \<open>
  Refusals leave the table alone: a message without arguments, a \<open>find_node\<close> without target,
  a \<open>get_peers\<close> or \<open>announce_peer\<close> without hash, an \<open>announce_peer\<close> whose token is not the one for
  the sender, and an unknown method get the protocol error of their kind and change nothing.
\<close>

theorem Respond_refusals:
  "(mg_A (rm_Msg msg) = None \<longrightarrow> Respond env r msg t = Inr (t, Return_zero, Some ErrMissingArguments)) \<and>
   (\<forall>args. mg_A (rm_Msg msg) = Some args \<longrightarrow>
      (mg_Q (rm_Msg msg) = QFindNode \<and> ma_Target args = ID_zero \<or>
       mg_Q (rm_Msg msg) \<in> {QGetPeers, QAnnouncePeer} \<and> ma_InfoHash args = ID_zero \<longrightarrow>
         Respond env r msg t = Inr (t, Return_zero\<lparr>rt_ID := rs_nodeID r\<rparr>, Some ErrMissingArguments)) \<and>
      (mg_Q (rm_Msg msg) = QAnnouncePeer \<and> ma_InfoHash args \<noteq> ID_zero \<and>
       ma_Token args \<noteq> announceToken env r (ma_InfoHash args) (ma_ID args) (ap_addr (rm_From msg)) \<longrightarrow>
         Respond env r msg t = Inr (t, Return_zero\<lparr>rt_ID := rs_nodeID r\<rparr>, Some ErrInvalidToken)) \<and>
      (mg_Q (rm_Msg msg) \<notin> {QPing, QFindNode, QGetPeers, QAnnouncePeer, QSampleInfohashes} \<longrightarrow>
         Respond env r msg t = Inr (t, Return_zero\<lparr>rt_ID := rs_nodeID r\<rparr>, Some ErrMethodUnknown)))"
  using Q_distinct by (auto simp: Respond_def Let_def)

theorem Respond_refusals_witness:
  "Respond demo_env demo_responder (demo_msg ''vote'' (demo_args [])) (newTable (replicate 20 0)) =
     Inr (newTable (replicate 20 0), Return_zero\<lparr>rt_ID := replicate 20 0\<rparr>, Some ErrMethodUnknown)"
  using Respond_refusals [of "demo_msg ''vote'' (demo_args [])" demo_env demo_responder "newTable (replicate 20 0)"]
  by (simp add: demo_msg_def demo_responder_def QPing_def QFindNode_def QGetPeers_def QAnnouncePeer_def
      QSampleInfohashes_def)



end
