(* ===== verification/DhtServer.thy ===== *)
theory DhtServer
  imports Responder
begin

text \<open>
  The DHT server (\<open>src/internal/protocol/dht/server\<close>): the issuer of transaction identifiers
  (\<open>id_issuer.go\<close>), the calls in flight and the dispatch of packets (\<open>server.go\<close>), the health record
  (\<open>health_collector.go\<close>) with the check that reads it
  (\<open>dhtcrawler/dhtcrawlerhealthcheck/check.go\<close>), and the client built on the server
  (\<open>client/server_adapter.go\<close>) with its error classes (\<open>client/prometheus_collector.go\<close>).

  A call to \<open>Query\<close> and a goroutine running \<open>handleResponse\<close> interleave; they are the steps of a
  transition relation, one per critical section or channel operation.  Sockets and timers
  appear as steps that may happen at any time.
\<close>

section \<open>Transaction identifiers (\<open>id_issuer.go\<close>)\<close>

text \<open>\<open>binary.PutUvarint\<close>: seven bits per byte, least significant first.\<close>

function PutUvarint :: "nat \<Rightarrow> byte list" where
  "PutUvarint x = (if x \<ge> 0x80 then or (of_nat x) 0x80 # PutUvarint (x div 128) else [of_nat x])"
  by pat_completeness auto
termination
  by (relation "measure id") auto

declare PutUvarint.simps [simp del]

definition string_of_bytes :: "byte list \<Rightarrow> string" where
  "string_of_bytes b = map (\<lambda>x. char_of (unat x)) b"

record variantIDIssuer =
  vi_next :: "64 word"

definition Issue :: "variantIDIssuer \<Rightarrow> variantIDIssuer \<times> string" where
  "Issue i = (i\<lparr>vi_next := vi_next i + 1\<rparr>, string_of_bytes (PutUvarint (unat (vi_next i))))"

section \<open>Errors\<close>

text \<open>
  The dynamic values of \<open>error\<close> that reach the client.  A pointer to a protocol error converted to
  an \<open>error\<close> is not the nil interface, even when the pointer is nil (\<open>ErrDHT None\<close>).
\<close>

datatype goerr = NoErr | ErrCanceled | ErrDeadline | ErrTimeout | ErrText string | ErrDHT "Error option"

text \<open>The text of an error; a nil protocol error is dereferenced.\<close>

fun goerr_Error :: "goerr \<Rightarrow> string res" where
  "goerr_Error NoErr = Inl nil_dereference"
| "goerr_Error (ErrDHT None) = Inl nil_dereference"
| "goerr_Error (ErrDHT (Some e)) = Inr (''KRPC error '' @ er_Msg e)"
| "goerr_Error (ErrText s) = Inr s"
| "goerr_Error ErrCanceled = Inr ''context canceled''"
| "goerr_Error ErrDeadline = Inr ''context deadline exceeded''"
| "goerr_Error ErrTimeout = Inr ''i/o timeout''"

section \<open>Queries and replies (\<open>server.go\<close>)\<close>

definition Msg_zero :: Msg where
  "Msg_zero = \<lparr>mg_Q = [], mg_A = None, mg_T = [], mg_Y = [], mg_R = None, mg_E = None, mg_IP = None,
     mg_ReadOnly = False\<rparr>"

text \<open>The message of a call, and what a call returns for the response it received.\<close>

definition query_msg :: "string \<Rightarrow> string \<Rightarrow> MsgArgs \<Rightarrow> Msg" where
  "query_msg transactionID q args = Msg_zero\<lparr>mg_Q := q, mg_T := transactionID, mg_A := Some args, mg_Y := YQuery\<rparr>"

definition query_result :: "RecvMsg \<Rightarrow> RecvMsg \<times> goerr" where
  "query_result res =
     (if mg_Y (rm_Msg res) = YError then
        (let err = ErrDHT (mg_E (rm_Msg res)) in
         (res, if err = NoErr then ErrText ''error missing from response'' else err))
      else if mg_R (rm_Msg res) = None then (res, ErrText ''return data missing from response'')
      else (res, NoErr))"

text \<open>The reply to an incoming query; a fault of the responder is a crash of the goroutine.\<close>

definition handleQuery_reply :: "RecvMsg \<Rightarrow> Return \<Rightarrow> Error option \<Rightarrow> Msg" where
  "handleQuery_reply msg ret retErr =
     (let res = Msg_zero\<lparr>mg_T := mg_T (rm_Msg msg), mg_Y := YResponse\<rparr> in
      case retErr of
        Some e \<Rightarrow> res\<lparr>mg_E := Some e\<rparr>
      | None \<Rightarrow> res\<lparr>mg_R := Some ret\<rparr>)"

definition handleQuery ::
  "('k \<Rightarrow> string \<Rightarrow> bool \<times> 'k) \<Rightarrow> ('o \<Rightarrow> bool \<times> 'o) \<Rightarrow> renv \<Rightarrow> responder \<Rightarrow> RecvMsg \<Rightarrow> ('k, 'o) responder_state \<Rightarrow>
   (('k, 'o) responder_state \<times> Msg \<times> (ID \<times> addr_port) option) res" where
  "handleQuery keyed_Allow Allow env r msg st =
     res_bind (responderNodeDiscovery_Respond keyed_Allow Allow env r msg st) (\<lambda>(st', ret, err, offered).
       Inr (st', handleQuery_reply msg ret err, offered))"

text \<open>What the read loop does with a decoded packet.\<close>

datatype dispatch = DispatchQuery | DispatchResponse | DispatchNone

definition read_dispatch :: "Msg \<Rightarrow> dispatch" where
  "read_dispatch msg =
     (if mg_Y msg = YQuery then DispatchQuery
      else if mg_Y msg = YResponse \<or> mg_Y msg = YError then DispatchResponse
      else DispatchNone)"

section \<open>Calls in flight\<close>

text \<open>
  A call is named by its number, which also names its channel (of capacity one).  \<open>sv_waiting\<close>
  are the calls blocked in \<open>select\<close>, \<open>sv_leaving\<close> those that have returned from it and have not yet
  run the deferred removal, \<open>sv_sending\<close> the goroutines of \<open>handleResponse\<close> that found a channel and
  have not yet put their message into it, \<open>sv_done\<close> the outcomes (\<open>None\<close> for a call that timed out
  or could not send).
\<close>

record server_state =
  sv_issuer :: variantIDIssuer
  sv_calls :: nat
  sv_queries :: "string \<rightharpoonup> nat"
  sv_chan :: "nat \<Rightarrow> RecvMsg list"
  sv_waiting :: "nat \<rightharpoonup> string"
  sv_leaving :: "nat \<rightharpoonup> string"
  sv_done :: "nat \<rightharpoonup> RecvMsg option"
  sv_sending :: "(nat \<times> RecvMsg) list"

definition server_init :: server_state where
  "server_init = \<lparr>sv_issuer = \<lparr>vi_next = 0\<rparr>, sv_calls = 0, sv_queries = Map.empty, sv_chan = (\<lambda>_. []),
     sv_waiting = Map.empty, sv_leaving = Map.empty, sv_done = Map.empty, sv_sending = []\<rparr>"

definition Query_begin :: "server_state \<Rightarrow> server_state" where
  "Query_begin s =
     (let (iss, transactionID) = Issue (sv_issuer s); c = sv_calls s in
      s\<lparr>sv_issuer := iss, sv_calls := c + 1, sv_queries := (sv_queries s)(transactionID \<mapsto> c),
        sv_chan := (sv_chan s)(c := []), sv_waiting := (sv_waiting s)(c \<mapsto> transactionID)\<rparr>)"

definition handleResponse :: "RecvMsg \<Rightarrow> server_state \<Rightarrow> server_state" where
  "handleResponse msg s =
     (case sv_queries s (mg_T (rm_Msg msg)) of
        None \<Rightarrow> s
      | Some c \<Rightarrow> s\<lparr>sv_sending := sv_sending s @ [(c, msg)]\<rparr>)"

definition channel_send :: "nat \<times> RecvMsg \<Rightarrow> server_state \<Rightarrow> server_state" where
  "channel_send p s = s\<lparr>sv_chan := (sv_chan s)(fst p := [snd p]), sv_sending := remove1 p (sv_sending s)\<rparr>"

definition Query_receive :: "nat \<Rightarrow> string \<Rightarrow> RecvMsg \<Rightarrow> server_state \<Rightarrow> server_state" where
  "Query_receive c tid m s =
     s\<lparr>sv_chan := (sv_chan s)(c := []), sv_waiting := (sv_waiting s)(c := None),
       sv_leaving := (sv_leaving s)(c \<mapsto> tid), sv_done := (sv_done s)(c \<mapsto> Some m)\<rparr>"

definition Query_abort :: "nat \<Rightarrow> string \<Rightarrow> server_state \<Rightarrow> server_state" where
  "Query_abort c tid s =
     s\<lparr>sv_waiting := (sv_waiting s)(c := None), sv_leaving := (sv_leaving s)(c \<mapsto> tid),
       sv_done := (sv_done s)(c \<mapsto> None)\<rparr>"

definition Query_end :: "nat \<Rightarrow> string \<Rightarrow> server_state \<Rightarrow> server_state" where
  "Query_end c tid s = s\<lparr>sv_queries := (sv_queries s)(tid := None), sv_leaving := (sv_leaving s)(c := None)\<rparr>"

inductive server_step :: "server_state \<Rightarrow> server_state \<Rightarrow> bool" where
  call: "server_step s (Query_begin s)"
| response: "server_step s (handleResponse msg s)"
| send: "p \<in> set (sv_sending s) \<Longrightarrow> sv_chan s (fst p) = [] \<Longrightarrow> server_step s (channel_send p s)"
| receive: "sv_waiting s c = Some tid \<Longrightarrow> sv_chan s c = [m] \<Longrightarrow> server_step s (Query_receive c tid m s)"
| abort: "sv_waiting s c = Some tid \<Longrightarrow> server_step s (Query_abort c tid s)"
| finish: "sv_leaving s c = Some tid \<Longrightarrow> server_step s (Query_end c tid s)"

inductive_cases server_stepE: "server_step s s'"

abbreviation server_reach :: "server_state \<Rightarrow> bool" where
  "server_reach s \<equiv> server_step\<^sup>*\<^sup>* server_init s"

section \<open>Health (\<open>health_collector.go\<close>, \<open>dhtcrawlerhealthcheck/check.go\<close>)\<close>

record LastResponses =
  lr_StartTime :: time
  lr_LastSuccess :: time
  lr_LastResponse :: time

definition healthCollector_start :: "time \<Rightarrow> bool \<Rightarrow> LastResponses \<Rightarrow> LastResponses" where
  "healthCollector_start now started lr = (if started then lr\<lparr>lr_StartTime := now\<rparr> else lr)"

definition healthCollector_stop :: "LastResponses \<Rightarrow> LastResponses" where
  "healthCollector_stop lr = \<lparr>lr_StartTime = 0, lr_LastSuccess = 0, lr_LastResponse = 0\<rparr>"

definition healthCollector_Query :: "time \<Rightarrow> goerr \<Rightarrow> LastResponses \<Rightarrow> LastResponses" where
  "healthCollector_Query now err lr =
     (let lr1 = lr\<lparr>lr_LastResponse := now\<rparr> in
      if err = NoErr then lr1\<lparr>lr_LastSuccess := lr_LastResponse lr1\<rparr> else lr1)"

definition dht_Check :: "time \<Rightarrow> LastResponses \<Rightarrow> string option" where
  "dht_Check now lr =
     (if lr_StartTime lr = 0 then None
      else if lr_LastSuccess lr = 0 then
        (if now - lr_StartTime lr < 30 * Second then None else Some ''no response within 30 seconds'')
      else if now - lr_LastSuccess lr > Minute then Some ''no successful responses within last minute''
      else None)"

section \<open>The client (\<open>client/server_adapter.go\<close>)\<close>

text \<open>Every method works on what \<open>Query\<close> returned; \<open>res.Msg.R\<close> is dereferenced without a check.\<close>

definition with_return :: "RecvMsg \<Rightarrow> (Return \<Rightarrow> 'a res) \<Rightarrow> 'a res" where
  "with_return res f = (case mg_R (rm_Msg res) of None \<Rightarrow> Inl nil_dereference | Some r \<Rightarrow> f r)"

record client_NodeInfo =
  cn_ID :: ID
  cn_Addr :: addr_port

record PingResult =
  pr_ID :: ID
  pr_ReadOnly :: bool

record FindNodeResult =
  fr_ID :: ID
  fr_Nodes :: "client_NodeInfo list"
  fr_ReadOnly :: bool

record GetPeersResult =
  gp_ID :: ID
  gp_Values :: "addr_port list"
  gp_Nodes :: "client_NodeInfo list"
  gp_ReadOnly :: bool

record 'b GetPeersScrapeResult =
  gs_ID :: ID
  gs_Values :: "addr_port list"
  gs_Nodes :: "client_NodeInfo list"
  gs_BfPeers :: 'b
  gs_BfSeeders :: 'b
  gs_ReadOnly :: bool

record SampleInfoHashesResult =
  si_ID :: ID
  si_Samples :: "ID list"
  si_Nodes :: "client_NodeInfo list"
  si_Num :: int
  si_Interval :: int
  si_ReadOnly :: bool

definition extractNodes :: "Return \<Rightarrow> client_NodeInfo list" where
  "extractNodes r = map (\<lambda>n. \<lparr>cn_ID = ni_ID n, cn_Addr = NodeAddr_ToAddrPort (ni_Addr n)\<rparr>) (rt_Nodes r)"

definition extractValues :: "Return \<Rightarrow> addr_port list" where
  "extractValues r = map NodeAddr_ToAddrPort (rt_Values r)"

definition client_Ping :: "RecvMsg \<times> goerr \<Rightarrow> (goerr + PingResult) res" where
  "client_Ping q =
     (if snd q \<noteq> NoErr then Inr (Inl (snd q))
      else with_return (fst q) (\<lambda>r. Inr (Inr \<lparr>pr_ID = rt_ID r, pr_ReadOnly = mg_ReadOnly (rm_Msg (fst q))\<rparr>)))"

definition client_FindNode :: "RecvMsg \<times> goerr \<Rightarrow> (goerr + FindNodeResult) res" where
  "client_FindNode q =
     (if snd q \<noteq> NoErr then Inr (Inl (snd q))
      else with_return (fst q) (\<lambda>r. Inr (Inr \<lparr>fr_ID = rt_ID r, fr_Nodes = extractNodes r,
             fr_ReadOnly = mg_ReadOnly (rm_Msg (fst q))\<rparr>)))"

definition client_GetPeers :: "RecvMsg \<times> goerr \<Rightarrow> (goerr + GetPeersResult) res" where
  "client_GetPeers q =
     (if snd q \<noteq> NoErr then Inr (Inl (snd q))
      else with_return (fst q) (\<lambda>r. Inr (Inr \<lparr>gp_ID = rt_ID r, gp_Values = extractValues r,
             gp_Nodes = extractNodes r, gp_ReadOnly = mg_ReadOnly (rm_Msg (fst q))\<rparr>)))"

text \<open>The conversion to the third-party Bloom filter is a parameter.\<close>

definition client_GetPeersScrape ::
  "(ScrapeBloomFilter \<Rightarrow> 'b) \<Rightarrow> RecvMsg \<times> goerr \<Rightarrow> (goerr + 'b GetPeersScrapeResult) res" where
  "client_GetPeersScrape ToBloomFilter q =
     (if snd q \<noteq> NoErr then Inr (Inl (snd q))
      else with_return (fst q) (\<lambda>r.
        case (rt_BFpe r, rt_BFsd r) of
          (Some pe, Some sd) \<Rightarrow> Inr (Inr \<lparr>gs_ID = rt_ID r, gs_Values = extractValues r, gs_Nodes = extractNodes r,
             gs_BfPeers = ToBloomFilter pe, gs_BfSeeders = ToBloomFilter sd,
             gs_ReadOnly = mg_ReadOnly (rm_Msg (fst q))\<rparr>)
        | _ \<Rightarrow> Inr (Inl (ErrText ''missing bloom filter in scrape response''))))"

definition client_SampleInfoHashes :: "RecvMsg \<times> goerr \<Rightarrow> (goerr + SampleInfoHashesResult) res" where
  "client_SampleInfoHashes q =
     (if snd q \<noteq> NoErr then Inr (Inl (snd q))
      else with_return (fst q) (\<lambda>r. Inr (Inr
        \<lparr>si_ID = rt_ID r,
         si_Samples = (case rt_Samples r of None \<Rightarrow> [] | Some s \<Rightarrow> s),
         si_Nodes = extractNodes r,
         si_Num = (case rt_Num r of None \<Rightarrow> 0 | Some n \<Rightarrow> n),
         si_Interval = (case rt_Interval r of None \<Rightarrow> 0 | Some n \<Rightarrow> n),
         si_ReadOnly = mg_ReadOnly (rm_Msg (fst q))\<rparr>)))"

text \<open>The class of an error; every error has a text, so the last class is never reached.\<close>

definition classifyError :: "goerr \<Rightarrow> string" where
  "classifyError err =
     (case err of
        NoErr \<Rightarrow> ''''
      | ErrCanceled \<Rightarrow> ''canceled''
      | ErrDeadline \<Rightarrow> ''timeout''
      | ErrDHT _ \<Rightarrow> ''krpc''
      | ErrTimeout \<Rightarrow> ''timeout''
      | ErrText _ \<Rightarrow> ''network'')"

section \<open>Transaction identifiers are distinct\<close>

fun uvarint_value :: "byte list \<Rightarrow> nat" where
  "uvarint_value [] = 0"
| "uvarint_value (b # bs) = unat (take_bit 7 b) + 128 * uvarint_value bs"

lemma take_bit_7_of_nat: "unat (take_bit 7 (of_nat x :: byte)) = x mod 128"
proof -
  have "unat (take_bit 7 (of_nat x :: byte)) = take_bit 7 (unat (of_nat x :: byte))"
    by (simp only: unsigned_take_bit_eq)
  also have "\<dots> = (x mod 256) mod 128" by (simp add: take_bit_eq_mod unat_of_nat)
  also have "\<dots> = x mod 128" by (simp add: mod_mod_cancel)
  finally show ?thesis .
qed

lemma uvarint_value_Put: "uvarint_value (PutUvarint x) = x"
proof (induction x rule: PutUvarint.induct)
  case (1 x)
  have "take_bit 7 (or (of_nat x) 0x80 :: byte) = take_bit 7 (of_nat x)"
    by (simp add: take_bit_or)
  then show ?case
    using 1 by (subst PutUvarint.simps) (simp add: take_bit_7_of_nat)
qed

lemma char_of_unat_inject: "char_of (unat x) = (char_of (unat y) :: char) \<Longrightarrow> x = y" for x y :: byte
proof -
  assume "char_of (unat x) = (char_of (unat y) :: char)"
  then have "(of_char (char_of (unat x) :: char) :: nat) = of_char (char_of (unat y) :: char)" by (rule arg_cong)
  then have "unat x mod 256 = unat y mod 256" by (simp only: of_char_of)
  then show "x = y" using unat_byte_less [of x] unat_byte_less [of y] by (simp add: word_unat_eq_iff)
qed

lemma string_of_bytes_inject: "string_of_bytes a = string_of_bytes b \<longleftrightarrow> a = b"
proof -
  have "inj (\<lambda>x :: byte. char_of (unat x) :: char)" by (rule injI) (rule char_of_unat_inject)
  then show ?thesis by (simp add: string_of_bytes_def inj_map_eq_map)
qed

lemma length_PutUvarint: "x < 128 ^ Suc n \<Longrightarrow> length (PutUvarint x) \<le> Suc n"
proof (induction n arbitrary: x)
  case 0
  then show ?case by (subst PutUvarint.simps) simp
next
  case (Suc n)
  show ?case
  proof (cases "x \<ge> 128")
    case True
    have "x div 128 < 128 ^ Suc n" using Suc.prems by (simp add: less_mult_imp_div_less mult.commute)
    then show ?thesis using True Suc.IH by (subst PutUvarint.simps) simp
  qed (subst PutUvarint.simps, simp)
qed

definition tid_of :: "nat \<Rightarrow> string" where
  "tid_of c = string_of_bytes (PutUvarint (unat (of_nat c :: 64 word)))"

lemma tid_of_inject: "c < 2 ^ 64 \<Longrightarrow> d < 2 ^ 64 \<Longrightarrow> tid_of c = tid_of d \<longleftrightarrow> c = d"
proof
  assume c: "c < 2 ^ 64" "d < 2 ^ 64" and "tid_of c = tid_of d"
  then have "PutUvarint (unat (of_nat c :: 64 word)) = PutUvarint (unat (of_nat d :: 64 word))"
    by (simp only: tid_of_def string_of_bytes_inject)
  then have "unat (of_nat c :: 64 word) = unat (of_nat d :: 64 word)" by (metis uvarint_value_Put)
  then show "c = d" using c by (simp add: unat_of_nat)
qed simp

section \<open>Invariant of the calls in flight\<close>

text \<open>
  The numbering of calls, the messages on their way, and the registration of every call in progress.
\<close>

definition inv_calls :: "server_state \<Rightarrow> bool" where
  "inv_calls s \<longleftrightarrow> vi_next (sv_issuer s) = of_nat (sv_calls s) \<and>
     (\<forall>c tid. sv_waiting s c = Some tid \<longrightarrow> c < sv_calls s \<and> tid = tid_of c) \<and>
     (\<forall>c tid. sv_leaving s c = Some tid \<longrightarrow> c < sv_calls s \<and> tid = tid_of c \<and> sv_waiting s c = None) \<and>
     (\<forall>c tid. sv_queries s tid = Some c \<longrightarrow> tid = tid_of c \<and> (sv_waiting s c \<noteq> None \<or> sv_leaving s c \<noteq> None))"

definition inv_msgs :: "server_state \<Rightarrow> bool" where
  "inv_msgs s \<longleftrightarrow> (\<forall>c. \<forall>m \<in> set (sv_chan s c). mg_T (rm_Msg m) = tid_of c) \<and>
     (\<forall>p \<in> set (sv_sending s). mg_T (rm_Msg (snd p)) = tid_of (fst p)) \<and>
     (\<forall>c m. sv_done s c = Some (Some m) \<longrightarrow> mg_T (rm_Msg m) = tid_of c)"

definition inv_registered :: "server_state \<Rightarrow> bool" where
  "inv_registered s \<longleftrightarrow> (sv_calls s \<le> 2 ^ 64 \<longrightarrow>
     (\<forall>c. sv_waiting s c \<noteq> None \<or> sv_leaving s c \<noteq> None \<longrightarrow> sv_queries s (tid_of c) = Some c))"

lemmas server_step_defs = Query_begin_def Issue_def handleResponse_def channel_send_def Query_receive_def
  Query_abort_def Query_end_def

lemma Issue_tid: "vi_next i = of_nat c \<Longrightarrow> Issue i = (i\<lparr>vi_next := of_nat (Suc c)\<rparr>, tid_of c)"
  by (simp add: Issue_def tid_of_def add.commute)

lemma begin_eq:
  assumes "inv_calls s"
  shows "Query_begin s = s\<lparr>sv_issuer := (sv_issuer s)\<lparr>vi_next := of_nat (Suc (sv_calls s))\<rparr>, sv_calls := Suc (sv_calls s),
     sv_queries := (sv_queries s)(tid_of (sv_calls s) \<mapsto> sv_calls s), sv_chan := (sv_chan s)(sv_calls s := []),
     sv_waiting := (sv_waiting s)(sv_calls s \<mapsto> tid_of (sv_calls s))\<rparr>"
  using assms Issue_tid [of "sv_issuer s" "sv_calls s"] by (simp add: inv_calls_def Query_begin_def Let_def)

lemma inv_calls_step: "server_step s s' \<Longrightarrow> inv_calls s \<Longrightarrow> inv_calls s'"
proof (induction rule: server_step.induct)
  case (call s)
  then have "sv_leaving s (sv_calls s) = None" unfolding inv_calls_def by (metis less_irrefl option.exhaust)
  with call show ?case unfolding begin_eq [OF call] by (auto simp: inv_calls_def less_Suc_eq)
next
  case (response s msg)
  then show ?case by (auto simp: inv_calls_def handleResponse_def split: option.splits)
next
  case (send p s)
  then show ?case by (simp add: inv_calls_def channel_send_def)
next
  case (receive s c tid m)
  then show ?case by (auto simp: inv_calls_def Query_receive_def)
next
  case (abort s c tid)
  then show ?case by (auto simp: inv_calls_def Query_abort_def)
next
  case (finish s c tid)
  then have "tid = tid_of c" by (auto simp: inv_calls_def)
  moreover have "tid' = tid_of d" if "sv_queries s tid' = Some d" for tid' d
    using that finish(2) by (simp add: inv_calls_def)
  ultimately have other: "d \<noteq> c" if "sv_queries s tid' = Some d" "tid' \<noteq> tid" for tid' d using that by blast
  show ?case using finish(2) other by (auto simp: inv_calls_def Query_end_def)
qed

lemma inv_msgs_step: "server_step s s' \<Longrightarrow> inv_calls s \<Longrightarrow> inv_msgs s \<Longrightarrow> inv_msgs s'"
proof (induction rule: server_step.induct)
  case (call s)
  then show ?case unfolding begin_eq [OF call(1)] by (simp add: inv_msgs_def)
next
  case (response s msg)
  then show ?case by (auto simp: inv_msgs_def inv_calls_def handleResponse_def split: option.splits)
next
  case (send p s)
  then show ?case by (auto simp: inv_msgs_def channel_send_def dest: set_remove1_subset [THEN subsetD])
next
  case (receive s c tid m)
  then have "mg_T (rm_Msg m) = tid_of c" unfolding inv_msgs_def by (metis list.set_intros(1))
  with receive show ?case by (simp add: inv_msgs_def Query_receive_def)
next
  case (abort s c tid)
  then show ?case by (simp add: inv_msgs_def Query_abort_def)
next
  case (finish s c tid)
  then show ?case by (simp add: inv_msgs_def Query_end_def)
qed

lemma inv_registered_step: "server_step s s' \<Longrightarrow> inv_calls s \<Longrightarrow> inv_registered s \<Longrightarrow> inv_registered s'"
proof (induction rule: server_step.induct)
  case (call s)
  show ?case unfolding begin_eq [OF call(1)] inv_registered_def
  proof (intro impI allI)
    let ?s' = "s\<lparr>sv_issuer := (sv_issuer s)\<lparr>vi_next := of_nat (Suc (sv_calls s))\<rparr>, sv_calls := Suc (sv_calls s),
       sv_queries := (sv_queries s)(tid_of (sv_calls s) \<mapsto> sv_calls s), sv_chan := (sv_chan s)(sv_calls s := []),
       sv_waiting := (sv_waiting s)(sv_calls s \<mapsto> tid_of (sv_calls s))\<rparr>"
    fix c
    assume le: "sv_calls ?s' \<le> 2 ^ 64" and c: "sv_waiting ?s' c \<noteq> None \<or> sv_leaving ?s' c \<noteq> None"
    show "sv_queries ?s' (tid_of c) = Some c"
    proof (cases "c = sv_calls s")
      case False
      then have old: "sv_waiting s c \<noteq> None \<or> sv_leaving s c \<noteq> None" using c by simp
      then have "c < sv_calls s" using call(1) unfolding inv_calls_def by blast
      then have "tid_of c \<noteq> tid_of (sv_calls s)" using tid_of_inject [of c "sv_calls s"] le by simp
      then show ?thesis using old call(2) le by (auto simp: inv_registered_def)
    qed simp
  qed
next
  case (response s msg)
  then show ?case by (auto simp: inv_registered_def handleResponse_def split: option.splits)
next
  case (send p s)
  then show ?case by (simp add: inv_registered_def channel_send_def)
next
  case (receive s c tid m)
  then show ?case by (auto simp: inv_registered_def Query_receive_def)
next
  case (abort s c tid)
  then show ?case by (auto simp: inv_registered_def Query_abort_def)
next
  case (finish s c tid)
  have c: "c < sv_calls s" "tid = tid_of c" "sv_waiting s c = None" using finish(1,2) by (auto simp: inv_calls_def)
  have "tid_of d \<noteq> tid_of c" if "sv_calls s \<le> 2 ^ 64" "d \<noteq> c" "sv_waiting s d \<noteq> None \<or> sv_leaving s d \<noteq> None" for d
  proof -
    have "d < sv_calls s" using that(3) finish(2) unfolding inv_calls_def by blast
    then show ?thesis using tid_of_inject [of d c] c(1) that by simp
  qed
  then have "((sv_queries s)(tid := None)) (tid_of d) = Some d"
    if "sv_calls s \<le> 2 ^ 64" "d \<noteq> c" "sv_waiting s d \<noteq> None \<or> sv_leaving s d \<noteq> None" for d
    using that finish(3) c(2) unfolding inv_registered_def by auto
  note reg = this
  show ?case unfolding inv_registered_def
  proof (intro impI allI)
    fix d
    assume le: "sv_calls (Query_end c tid s) \<le> 2 ^ 64"
      and d: "sv_waiting (Query_end c tid s) d \<noteq> None \<or> sv_leaving (Query_end c tid s) d \<noteq> None"
    have "d \<noteq> c" using d c(3) by (auto simp: Query_end_def)
    moreover from this have "sv_waiting s d \<noteq> None \<or> sv_leaving s d \<noteq> None" using d by (simp add: Query_end_def)
    ultimately show "sv_queries (Query_end c tid s) (tid_of d) = Some d"
      using reg [of d] le by (simp add: Query_end_def)
  qed
qed

lemma server_reach_inv: "server_reach s \<Longrightarrow> inv_calls s \<and> inv_msgs s \<and> inv_registered s"
proof (induction rule: rtranclp_induct)
  case base
  show ?case by (simp add: inv_calls_def inv_msgs_def inv_registered_def server_init_def)
next
  case (step s s')
  then show ?case using inv_calls_step inv_msgs_step inv_registered_step by blast
qed

lemmas server_reach_facts = server_reach_inv [THEN conjunct1] server_reach_inv [THEN conjunct2, THEN conjunct1]
  server_reach_inv [THEN conjunct2, THEN conjunct2]

lemma Issue_length: "length (snd (Issue i)) \<le> 10"
proof -
  have "unat (vi_next i) < 2 ^ 64" using unsigned_less [of "vi_next i"] by simp
  also have "(2 :: nat) ^ 64 \<le> 128 ^ Suc 9" by simp
  finally have "length (PutUvarint (unat (vi_next i))) \<le> Suc 9" by (rule length_PutUvarint)
  then show ?thesis by (simp add: Issue_def string_of_bytes_def)
qed

lemma Issue_inject: "snd (Issue i) = snd (Issue j) \<Longrightarrow> vi_next i = vi_next j"
proof -
  assume "snd (Issue i) = snd (Issue j)"
  then have "PutUvarint (unat (vi_next i)) = PutUvarint (unat (vi_next j))"
    by (simp only: Issue_def snd_conv string_of_bytes_inject)
  then have "uvarint_value (PutUvarint (unat (vi_next i))) = uvarint_value (PutUvarint (unat (vi_next j)))"
    by (rule arg_cong)
  then show ?thesis by (simp only: uvarint_value_Put word_unat_eq_iff)
qed

lemma Issue_next: "vi_next (fst (Issue i)) = vi_next i + 1"
  by (simp add: Issue_def)

section \<open>Properties of the server\<close>

text \<open>
  Transaction identifiers: the issuer never overruns its ten-byte buffer, and any two of the
  first \<open>2 ^ 64\<close> identifiers differ, at every value of the wrapping counter.
\<close>

theorem Issue_distinct:
  "length (snd (Issue i)) \<le> 10 \<and>
   (vi_next i \<noteq> vi_next j \<longrightarrow> snd (Issue i) \<noteq> snd (Issue j)) \<and>
   vi_next (fst (Issue i)) = vi_next i + 1"
  using Issue_length [of i] Issue_inject [of i j] Issue_next [of i] by blast

theorem Issue_distinct_witness:
  "snd (Issue \<lparr>vi_next = 0\<rparr>) \<noteq> snd (Issue \<lparr>vi_next = 127\<rparr>)"
  using Issue_distinct [of "\<lparr>vi_next = 0\<rparr>" "\<lparr>vi_next = 127\<rparr>"] by simp

text \<open>
  C10. Correlation of responses, in every interleaving of calls, responses, timeouts and removals: a
  call only ever returns a message that carries its own transaction identifier; as long as the
  counter has not wrapped, every waiting call is registered under its identifier, so a
  response can reach it; and when no call is in progress the table of queries is empty.
\<close>

theorem server_correlates_responses:
  assumes "server_reach s"
  shows "(\<forall>c m. sv_done s c = Some (Some m) \<longrightarrow> mg_T (rm_Msg m) = tid_of c) \<and>
     (sv_calls s \<le> 2 ^ 64 \<longrightarrow> (\<forall>c tid. sv_waiting s c = Some tid \<longrightarrow> tid = tid_of c \<and> sv_queries s tid = Some c)) \<and>
     (sv_waiting s = Map.empty \<and> sv_leaving s = Map.empty \<longrightarrow> sv_queries s = Map.empty)"
proof -
  note inv = server_reach_facts [OF assms]
  have "sv_waiting s = Map.empty \<and> sv_leaving s = Map.empty \<longrightarrow> sv_queries s = Map.empty"
  proof (intro impI ext)
    fix tid
    assume "sv_waiting s = Map.empty \<and> sv_leaving s = Map.empty"
    then show "sv_queries s tid = None"
      using inv(1) unfolding inv_calls_def by (cases "sv_queries s tid") auto
  qed
  moreover have "tid = tid_of c \<and> sv_queries s tid = Some c"
    if "sv_calls s \<le> 2 ^ 64" "sv_waiting s c = Some tid" for c tid
  proof -
    have "tid = tid_of c" using inv(1) that(2) by (simp add: inv_calls_def)
    moreover have "sv_queries s (tid_of c) = Some c" using inv(3) that unfolding inv_registered_def by auto
    ultimately show ?thesis by simp
  qed
  ultimately show ?thesis using inv(2) unfolding inv_msgs_def by blast
qed

theorem server_correlates_responses_witness:
  "server_reach (Query_begin server_init) \<and> sv_waiting (Query_begin server_init) 0 = Some (tid_of 0) \<and>
   sv_queries (Query_begin server_init) (tid_of 0) = Some 0"
proof -
  have reach: "server_reach (Query_begin server_init)" by (rule r_into_rtranclp) (rule server_step.call)
  have waiting: "sv_waiting (Query_begin server_init) 0 = Some (tid_of 0)" "sv_calls (Query_begin server_init) \<le> 2 ^ 64"
    by (simp_all add: Query_begin_def server_init_def Issue_def tid_of_def)
  then show ?thesis using reach server_correlates_responses [OF reach] by blast
qed

text \<open>
  C24. Surplus responses leak goroutines: once a call has ended with a message left in its channel, a
  goroutine still sending to that channel is blocked in every later state, because nothing will ever
  receive from it again.
\<close>

theorem surplus_response_blocks_forever:
  assumes "server_step\<^sup>*\<^sup>* s s'" "c < sv_calls s" "sv_waiting s c = None" "sv_chan s c \<noteq> []" "(c, m) \<in> set (sv_sending s)"
  shows "(c, m) \<in> set (sv_sending s') \<and> sv_chan s' c = sv_chan s c"
proof -
  have "c < sv_calls s' \<and> sv_waiting s' c = None \<and> sv_chan s' c = sv_chan s c \<and> (c, m) \<in> set (sv_sending s')"
    using assms(1)
  proof (induction rule: rtranclp_induct)
    case base
    then show ?case using assms(2-5) by simp
  next
    case (step t t')
    from step(2) show ?case
    proof (cases rule: server_step.cases)
      case call
      then show ?thesis using step(3) by (simp add: Query_begin_def split_def Let_def)
    next
      case (response msg)
      then show ?thesis using step(3) by (auto simp: handleResponse_def split: option.splits)
    next
      case (send p)
      then have "fst p \<noteq> c" using step(3) assms(4) by auto
      moreover from this have "(c, m) \<noteq> p" by auto
      ultimately show ?thesis using send(1) step(3) by (simp add: channel_send_def in_set_remove1)
    next
      case (receive d tid n)
      then have "d \<noteq> c" using step(3) by auto
      then show ?thesis using receive(1) step(3) by (simp add: Query_receive_def)
    next
      case (abort d tid)
      then have "d \<noteq> c" using step(3) by auto
      then show ?thesis using abort(1) step(3) by (simp add: Query_abort_def)
    next
      case (finish d tid)
      then show ?thesis using step(3) by (simp add: Query_end_def)
    qed
  qed
  then show ?thesis by simp
qed

lemma steps_snoc: "server_step\<^sup>*\<^sup>* s t \<Longrightarrow> server_step t u \<Longrightarrow> server_step\<^sup>*\<^sup>* s u"
  by (rule rtranclp.rtrancl_into_rtrancl)

definition demo_response :: RecvMsg where
  "demo_response = \<lparr>rm_Msg = Msg_zero\<lparr>mg_T := tid_of 0, mg_Y := YResponse\<rparr>,
     rm_From = \<lparr>ap_addr = Addr4 [1, 2, 3, 4], ap_port = 6881\<rparr>\<rparr>"

theorem surplus_response_blocks_forever_witness:
  "\<exists>s. server_reach s \<and> (0, demo_response) \<in> set (sv_sending s) \<and> sv_queries s = Map.empty"
proof -
  define s1 where "s1 = handleResponse demo_response (handleResponse demo_response (Query_begin server_init))"
  define s2 where "s2 = Query_abort 0 (tid_of 0) (channel_send (0, demo_response) s1)"
  define s3 where "s3 = Query_end 0 (tid_of 0) s2"
  have tid: "string_of_bytes (PutUvarint 0) = tid_of 0" by (simp add: tid_of_def)
  note defs = s1_def s2_def Query_begin_def server_init_def Issue_def handleResponse_def demo_response_def
    channel_send_def Query_abort_def tid
  have "server_step\<^sup>*\<^sup>* server_init (Query_begin server_init)" by (rule r_into_rtranclp) (rule server_step.call)
  then have r1: "server_step\<^sup>*\<^sup>* server_init s1"
    unfolding s1_def by (rule steps_snoc [OF steps_snoc]) (rule server_step.response)+
  have w: "sv_waiting (channel_send (0, demo_response) s1) 0 = Some (tid_of 0)"
    "(0, demo_response) \<in> set (sv_sending s1)" "sv_chan s1 0 = []" by (simp_all add: defs)
  have r2: "server_step\<^sup>*\<^sup>* s1 s2"
  proof -
    have "server_step s1 (channel_send (0, demo_response) s1)" using server_step.send [OF w(2)] w(3) by simp
    then show ?thesis unfolding s2_def
      by (rule steps_snoc [OF r_into_rtranclp]) (rule server_step.abort [OF w(1)])
  qed
  have s2: "sv_waiting s2 0 = None" "sv_chan s2 0 \<noteq> []" "(0, demo_response) \<in> set (sv_sending s2)"
    "0 < sv_calls s2" "sv_leaving s2 0 = Some (tid_of 0)" by (simp_all add: defs)
  have r3: "server_step\<^sup>*\<^sup>* s2 s3" unfolding s3_def by (rule r_into_rtranclp) (rule server_step.finish [OF s2(5)])
  have "(0, demo_response) \<in> set (sv_sending s3)"
    using surplus_response_blocks_forever [OF r3 s2(4,1,2,3)] by blast
  moreover have "sv_queries s3 = Map.empty" by (simp add: s3_def Query_end_def defs)
  moreover have "server_reach s3" using rtranclp_trans [OF rtranclp_trans [OF r1 r2] r3] .
  ultimately show ?thesis by blast
qed

text \<open>
  An error response without an error body (\<open>y\<close> is \<open>e\<close>, no \<open>e\<close> entry) makes \<open>Query\<close> return a
  non-nil error that holds a nil pointer: the branch meant for this case is never taken, and asking
  the returned error for its text panics.
\<close>

theorem missing_error_body_is_typed_nil:
  assumes "mg_Y (rm_Msg res) = YError"
  shows "snd (query_result res) = ErrDHT (mg_E (rm_Msg res)) \<and>
     snd (query_result res) \<noteq> ErrText ''error missing from response'' \<and>
     (is_panic (goerr_Error (snd (query_result res))) \<longleftrightarrow> mg_E (rm_Msg res) = None)"
  using assms by (cases "mg_E (rm_Msg res)") (simp_all add: query_result_def is_panic_def)

theorem missing_error_body_is_typed_nil_witness:
  "is_panic (goerr_Error (snd (query_result (demo_response\<lparr>rm_Msg := Msg_zero\<lparr>mg_Y := YError\<rparr>\<rparr>))))"
  using missing_error_body_is_typed_nil [of "demo_response\<lparr>rm_Msg := Msg_zero\<lparr>mg_Y := YError\<rparr>\<rparr>"]
  by (simp add: Msg_zero_def)

text \<open>
  C26. Replies: the answer to a query echoes its transaction identifier and carries the return value
  on success.  A refusal is sent as a response (\<open>y\<close> is \<open>r\<close>) with the error attached, so a caller
  running this same code never sees the error: its call reports missing return data, classed as a
  network failure and not as a protocol error.
\<close>

theorem handleQuery_reply_received:
  assumes "rm_Msg res = handleQuery_reply msg ret retErr"
  shows "mg_T (rm_Msg res) = mg_T (rm_Msg msg) \<and> read_dispatch (rm_Msg res) = DispatchResponse \<and>
     (retErr = None \<longrightarrow> mg_R (rm_Msg res) = Some ret \<and> snd (query_result res) = NoErr) \<and>
     (retErr \<noteq> None \<longrightarrow> mg_E (rm_Msg res) = retErr \<and>
        snd (query_result res) = ErrText ''return data missing from response'' \<and>
        classifyError (snd (query_result res)) = ''network'')"
  using assms
  by (cases retErr)
    (simp_all add: handleQuery_reply_def query_result_def Msg_zero_def YResponse_def YError_def YQuery_def
      read_dispatch_def classifyError_def)

theorem handleQuery_reply_received_witness:
  "classifyError (snd (query_result (demo_response\<lparr>rm_Msg := handleQuery_reply demo_response Return_zero (Some ErrMethodUnknown)\<rparr>)))
     = ''network''"
proof -
  let ?res = "demo_response\<lparr>rm_Msg := handleQuery_reply demo_response Return_zero (Some ErrMethodUnknown)\<rparr>"
  have "rm_Msg ?res = handleQuery_reply demo_response Return_zero (Some ErrMethodUnknown)" by simp
  from handleQuery_reply_received [OF this] show ?thesis by blast
qed

text \<open>
  C27. The client never dereferences a missing return value: on every outcome of a call (a received
  message, or an error with an arbitrary message) each of its five methods returns normally, with
  the call's error exactly when the call failed.
\<close>

theorem client_never_panics:
  assumes "q = query_result res \<or> snd q \<noteq> NoErr"
  shows "is_ok (client_Ping q) \<and> is_ok (client_FindNode q) \<and> is_ok (client_GetPeers q) \<and>
     is_ok (client_GetPeersScrape conv q) \<and> is_ok (client_SampleInfoHashes q) \<and>
     (snd q \<noteq> NoErr \<longrightarrow> client_Ping q = Inr (Inl (snd q)))"
proof -
  have "snd q = NoErr \<Longrightarrow> mg_R (rm_Msg (fst q)) \<noteq> None"
    using assms by (auto simp: query_result_def split: if_splits)
  then show ?thesis
    by (auto simp: is_ok_def client_Ping_def client_FindNode_def client_GetPeers_def client_GetPeersScrape_def
        client_SampleInfoHashes_def with_return_def split: option.splits)
qed

theorem client_never_panics_witness:
  "is_ok (client_Ping (query_result demo_response))"
  using client_never_panics [of "query_result demo_response" demo_response id] by simp

text \<open>
  The health check: after the server has started at \<open>t0\<close> and its calls have ended at later
  times, the check reports an error exactly when there was no success for thirty seconds after
  the start, or none in the last minute once there was one; failed calls do not hide this.
\<close>

definition health_after :: "time \<Rightarrow> (time \<times> goerr) list \<Rightarrow> LastResponses" where
  "health_after t0 calls =
     fold (\<lambda>(now, err). healthCollector_Query now err) calls
       (healthCollector_start t0 True \<lparr>lr_StartTime = 0, lr_LastSuccess = 0, lr_LastResponse = 0\<rparr>)"

lemma health_fold:
  "lr_StartTime (fold (\<lambda>(now, err). healthCollector_Query now err) calls lr) = lr_StartTime lr"
  "lr_LastSuccess (fold (\<lambda>(now, err). healthCollector_Query now err) calls lr) =
     (case filter (\<lambda>(now, err). err = NoErr) (rev calls) of [] \<Rightarrow> lr_LastSuccess lr | (t, _) # _ \<Rightarrow> t)"
  by (induction calls arbitrary: lr)
    (auto simp: healthCollector_Query_def Let_def split: list.splits prod.splits)

theorem dht_Check_reports:
  assumes "0 < t0" "\<forall>(t, err) \<in> set calls. t0 \<le> t"
  shows "dht_Check now (health_after t0 calls) = (case filter (\<lambda>(t, err). err = NoErr) (rev calls) of
       [] \<Rightarrow> (if now - t0 < 30 * Second then None else Some ''no response within 30 seconds'')
     | (t, _) # _ \<Rightarrow> (if now - t > Minute then Some ''no successful responses within last minute'' else None))"
proof (cases "filter (\<lambda>(t, err). err = NoErr) (rev calls)")
  case Nil
  then show ?thesis
    using assms(1) by (simp add: dht_Check_def health_after_def health_fold healthCollector_start_def)
next
  case (Cons p ps)
  then have "p \<in> set calls" by (metis filter_is_subset list.set_intros(1) set_rev subsetD)
  then have "t0 \<le> fst p" using assms(2) by auto
  then show ?thesis
    using assms(1) Cons by (cases p) (simp add: dht_Check_def health_after_def health_fold healthCollector_start_def)
qed

theorem dht_Check_reports_witness:
  "dht_Check (100 * Second) (health_after (1 * Second) [(2 * Second, NoErr), (90 * Second, ErrDeadline)]) =
     Some ''no successful responses within last minute''"
  using dht_Check_reports [of "1 * Second" "[(2 * Second, NoErr), (90 * Second, ErrDeadline)]" "100 * Second"]
  by simp

end
