(* ===== verification/GoStrings.thy ===== *)
theory GoStrings
  imports Prelude
begin

text \<open>
  The part of Go's \<open>unicode/utf8\<close> and \<open>strings\<close> packages the components use. A Go string is a
  sequence of bytes, here a \<open>string\<close> of 8-bit characters; ranging over it decodes UTF-8, an
  invalid byte yielding the rune U+FFFD of width one.
\<close>

named_theorems str_simps "rewrite rules for Go strings"

section \<open>Runes\<close>

abbreviation code :: "char \<Rightarrow> nat" where "code c \<equiv> of_char c"

definition RuneError :: nat where "RuneError = 0xFFFD"

text \<open>\<open>utf8.DecodeRuneInString\<close>: the rune at the head of a string and its width.\<close>

definition cont :: "string \<Rightarrow> nat \<Rightarrow> nat \<Rightarrow> nat \<Rightarrow> bool" where
  "cont s i lo hi \<longleftrightarrow> i < length s \<and> lo \<le> code (s ! i) \<and> code (s ! i) \<le> hi"

definition second_lo :: "nat \<Rightarrow> nat" where
  "second_lo n = (if n = 0xE0 then 0xA0 else if n = 0xF0 then 0x90 else 0x80)"

definition second_hi :: "nat \<Rightarrow> nat" where
  "second_hi n = (if n = 0xED then 0x9F else if n = 0xF4 then 0x8F else 0xBF)"

definition tail6 :: "string \<Rightarrow> nat \<Rightarrow> nat" where
  "tail6 s i = code (s ! i) mod 64"

definition DecodeRune :: "string \<Rightarrow> nat \<times> nat" where
  "DecodeRune s =
     (if s = [] then (RuneError, 0)
      else let n = code (hd s) in
        if n < 0x80 then (n, 1)
        else if n < 0xC2 \<or> 0xF4 < n \<or> \<not> cont s 1 (second_lo n) (second_hi n) then (RuneError, 1)
        else if n < 0xE0 then (n mod 32 * 64 + tail6 s 1, 2)
        else if \<not> cont s 2 0x80 0xBF then (RuneError, 1)
        else if n < 0xF0 then ((n mod 16 * 64 + tail6 s 1) * 64 + tail6 s 2, 3)
        else if \<not> cont s 3 0x80 0xBF then (RuneError, 1)
        else (((n mod 8 * 64 + tail6 s 1) * 64 + tail6 s 2) * 64 + tail6 s 3, 4))"

lemma DecodeRune_width: "s \<noteq> [] \<Longrightarrow> 1 \<le> snd (DecodeRune s) \<and> snd (DecodeRune s) \<le> length s"
  by (auto simp: DecodeRune_def Let_def cont_def Suc_le_eq)

text \<open>The segments a \<open>range\<close> loop over a string visits: each rune with the bytes it came from.\<close>

function segs :: "string \<Rightarrow> (nat \<times> string) list" where
  "segs [] = []"
| "segs (c # cs) =
     (let s = c # cs; (r, w) = DecodeRune s in (r, take w s) # segs (drop w s))"
  by pat_completeness auto
termination
  apply (relation "measure length")
   apply simp
  subgoal for c cs s x r w
    using DecodeRune_width [of s] by (cases "DecodeRune s") auto
  done

declare segs.simps [simp del]

lemma segs_Nil [simp]: "segs [] = []"
  by (simp add: segs.simps)

lemma segs_step:
  "s \<noteq> [] \<Longrightarrow>
     segs s = (fst (DecodeRune s), take (snd (DecodeRune s)) s) # segs (drop (snd (DecodeRune s)) s)"
  by (cases s) (auto simp: segs.simps Let_def split: prod.splits)

definition runes :: "string \<Rightarrow> nat list" where
  "runes s = map fst (segs s)"

definition ValidString :: "string \<Rightarrow> bool" where
  "ValidString s = list_all (\<lambda>(r, b). \<not> (r = RuneError \<and> length b = 1)) (segs s)"

text \<open>Induction along the segments of a string.\<close>

lemma segs_induct [case_names Nil Step]:
  assumes "P []"
    and "\<And>s. s \<noteq> [] \<Longrightarrow> P (drop (snd (DecodeRune s)) s) \<Longrightarrow> P s"
  shows "P s"
proof (induction s rule: measure_induct_rule [where f = length])
  case (less s)
  show ?case
  proof (cases "s = []")
    case False
    with DecodeRune_width [OF False] have "length (drop (snd (DecodeRune s)) s) < length s" by auto
    with less False assms(2) show ?thesis by blast
  qed (simp add: assms(1))
qed

lemma concat_segs [simp]: "concat (map snd (segs s)) = s"
  by (induction s rule: segs_induct) (simp_all add: segs_step)

lemma segs_ascii [str_simps]: "code c < 128 \<Longrightarrow> segs (c # s) = (code c, [c]) # segs s"
  by (simp add: segs_step DecodeRune_def)

lemma segs_all_ascii:
  "list_all (\<lambda>c. code c < 128) s \<Longrightarrow> segs s = map (\<lambda>c. (code c, [c])) s"
  by (induction s) (simp_all add: segs_ascii)

lemma runes_all_ascii: "list_all (\<lambda>c. code c < 128) s \<Longrightarrow> runes s = map of_char s"
  by (simp add: runes_def segs_all_ascii)

lemma ValidString_all_ascii: "list_all (\<lambda>c. code c < 128) s \<Longrightarrow> ValidString s"
  by (auto simp: ValidString_def segs_all_ascii list_all_iff RuneError_def)

text \<open>
  A rune below 128 is always a single byte of the string with that code, and every such byte is
  visited as that rune: checks on ASCII runes are checks on bytes.
\<close>

lemma mod_window: "k * m \<le> n \<Longrightarrow> n < k * m + m \<Longrightarrow> n mod m = n - k * (m :: nat)"
  by (metis add_diff_inverse_nat add_less_imp_less_left linorder_not_less mod_less mod_mult_self3)

lemma three_byte_rune:
  assumes "0xE0 \<le> n" "n < 0xF0" "cont s 1 (second_lo n) (second_hi n)"
  shows "32 \<le> n mod 16 * 64 + tail6 s 1"
proof (cases "n = 0xE0")
  case True
  with assms(3) have "0xA0 \<le> code (s ! 1)" "code (s ! 1) \<le> 0xBF"
    by (simp_all add: cont_def second_lo_def second_hi_def)
  then have "32 \<le> code (s ! 1) mod 64" using mod_window [of 2 64 "code (s ! 1)"] by simp
  then show ?thesis by (simp add: tail6_def)
next
  case False
  with assms have "1 \<le> n mod 16" using mod_window [of 14 16 n] by simp
  then have "64 \<le> n mod 16 * 64" by simp
  then show ?thesis by linarith
qed

lemma four_byte_rune:
  assumes "0xF0 \<le> n" "n \<le> 0xF4" "cont s 1 (second_lo n) (second_hi n)"
  shows "16 \<le> n mod 8 * 64 + tail6 s 1"
proof (cases "n = 0xF0")
  case True
  with assms(3) have "0x90 \<le> code (s ! 1)" "code (s ! 1) \<le> 0xBF"
    by (simp_all add: cont_def second_lo_def second_hi_def)
  then have "16 \<le> code (s ! 1) mod 64" using mod_window [of 2 64 "code (s ! 1)"] by simp
  then show ?thesis by (simp add: tail6_def)
next
  case False
  with assms have "1 \<le> n mod 8" using mod_window [of 30 8 n] by simp
  then have "64 \<le> n mod 8 * 64" by simp
  then show ?thesis by linarith
qed

lemma DecodeRune_high:
  assumes s: "s \<noteq> []" and high: "128 \<le> code (hd s)"
  shows "128 \<le> fst (DecodeRune s)"
proof -
  define n where "n = code (hd s)"
  let ?ok = "\<not> (n < 0xC2 \<or> 0xF4 < n \<or> \<not> cont s 1 (second_lo n) (second_hi n))"
  have two: "128 \<le> n mod 32 * 64 + tail6 s 1" if "?ok" "n < 0xE0"
  proof -
    have "n mod 32 = n - 192" using that mod_window [of 6 32 n] by simp
    moreover from that have "2 \<le> n - 192" by linarith
    ultimately have "2 * 64 \<le> n mod 32 * 64" by (metis mult_le_mono1)
    then show ?thesis by simp
  qed
  have three: "128 \<le> (n mod 16 * 64 + tail6 s 1) * 64 + tail6 s 2" if "?ok" "\<not> n < 0xE0" "n < 0xF0"
  proof -
    have "32 * 64 \<le> (n mod 16 * 64 + tail6 s 1) * 64"
      using that three_byte_rune [of n s] by (intro mult_le_mono1) simp
    then show ?thesis by linarith
  qed
  have four: "128 \<le> ((n mod 8 * 64 + tail6 s 1) * 64 + tail6 s 2) * 64 + tail6 s 3" if "?ok" "\<not> n < 0xF0"
  proof -
    define x where "x = n mod 8 * 64 + tail6 s 1"
    have "16 \<le> x" unfolding x_def using that four_byte_rune [of n s] by simp
    then have "128 \<le> (x * 64 + tail6 s 2) * 64 + tail6 s 3" by simp
    then show ?thesis by (simp only: x_def)
  qed
  have "DecodeRune s =
     (if ?ok then
        if n < 0xE0 then (n mod 32 * 64 + tail6 s 1, 2)
        else if \<not> cont s 2 0x80 0xBF then (RuneError, 1)
        else if n < 0xF0 then ((n mod 16 * 64 + tail6 s 1) * 64 + tail6 s 2, 3)
        else if \<not> cont s 3 0x80 0xBF then (RuneError, 1)
        else (((n mod 8 * 64 + tail6 s 1) * 64 + tail6 s 2) * 64 + tail6 s 3, 4)
      else (RuneError, 1))"
    unfolding DecodeRune_def Let_def n_def [symmetric] using s high [folded n_def]
    by (simp only: if_not_P not_le if_False if_True de_Morgan_disj not_not split: if_split) force
  then show ?thesis using two three four by (simp only: RuneError_def split: if_split) simp
qed

lemma DecodeRune_cont:
  assumes s: "s \<noteq> []" and i: "0 < i" "i < snd (DecodeRune s)"
  shows "cont s i 0x80 0xBF"
proof -
  define n where "n = code (hd s)"
  have snd: "snd (DecodeRune s) =
     (if n < 0x80 then 1
      else if n < 0xC2 \<or> 0xF4 < n \<or> \<not> cont s 1 (second_lo n) (second_hi n) then 1
      else if n < 0xE0 then 2
      else if \<not> cont s 2 0x80 0xBF then 1
      else if n < 0xF0 then 3
      else if \<not> cont s 3 0x80 0xBF then 1 else 4)"
    using s by (simp add: DecodeRune_def Let_def n_def)
  have second: "cont s 1 (second_lo n) (second_hi n) \<Longrightarrow> cont s 1 0x80 0xBF"
    by (auto simp: cont_def second_lo_def second_hi_def split: if_splits)
  consider "i = 1" | "i = 2" | "i = 3" | "4 \<le> i" using i(1) by linarith
  then show ?thesis
    by cases (use i snd second in \<open>simp_all split: if_splits\<close>)
qed

lemma DecodeRune_ascii_iff:
  "s \<noteq> [] \<Longrightarrow> fst (DecodeRune s) < 128 \<longleftrightarrow> code (hd s) < 128"
  using DecodeRune_high [of s] by (auto simp: DecodeRune_def Let_def not_less)

lemma DecodeRune_ascii:
  "s \<noteq> [] \<Longrightarrow> code (hd s) < 128 \<Longrightarrow> DecodeRune s = (code (hd s), 1)"
  by (simp add: DecodeRune_def Let_def)

lemma DecodeRune_take_high:
  assumes "s \<noteq> []" and "\<not> code (hd s) < 128" and "c \<in> set (take (snd (DecodeRune s)) s)"
  shows "\<not> code c < 128"
proof -
  from assms(3) obtain i where i: "i < snd (DecodeRune s)" "i < length s" "c = s ! i"
    by (auto simp: in_set_conv_nth)
  show ?thesis
  proof (cases "i = 0")
    case True
    with i assms show ?thesis by (simp add: hd_conv_nth)
  next
    case False
    with DecodeRune_cont [OF assms(1) _ i(1)] i(3) show ?thesis by (simp add: cont_def)
  qed
qed

lemma ascii_runes: "r < 128 \<Longrightarrow> r \<in> set (runes s) \<longleftrightarrow> (\<exists>c \<in> set s. code c = r)"
proof (induction s rule: segs_induct)
  case (Step s)
  let ?w = "snd (DecodeRune s)"
  have split: "set s = set (take ?w s) \<union> set (drop ?w s)"
    by (metis append_take_drop_id set_append)
  have head: "r = fst (DecodeRune s) \<longleftrightarrow> (\<exists>c \<in> set (take ?w s). code c = r)"
  proof (cases "code (hd s) < 128")
    case True
    with Step(1) show ?thesis by (cases s) (auto simp: DecodeRune_ascii)
  next
    case False
    with Step(1,3) DecodeRune_ascii_iff DecodeRune_take_high show ?thesis by blast
  qed
  have "r \<in> set (runes s) \<longleftrightarrow> r = fst (DecodeRune s) \<or> r \<in> set (runes (drop ?w s))"
    using Step(1) by (simp add: runes_def segs_step)
  also have "\<dots> \<longleftrightarrow> (\<exists>c \<in> set s. code c = r)"
    using head Step(2) [OF Step(3)] split by (metis UnE UnI1 UnI2)
  finally show ?case .
qed (simp add: runes_def)

section \<open>String operations\<close>

text \<open>\<open>unicode.IsSpace\<close>: the Latin-1 spaces and the \<open>White_Space\<close> property above them.\<close>

definition IsSpace :: "nat \<Rightarrow> bool" where
  "IsSpace r \<longleftrightarrow>
     r \<in> {9, 10, 11, 12, 13, 32, 0x85, 0xA0, 0x1680, 0x2028, 0x2029, 0x202F, 0x205F, 0x3000} \<or>
     (0x2000 \<le> r \<and> r \<le> 0x200A)"

definition TrimSpace :: "string \<Rightarrow> string" where
  "TrimSpace s =
     (let sp = (\<lambda>g. IsSpace (fst g)) in
      concat (map snd (rev (dropWhile sp (rev (dropWhile sp (segs s)))))))"

definition HasPrefix :: "string \<Rightarrow> string \<Rightarrow> bool" where
  "HasPrefix s p = (take (length p) s = p)"

text \<open>\<open>strings.IndexByte\<close>, \<open>None\<close> for \<open>-1\<close>.\<close>

fun IndexByte :: "string \<Rightarrow> char \<Rightarrow> nat option" where
  "IndexByte [] c = None"
| "IndexByte (d # s) c = (if d = c then Some 0 else map_option Suc (IndexByte s c))"

definition lower_char :: "char \<Rightarrow> char" where
  "lower_char c = (if 65 \<le> code c \<and> code c \<le> 90 then char_of (code c + 32) else c)"

text \<open>
  \<open>strings.ToLower\<close> maps ASCII letters directly when the string is ASCII and consults the Unicode
  case tables, \<open>uni\<close>, otherwise.
\<close>

definition ToLower :: "(string \<Rightarrow> string) \<Rightarrow> string \<Rightarrow> string" where
  "ToLower uni s = (if list_all (\<lambda>c. code c < 128) s then map lower_char s else uni s)"

text \<open>Decimal numbers (\<open>strconv\<close>, \<open>%d\<close>).\<close>

fun nat_str :: "nat \<Rightarrow> string" where
  "nat_str n = (if n < 10 then [char_of (48 + n)] else nat_str (n div 10) @ [char_of (48 + n mod 10)])"

declare nat_str.simps [simp del]

definition int_str :: "int \<Rightarrow> string" where
  "int_str i = (if i < 0 then CHR ''-'' # nat_str (nat (- i)) else nat_str (nat i))"

text \<open>\<open>errors.Join\<close>: the non-nil errors, one per line; nil when there is none.\<close>

fun join_lines :: "string list \<Rightarrow> string" where
  "join_lines [] = []"
| "join_lines [x] = x"
| "join_lines (x # y # xs) = x @ CHR 0x0A # join_lines (y # xs)"

definition errors_Join :: "string option list \<Rightarrow> string option" where
  "errors_Join es =
     (let ms = List.map_filter id es in if ms = [] then None else Some (join_lines ms))"

lemma errors_Join_None [simp]: "errors_Join es = None \<longleftrightarrow> (\<forall>e \<in> set es. e = None)"
  by (induction es) (auto simp: errors_Join_def Let_def List.map_filter_def)

lemma segs_bytes: "\<forall>g \<in> set (segs s). snd g \<noteq> []"
proof (induction s rule: segs_induct)
  case (Step s)
  with DecodeRune_width [OF Step(1)] show ?case by (simp add: segs_step)
qed simp

lemma dropWhile_rev_dropWhile:
  "dropWhile P (rev (dropWhile P xs)) = [] \<longleftrightarrow> (\<forall>x \<in> set xs. P x)"
proof
  assume "dropWhile P (rev (dropWhile P xs)) = []"
  then have all: "\<forall>x \<in> set (dropWhile P xs). P x" by (simp only: dropWhile_eq_Nil_conv set_rev)
  have "dropWhile P xs = []"
  proof (rule ccontr)
    assume ne: "dropWhile P xs \<noteq> []"
    with hd_dropWhile [OF ne] all hd_in_set [OF ne] show False by blast
  qed
  then show "\<forall>x \<in> set xs. P x" by (simp only: dropWhile_eq_Nil_conv)
next
  assume "\<forall>x \<in> set xs. P x"
  then have "dropWhile P xs = []" by (simp only: dropWhile_eq_Nil_conv)
  then show "dropWhile P (rev (dropWhile P xs)) = []" by (simp only: rev.simps dropWhile.simps)
qed

lemma TrimSpace_Nil_iff: "TrimSpace s = [] \<longleftrightarrow> (\<forall>r \<in> set (runes s). IsSpace r)"
proof -
  define sp where "sp = (\<lambda>g :: nat \<times> string. IsSpace (fst g))"
  define m where "m = dropWhile sp (rev (dropWhile sp (segs s)))"
  have sub: "set m \<subseteq> set (segs s)"
    unfolding m_def by (auto dest!: set_dropWhileD)
  have "TrimSpace s = [] \<longleftrightarrow> (\<forall>g \<in> set m. snd g = [])"
    by (simp add: TrimSpace_def Let_def sp_def m_def)
  also have "\<dots> \<longleftrightarrow> m = []"
  proof
    assume nil: "\<forall>g \<in> set m. snd g = []"
    show "m = []"
    proof (rule ccontr)
      assume "m \<noteq> []"
      then have "hd m \<in> set m" by (rule hd_in_set)
      with nil sub segs_bytes [of s] show False by blast
    qed
  qed simp
  also have "\<dots> \<longleftrightarrow> (\<forall>r \<in> set (runes s). IsSpace r)"
    unfolding m_def dropWhile_rev_dropWhile by (simp add: runes_def sp_def)
  finally show ?thesis .
qed

lemma dropWhile_none: "\<forall>x \<in> set xs. \<not> P x \<Longrightarrow> dropWhile P xs = xs"
  by (cases xs) auto

lemma TrimSpace_none:
  assumes "\<forall>c \<in> set s. code c < 128 \<and> \<not> IsSpace (code c)"
  shows "TrimSpace s = s"
proof -
  let ?g = "map (\<lambda>c. (code c, [c])) s"
  have ascii: "list_all (\<lambda>c. code c < 128) s" using assms by (simp add: list_all_iff)
  have no: "\<forall>g \<in> set ?g. \<not> IsSpace (fst g)" using assms by simp
  then have "dropWhile (\<lambda>g. IsSpace (fst g)) ?g = ?g" by (rule dropWhile_none)
  moreover have "dropWhile (\<lambda>g. IsSpace (fst g)) (rev ?g) = rev ?g"
    by (rule dropWhile_none) (use no in simp)
  ultimately show ?thesis
    by (simp only: TrimSpace_def Let_def segs_all_ascii [OF ascii] rev_rev_ident) (simp add: comp_def)
qed

section \<open>Lines\<close>

text \<open>
  \<open>bufio.Scanner\<close> with its line splitter: lines without their line feed and one trailing carriage
  return; a line that does not fit the buffer ends the scan with an error.
\<close>

definition drop_cr :: "string \<Rightarrow> string" where
  "drop_cr l = (if l \<noteq> [] \<and> last l = CHR 0x0D then butlast l else l)"

function scan_lines :: "nat \<Rightarrow> string \<Rightarrow> string list \<times> bool" where
  "scan_lines mx s =
     (if s = [] then ([], True)
      else let l = takeWhile (\<lambda>c. c \<noteq> CHR 0x0A) s in
        if length l \<ge> mx then ([], False)
        else let (ls, ok) = scan_lines mx (drop (length l + 1) s) in (drop_cr l # ls, ok))"
  by pat_completeness auto
termination
  by (relation "measure (\<lambda>(_, s). length s)") (auto simp: Let_def length_greater_0_conv [symmetric] simp del: length_greater_0_conv)

declare scan_lines.simps [simp del]

lemma scan_lines_printed:
  "\<forall>l \<in> set ls. CHR 0x0A \<notin> set l \<and> CHR 0x0D \<notin> set l \<and> length l < mx \<Longrightarrow>
     scan_lines mx (concat (map (\<lambda>l. l @ [CHR 0x0A]) ls)) = (ls, True)"
proof (induction ls)
  case (Cons l ls)
  let ?rest = "concat (map (\<lambda>l. l @ [CHR 0x0A]) ls)"
  have "takeWhile (\<lambda>c. c \<noteq> CHR 0x0A) (l @ CHR 0x0A # ?rest) = l"
    using Cons.prems by (simp add: takeWhile_append)
  moreover have "drop_cr l = l" using Cons.prems by (auto simp: drop_cr_def dest: last_in_set)
  ultimately show ?case using Cons by (subst scan_lines.simps) (simp add: Let_def)
qed (simp add: scan_lines.simps)

end
