(* ===== verification/NamePolicy.thy ===== *)
theory NamePolicy
  imports GoStrings ProtocolID
begin

text \<open>
  The release-name policy of \<open>internal/namepolicy\<close>: configuration, the term patterns, the decision
  from a hash and a name, and the context-borne variants. The Unicode script tables for Han and
  Cyrillic are parameters. A term pattern, a regular expression of one fixed shape in the source, is
  represented by its variants, and matching is the meaning of that shape. Of a policy the fields that
  enter a decision are kept; the sorted copy of the excluded hashes, the credential, the metric and
  the fingerprint over them are left out.
\<close>

section \<open>Configuration\<close>

record np_Config =
  np_Enabled :: bool
  np_ExcludedInfoHashes :: "string list"
  np_InternalCheckToken :: string

definition SecretToken_String :: "string \<Rightarrow> string" where
  "SecretToken_String t = (if t = [] then [] else ''[redacted]'')"

definition np_NewDefaultConfig :: np_Config where
  "np_NewDefaultConfig = \<lparr>np_Enabled = False, np_ExcludedInfoHashes = [], np_InternalCheckToken = []\<rparr>"

definition np_Validate :: "np_Config \<Rightarrow> string option" where
  "np_Validate c =
     (if length (np_ExcludedInfoHashes c) > 4096 then Some ''name policy: excluded hash list exceeds bound''
      else if list_ex (\<lambda>h. \<not> is_ok (ParseID h)) (np_ExcludedInfoHashes c)
      then Some ''name policy: invalid excluded info hash''
      else if np_InternalCheckToken c \<noteq> [] \<and>
              (length (np_InternalCheckToken c) < 32 \<or> length (np_InternalCheckToken c) > 256)
      then Some ''name policy: internal credential must contain 32..256 bytes''
      else None)"

section \<open>Term patterns\<close>

text \<open>
  A term pattern is \<open>(^|[delimiters])(variants)($|[delimiters])\<close>; a variant is a word whose letters
  match either case, with any run of separators between two letters.
\<close>

definition TagWhitespace :: "nat list" where
  "TagWhitespace = [9, 10, 11, 12, 13, 32, 0x85, 0xA0, 0x1680, 0x2000, 0x2001, 0x2002, 0x2003, 0x2004, 0x2005,
     0x2006, 0x2007, 0x2008, 0x2009, 0x200A, 0x2028, 0x2029, 0x202F, 0x205F, 0x3000]"

abbreviation codes :: "string \<Rightarrow> nat list" where "codes s \<equiv> map of_char s"

definition separators :: "nat list" where
  "separators = TagWhitespace @ codes ''._-+''"

definition delimiters :: "nat list" where
  "delimiters = TagWhitespace @ codes (''._-+:/'' @ [CHR 0x5C] @ ''()[]{}!,;=?&'' @ [CHR 0x27, CHR 0x22] @ ''|#%@'')"

text \<open>
  The class of runes a letter matches; a pattern is the list of its variants, a variant the list of
  its letters' classes.
\<close>

definition letter_class :: "char \<Rightarrow> nat list" where
  "letter_class r = (if 97 \<le> code r \<and> code r \<le> 122 then [code r, code r - 32] else [code r])"

definition termPattern :: "string list \<Rightarrow> nat list list list" where
  "termPattern words = map (map letter_class) words"

text \<open>The rests a text can have after a run of separators, and after a variant.\<close>

fun skip_separators :: "nat list \<Rightarrow> nat list list" where
  "skip_separators [] = [[]]"
| "skip_separators (c # s) = (c # s) # (if c \<in> set separators then skip_separators s else [])"

fun match_letters :: "nat list list \<Rightarrow> nat list \<Rightarrow> nat list list" where
  "match_letters [] s = [s]"
| "match_letters (cl # cls) [] = []"
| "match_letters (cl # cls) (c # s) =
     (if c \<in> set cl then
        (if cls = [] then [s] else concat (map (match_letters cls) (skip_separators s)))
      else [])"

definition at_end :: "nat list \<Rightarrow> bool" where
  "at_end s = (case s of [] \<Rightarrow> True | c # _ \<Rightarrow> c \<in> set delimiters)"

definition match_here :: "nat list list list \<Rightarrow> nat list \<Rightarrow> bool" where
  "match_here pat s = list_ex (\<lambda>v. list_ex at_end (match_letters v s)) pat"

text \<open>\<open>MatchString\<close>: at the beginning of the text, or right after a delimiter.\<close>

fun match_after :: "nat list list list \<Rightarrow> nat list \<Rightarrow> bool" where
  "match_after pat [] = False"
| "match_after pat (c # s) = ((c \<in> set delimiters \<and> match_here pat s) \<or> match_after pat s)"

definition MatchString :: "nat list list list \<Rightarrow> string \<Rightarrow> bool" where
  "MatchString pat name = (let rs = runes name in match_here pat rs \<or> match_after pat rs)"

record Term =
  tm_Name :: string
  tm_Pattern :: "nat list list list"
  tm_Strong :: bool

definition mk_term :: "string \<Rightarrow> string list \<Rightarrow> bool \<Rightarrow> Term" where
  "mk_term n ws st = \<lparr>tm_Name = n, tm_Pattern = termPattern ws, tm_Strong = st\<rparr>"

definition AdultTerms :: "Term list" where
  "AdultTerms =
     [mk_term ''fetish'' [''fetish'', ''fetishxxx'', ''fetishporn'', ''fetishporno''] True]
     @ map (\<lambda>w. mk_term w [w] True) [''blowjob'', ''gangbang'', ''bukkake'', ''cumshot'']
     @ [mk_term ''gaping_anal'' [''gapinganal''] True,
        mk_term ''porn'' [''porn'', ''p0rn'', ''pr0n'', ''fetishporn'', ''pornxxx''] False,
        mk_term ''porno'' [''porno'', ''fetishporno'', ''pornoxxx''] False,
        mk_term ''xxx'' [''xxx'', ''fetishxxx'', ''pornxxx'', ''pornoxxx''] False]
     @ map (\<lambda>w. mk_term w [w] False) [''hentai'', ''milf'', ''anal'', ''adult'', ''nsfw'', ''hardcore'']
     @ [mk_term ''sex'' [''sex'', ''s3x''] False]"

definition ExplicitAdultPairs :: "(string \<times> string) list" where
  "ExplicitAdultPairs = [(''porn'', ''xxx''), (''porno'', ''xxx'')]"

section \<open>Policies and decisions\<close>

record Policy =
  po_enabled :: bool
  po_excluded :: "ID set"
  po_terms :: "Term list"
  po_pairs :: "(string \<times> string) list"

definition np_New :: "np_Config \<Rightarrow> string + Policy" where
  "np_New c =
     (case np_Validate c of
        Some e \<Rightarrow> Inl e
      | None \<Rightarrow>
          Inr \<lparr>po_enabled = np_Enabled c,
               po_excluded = set (map (\<lambda>v. case ParseID v of Inr h \<Rightarrow> h | Inl _ \<Rightarrow> ID_zero) (np_ExcludedInfoHashes c)),
               po_terms = AdultTerms, po_pairs = ExplicitAdultPairs\<rparr>)"

datatype np_reason =
    ReasonDisabled | ReasonAllowed | ReasonOwnerHash | ReasonMissingName | ReasonHan | ReasonCyrillic
  | ReasonAdultComposite | ReasonAdultType | ReasonNotServed

record np_Decision =
  Eligible :: bool
  Reason :: np_reason
  Version :: string

definition np_Version :: string where "np_Version = ''release-name-policy-v1''"

text \<open>A nil \<open>*Policy\<close> is \<open>None\<close>; the methods accept it.\<close>

definition np_enabled :: "Policy option \<Rightarrow> bool" where
  "np_enabled p = (case p of Some q \<Rightarrow> po_enabled q | None \<Rightarrow> False)"

definition ExcludesHash :: "Policy option \<Rightarrow> ID \<Rightarrow> bool" where
  "ExcludesHash p h =
     (if \<not> np_enabled p then False else (case p of Some q \<Rightarrow> h \<in> po_excluded q | None \<Rightarrow> False))"

text \<open>The unicode script tables.\<close>

record scripts =
  is_Han :: "nat \<Rightarrow> bool"
  is_Cyrillic :: "nat \<Rightarrow> bool"

definition matched_terms :: "Term list \<Rightarrow> string \<Rightarrow> Term list" where
  "matched_terms ts name = filter (\<lambda>t. MatchString (tm_Pattern t) name) ts"

definition adult_composite :: "Policy \<Rightarrow> string \<Rightarrow> bool" where
  "adult_composite q name =
     (let ms = matched_terms (po_terms q) name; names = map tm_Name ms in
      (length ms \<ge> 2 \<and> list_ex tm_Strong ms) \<or>
      list_ex (\<lambda>(a, b). a \<in> set names \<and> b \<in> set names) (po_pairs q))"

definition np_Evaluate :: "scripts \<Rightarrow> Policy option \<Rightarrow> ID \<Rightarrow> string \<Rightarrow> np_Decision" where
  "np_Evaluate U p h name =
     (let deny = (\<lambda>r. \<lparr>Eligible = False, Reason = r, Version = np_Version\<rparr>) in
      if \<not> np_enabled p then \<lparr>Eligible = True, Reason = ReasonDisabled, Version = np_Version\<rparr>
      else if ExcludesHash p h then deny ReasonOwnerHash
      else if TrimSpace name = [] then deny ReasonMissingName
      else if list_ex (is_Han U) (runes name) then deny ReasonHan
      else if list_ex (is_Cyrillic U) (runes name) then deny ReasonCyrillic
      else if (case p of Some q \<Rightarrow> adult_composite q name | None \<Rightarrow> False) then deny ReasonAdultComposite
      else \<lparr>Eligible = True, Reason = ReasonAllowed, Version = np_Version\<rparr>)"

definition EvaluateClassified :: "scripts \<Rightarrow> Policy option \<Rightarrow> ID \<Rightarrow> string \<Rightarrow> string \<Rightarrow> np_Decision" where
  "EvaluateClassified U p h name contentType =
     (let d = np_Evaluate U p h name in
      if np_enabled p \<and> Eligible d \<and> contentType = ''xxx''
      then d\<lparr>Eligible := False, Reason := ReasonAdultType\<rparr> else d)"

text \<open>
  The values a context may carry: the source under consideration and the admission callback that
  rechecks it.
\<close>

record Source =
  src_InfoHash :: ID
  src_Name :: string
  src_ContentType :: string

record np_ctx =
  ctx_source :: "Source option"
  ctx_admission :: "(Source \<Rightarrow> string + np_Decision) option"

definition EvaluateContext :: "scripts \<Rightarrow> Policy option \<Rightarrow> np_ctx \<Rightarrow> ID \<Rightarrow> string \<Rightarrow> string \<Rightarrow> np_Decision" where
  "EvaluateContext U p ctx h name contentType =
     (case ctx_source ctx of
        Some s \<Rightarrow> EvaluateClassified U p (src_InfoHash s) (src_Name s) (src_ContentType s)
      | None \<Rightarrow> EvaluateClassified U p h name contentType)"

definition AdmitContext ::
  "scripts \<Rightarrow> Policy option \<Rightarrow> np_ctx \<Rightarrow> ID \<Rightarrow> string \<Rightarrow> string \<Rightarrow> string + np_Decision" where
  "AdmitContext U p ctx h name contentType =
     (let d = EvaluateContext U p ctx h name contentType in
      if \<not> np_enabled p \<or> \<not> Eligible d then Inr d
      else case ctx_admission ctx of
        Some check \<Rightarrow>
          check (case ctx_source ctx of
                   Some s \<Rightarrow> s
                 | None \<Rightarrow> \<lparr>src_InfoHash = h, src_Name = name, src_ContentType = contentType\<rparr>)
      | None \<Rightarrow> Inr d)"

text \<open>The counter of denials (\<open>metrics.go\<close>), by stage and reason.\<close>

type_synonym denied_total = "string \<times> np_reason \<Rightarrow> nat"

definition np_stages :: "string list" where
  "np_stages = [''crawler_acquisition'', ''crawler_existing'', ''import'', ''processor'', ''classifier'', ''model'',
     ''model_dispatch'', ''task_enqueue'', ''model_apply'', ''private_name_check'', ''public_hash_check'',
     ''public_grab'', ''seeds_dispatch'', ''seeds_persist'']"

definition np_Observe :: "Policy option \<Rightarrow> string \<Rightarrow> np_Decision \<Rightarrow> denied_total \<Rightarrow> denied_total" where
  "np_Observe p stage d m =
     (if p = None \<or> Eligible d then m
      else let st = (if stage \<in> set np_stages then stage else ''other'') in
        if Reason d \<in> {ReasonOwnerHash, ReasonMissingName, ReasonHan, ReasonCyrillic, ReasonAdultComposite,
             ReasonAdultType, ReasonNotServed}
        then m((st, Reason d) := m (st, Reason d) + 1) else m)"

section \<open>Properties\<close>

lemma nil_policy_allows: "np_Evaluate U None h name = \<lparr>Eligible = True, Reason = ReasonDisabled, Version = np_Version\<rparr>"
  by (simp add: np_Evaluate_def np_enabled_def)

lemma nil_policy_excludes_nothing: "\<not> ExcludesHash None h"
  by (simp add: ExcludesHash_def np_enabled_def)

lemma ExcludesHash_ineligible: "ExcludesHash p h \<Longrightarrow> \<not> Eligible (np_Evaluate U p h name)"
  by (auto simp: np_Evaluate_def Let_def ExcludesHash_def split: if_splits)

lemma np_New_excludes:
  assumes "np_New c = Inr p" and "np_Enabled c" and "v \<in> set (np_ExcludedInfoHashes c)" and "ParseID v = Inr h"
  shows "ExcludesHash (Some p) h"
  using assms by (force simp: np_New_def ExcludesHash_def np_enabled_def split: option.splits)

text \<open>Eligibility under an enabled policy, spelled out.\<close>

lemma np_Evaluate_eligible:
  assumes "po_enabled q"
  shows "Eligible (np_Evaluate U (Some q) h name) \<longleftrightarrow>
     h \<notin> po_excluded q \<and> (\<exists>r \<in> set (runes name). \<not> IsSpace r) \<and>
     (\<forall>r \<in> set (runes name). \<not> is_Han U r \<and> \<not> is_Cyrillic U r) \<and> \<not> adult_composite q name"
  using assms TrimSpace_Nil_iff [of name]
  by (auto simp: np_Evaluate_def Let_def np_enabled_def ExcludesHash_def list_ex_iff)

end
