(* ===== verification/NetIPText.thy ===== *)
theory NetIPText
  imports ProtocolID GoStrings
begin

text \<open>
  The textual form of addresses in Go's \<open>net/netip\<close>: \<open>Addr.String\<close>, \<open>AddrPort.String\<close> and
  \<open>ParseAddrPort\<close>.
\<close>

section \<open>Printing\<close>

fun hex_str :: "nat \<Rightarrow> string" where
  "hex_str n = (if n < 16 then [hex_digit n] else hex_str (n div 16) @ [hex_digit (n mod 16)])"

declare hex_str.simps [simp del]

fun join :: "string \<Rightarrow> string list \<Rightarrow> string" where
  "join sep [] = []"
| "join sep [x] = x"
| "join sep (x # y # xs) = x @ sep @ join sep (y # xs)"

definition string4 :: "byte list \<Rightarrow> string" where
  "string4 b = join ''.'' (map (\<lambda>x. nat_str (unat x)) b)"

text \<open>The sixteen-bit groups of an address, and the first longest run of at least two zero groups.\<close>

fun groups :: "byte list \<Rightarrow> nat list" where
  "groups (x # y # b) = (256 * unat x + unat y) # groups b"
| "groups _ = []"

fun zero_len :: "nat list \<Rightarrow> nat" where
  "zero_len (0 # gs) = Suc (zero_len gs)"
| "zero_len _ = 0"

definition zero_run :: "nat list \<Rightarrow> (nat \<times> nat) option" where
  "zero_run gs = foldl (\<lambda>r i.
     let l = zero_len (drop i gs) in
     if l \<ge> 2 \<and> l > (case r of None \<Rightarrow> 0 | Some (s, n) \<Rightarrow> n) then Some (i, l) else r) None [0..<length gs]"

definition string6 :: "byte list \<Rightarrow> string" where
  "string6 b =
     (let gs = groups b in
      case zero_run gs of
        None \<Rightarrow> join '':'' (map hex_str gs)
      | Some (s, n) \<Rightarrow> join '':'' (map hex_str (take s gs)) @ ''::'' @ join '':'' (map hex_str (drop (s + n) gs)))"

definition zone_suffix :: "string \<Rightarrow> string" where
  "zone_suffix z = (if z = [] then [] else CHR ''%'' # z)"

fun addr_String :: "addr \<Rightarrow> string" where
  "addr_String AddrZero = ''invalid IP''"
| "addr_String (Addr4 b) = string4 b"
| "addr_String (Addr6 b z) =
     (if addr_Is4In6 (Addr6 b z) then ''::ffff:'' @ string4 (drop 12 b) @ zone_suffix z
      else string6 b @ zone_suffix z)"

definition addr_port_String :: "addr_port \<Rightarrow> string" where
  "addr_port_String p =
     (case ap_addr p of
        AddrZero \<Rightarrow> ''invalid AddrPort''
      | Addr4 b \<Rightarrow> string4 b @ '':'' @ nat_str (unat (ap_port p))
      | Addr6 b z \<Rightarrow> ''['' @ addr_String (Addr6 b z) @ '']:'' @ nat_str (unat (ap_port p)))"

section \<open>Parsing\<close>

text \<open>
  The parsers keep only success and failure, not the texts of their errors. An IPv4 address has four
  decimal octets without leading zeros.
\<close>

fun split_on :: "char \<Rightarrow> string \<Rightarrow> string list" where
  "split_on sep [] = [[]]"
| "split_on sep (c # cs) =
     (if c = sep then [] # split_on sep cs
      else case split_on sep cs of [] \<Rightarrow> [[c]] | w # ws \<Rightarrow> (c # w) # ws)"

definition dec_digit :: "char \<Rightarrow> bool" where
  "dec_digit c \<longleftrightarrow> 48 \<le> code c \<and> code c \<le> 57"

definition dec_val :: "string \<Rightarrow> nat" where
  "dec_val s = foldl (\<lambda>v c. 10 * v + (code c - 48)) 0 s"

definition parse_uint :: "nat \<Rightarrow> string \<Rightarrow> nat option" where
  "parse_uint mx s = (if s \<noteq> [] \<and> list_all dec_digit s \<and> dec_val s \<le> mx then Some (dec_val s) else None)"

definition octet_ok :: "string \<Rightarrow> bool" where
  "octet_ok s \<longleftrightarrow> s \<noteq> [] \<and> list_all dec_digit s \<and> (1 < length s \<longrightarrow> hd s \<noteq> CHR ''0'') \<and> dec_val s \<le> 255"

definition parse4 :: "string \<Rightarrow> byte list option" where
  "parse4 s =
     (let ps = split_on (CHR ''.'') s in
      if length ps = 4 \<and> list_all octet_ok ps then Some (map (\<lambda>p. of_nat (dec_val p)) ps) else None)"

text \<open>
  The loop over the groups of an IPv6 address: the bytes read so far, the position of an ellipsis, and
  what is left of the text. There is room for eight groups.
\<close>

definition hex_char :: "char \<Rightarrow> bool" where
  "hex_char c \<longleftrightarrow> from_hex_char c \<noteq> None"

definition hex_group :: "string \<Rightarrow> byte list" where
  "hex_group s = (let v = foldl (\<lambda>v c. 16 * v + the (from_hex_char c)) 0 s in [of_nat (v div 256), of_nat (v mod 256)])"

fun parse6_loop :: "nat \<Rightarrow> string \<Rightarrow> byte list \<Rightarrow> nat option \<Rightarrow> (byte list \<times> nat option \<times> string) option" where
  "parse6_loop 0 s acc e = Some (acc, e, s)"
| "parse6_loop (Suc k) s acc e =
     (let ds = takeWhile hex_char s in
      if ds = [] \<or> 4 < length ds then None
      else case dropWhile hex_char s of
        [] \<Rightarrow> Some (acc @ hex_group ds, e, [])
      | c # r \<Rightarrow>
          if c = CHR ''.'' then
            (if (e = None \<and> length acc \<noteq> 12) \<or> 12 < length acc then None
             else map_option (\<lambda>b. (acc @ b, e, [])) (parse4 s))
          else if c \<noteq> CHR '':'' \<or> r = [] then None
          else if hd r = CHR '':'' then
            (if e \<noteq> None then None
             else if tl r = [] then Some (acc @ hex_group ds, Some (length acc + 2), [])
             else parse6_loop k (tl r) (acc @ hex_group ds) (Some (length acc + 2)))
          else parse6_loop k r (acc @ hex_group ds) e)"

definition expand6 :: "byte list \<times> nat option \<times> string \<Rightarrow> byte list option" where
  "expand6 r =
     (case r of (acc, e, s) \<Rightarrow>
        if s \<noteq> [] then None
        else case e of
          None \<Rightarrow> if length acc < 16 then None else Some acc
        | Some p \<Rightarrow> if length acc < 16 then Some (take p acc @ replicate (16 - length acc) 0 @ drop p acc) else None)"

definition parse6 :: "string \<Rightarrow> byte list option" where
  "parse6 s =
     (if take 2 s = ''::'' then
        (if drop 2 s = [] then Some (replicate 16 0)
         else Option.bind (parse6_loop 8 (drop 2 s) [] (Some 0)) expand6)
      else Option.bind (parse6_loop 8 s [] None) expand6)"

definition ParseAddr :: "string \<Rightarrow> addr option" where
  "ParseAddr s =
     (case dropWhile (\<lambda>c. c \<notin> set ''.:%'') s of
        [] \<Rightarrow> None
      | c # _ \<Rightarrow>
          if c = CHR ''.'' then map_option Addr4 (parse4 s)
          else if c = CHR ''%'' then None
          else
            let a = takeWhile (\<lambda>c. c \<noteq> CHR ''%'') s; z = dropWhile (\<lambda>c. c \<noteq> CHR ''%'') s in
            if z \<noteq> [] \<and> tl z = [] then None else map_option (\<lambda>b. Addr6 b (tl z)) (parse6 a))"

definition ParseAddrPort :: "string \<Rightarrow> addr_port option" where
  "ParseAddrPort s =
     (if CHR '':'' \<notin> set s then None
      else
        let port = rev (takeWhile (\<lambda>c. c \<noteq> CHR '':'') (rev s)); ip = take (length s - length port - 1) s in
        if ip = [] \<or> port = [] then None
        else
          let v6 = (hd ip = CHR ''['') in
          if v6 \<and> (length ip < 2 \<or> last ip \<noteq> CHR '']'') then None
          else case parse_uint 65535 port of
            None \<Rightarrow> None
          | Some n \<Rightarrow>
              case ParseAddr (if v6 then tl (butlast ip) else ip) of
                None \<Rightarrow> None
              | Some a \<Rightarrow> if v6 = addr_Is4 a then None else Some \<lparr>ap_addr = a, ap_port = of_nat n\<rparr>)"

section \<open>Parsing inverts printing\<close>

lemma nat_str_digits: "list_all dec_digit (nat_str n)"
proof (induction n rule: nat_str.induct)
  case (1 n)
  have d: "m < 10 \<Longrightarrow> dec_digit (char_of (48 + m))" for m :: nat by (simp add: dec_digit_def)
  show ?case using 1 d by (subst nat_str.simps) simp
qed

lemma nat_str_val: "dec_val (nat_str n) = n"
proof (induction n rule: nat_str.induct)
  case (1 n)
  then show ?case by (subst nat_str.simps) (simp add: dec_val_def)
qed

lemma nat_str_ne [simp]: "nat_str n \<noteq> []"
  by (subst nat_str.simps) simp

lemma nat_str_hd: "1 < length (nat_str n) \<Longrightarrow> hd (nat_str n) \<noteq> CHR ''0''"
proof (induction n rule: nat_str.induct)
  case (1 n)
  show ?case
  proof (cases "n < 100")
    case True
    have "m < 10 \<Longrightarrow> 0 < m \<Longrightarrow> char_of (48 + m) \<noteq> CHR ''0''" for m :: nat
      by (auto dest!: arg_cong [where f = "of_char :: char \<Rightarrow> nat"])
    then show ?thesis using True 1(2) by (subst nat_str.simps, subst nat_str.simps) (auto simp: nat_str.simps [of n])
  next
    case False
    then have "1 < length (nat_str (n div 10))" by (subst nat_str.simps) (simp add: Suc_lessI)
    then show ?thesis using 1(1) False by (subst nat_str.simps) simp
  qed
qed

lemma split_on_sep: "sep \<notin> set p \<Longrightarrow> split_on sep (p @ sep # t) = p # split_on sep t"
  by (induction p) auto

lemma split_on_plain: "sep \<notin> set p \<Longrightarrow> split_on sep p = [p]"
  by (induction p) auto

lemma split_on_join: "\<lbrakk>ps \<noteq> []; \<forall>p \<in> set ps. sep \<notin> set p\<rbrakk> \<Longrightarrow> split_on sep (join [sep] ps) = ps"
  by (induction "[sep]" ps rule: join.induct) (simp_all add: split_on_sep split_on_plain)

lemma nat_str_chars: "c \<in> set (nat_str n) \<Longrightarrow> dec_digit c"
  using nat_str_digits [of n] by (simp add: list_all_iff)

lemma byte_le: "unat x \<le> 255" for x :: byte
  using unat_byte_less [of x] by linarith

lemma parse4_string4: "length b = 4 \<Longrightarrow> parse4 (string4 b) = Some b"
proof -
  assume b: "length b = 4"
  have oct: "octet_ok (nat_str (unat x))" for x :: byte
    using nat_str_digits nat_str_hd byte_le [of x] by (auto simp: octet_ok_def nat_str_val)
  have "\<forall>p \<in> set (map (\<lambda>x. nat_str (unat x)) b). CHR ''.'' \<notin> set p"
    using nat_str_chars by (fastforce simp: dec_digit_def)
  then have "split_on (CHR ''.'') (string4 b) = map (\<lambda>x. nat_str (unat x)) b"
    unfolding string4_def using b by (intro split_on_join) auto
  then show ?thesis using b oct by (simp add: parse4_def list_all_iff nat_str_val o_def)
qed

lemma hex_str_chars: "c \<in> set (hex_str n) \<Longrightarrow> hex_char c"
proof (induction n rule: hex_str.induct)
  case (1 n)
  have "m < 16 \<Longrightarrow> hex_char (hex_digit m)" for m by (simp add: hex_char_def from_hex_digit)
  with 1 show ?case by (cases "n < 16") (auto simp: hex_str.simps [of n])
qed

lemma hex_str_val: "foldl (\<lambda>v c. 16 * v + the (from_hex_char c)) 0 (hex_str n) = n"
proof (induction n rule: hex_str.induct)
  case (1 n)
  then show ?case by (cases "n < 16") (simp_all add: hex_str.simps [of n] from_hex_digit)
qed

lemma hex_str_length: "n < 16 ^ Suc k \<Longrightarrow> length (hex_str n) \<le> Suc k"
proof (induction k arbitrary: n)
  case 0
  then show ?case by (simp add: hex_str.simps [of n])
next
  case (Suc k)
  then have "n div 16 < 16 ^ Suc k" by (simp add: div_less_iff_less_mult)
  with Suc.IH show ?case by (simp add: hex_str.simps [of n])
qed

lemma hex_str_ne [simp]: "hex_str n \<noteq> []"
  by (simp add: hex_str.simps [of n])

definition group_bytes :: "nat list \<Rightarrow> byte list" where
  "group_bytes gs = concat (map (\<lambda>g. [of_nat (g div 256), of_nat (g mod 256)]) gs)"

lemma group_bytes_simps [simp]:
  "group_bytes [] = []" "group_bytes (g # gs) = of_nat (g div 256) # of_nat (g mod 256) # group_bytes gs"
  "group_bytes (gs @ gs') = group_bytes gs @ group_bytes gs'"
  by (simp_all add: group_bytes_def)

lemma length_group_bytes [simp]: "length (group_bytes gs) = 2 * length gs"
  by (induction gs) simp_all

lemma group_bytes_groups: "even (length b) \<Longrightarrow> group_bytes (groups b) = b"
proof (induction b rule: groups.induct)
  case (1 x y b)
  with unat_byte_less [of y] show ?case by simp
qed auto

lemma groups_bound: "g \<in> set (groups b) \<Longrightarrow> g < 65536"
proof (induction b rule: groups.induct)
  case (1 x y b)
  have "256 * unat x + unat y < 65536" using byte_le [of x] byte_le [of y] by linarith
  with 1 show ?case by auto
qed auto

lemma length_groups: "length (groups b) = length b div 2"
  by (induction b rule: groups.induct) auto

lemma hex_group_str: "n < 65536 \<Longrightarrow> hex_group (hex_str n) = [of_nat (n div 256), of_nat (n mod 256)]"
  by (simp add: hex_group_def hex_str_val Let_def)

lemma hex_run:
  assumes "rest = [] \<or> \<not> hex_char (hd rest)"
  shows "takeWhile hex_char (hex_str g @ rest) = hex_str g" "dropWhile hex_char (hex_str g @ rest) = rest"
proof -
  have all: "\<forall>c \<in> set (hex_str g). hex_char c" using hex_str_chars by blast
  then show "takeWhile hex_char (hex_str g @ rest) = hex_str g"
    using assms by (cases rest) (simp_all add: takeWhile_append takeWhile_eq_all_conv)
  show "dropWhile hex_char (hex_str g @ rest) = rest"
    using assms all by (cases rest) (simp_all add: dropWhile_append)
qed

lemma colon_not_hex [simp]: "\<not> hex_char (CHR '':'')" "\<not> hex_char (CHR ''.'')"
  by (simp_all add: hex_char_def from_hex_char_def Let_def)

abbreviation colons :: "nat list \<Rightarrow> string" where
  "colons gs \<equiv> join '':'' (map hex_str gs)"

lemma hex_str_hd: "hd (hex_str g @ t) \<noteq> CHR '':''"
proof -
  have "hex_char (hd (hex_str g))" using hex_str_chars hd_in_set [OF hex_str_ne] by blast
  then show ?thesis by (auto simp: hd_append)
qed

lemma colons_start: "gs \<noteq> [] \<Longrightarrow> colons gs @ t \<noteq> [] \<and> hd (colons gs @ t) \<noteq> CHR '':''"
  using hex_str_hd by (cases gs rule: remdups_adj.cases) (auto simp del: hd_append)

lemma parse6_loop_group:
  assumes "g < 65536" "rest = [] \<or> \<not> hex_char (hd rest)"
  shows "parse6_loop (Suc k) (hex_str g @ rest) acc e =
     (case rest of
        [] \<Rightarrow> Some (acc @ group_bytes [g], e, [])
      | c # r \<Rightarrow>
          if c = CHR ''.'' then
            (if (e = None \<and> length acc \<noteq> 12) \<or> 12 < length acc then None
             else map_option (\<lambda>b. (acc @ b, e, [])) (parse4 (hex_str g @ rest)))
          else if c \<noteq> CHR '':'' \<or> r = [] then None
          else if hd r = CHR '':'' then
            (if e \<noteq> None then None
             else if tl r = [] then Some (acc @ group_bytes [g], Some (length acc + 2), [])
             else parse6_loop k (tl r) (acc @ group_bytes [g]) (Some (length acc + 2)))
          else parse6_loop k r (acc @ group_bytes [g]) e)"
proof -
  have "\<not> (hex_str g = [] \<or> 4 < length (hex_str g))" using hex_str_length [of g 3] assms(1) by simp
  moreover have "hex_group (hex_str g) = group_bytes [g]" using assms(1) by (simp add: hex_group_str)
  ultimately show ?thesis by (simp only: parse6_loop.simps hex_run [OF assms(2)] Let_def if_False)
qed

lemma parse6_loop_colons:
  "\<lbrakk>gs \<noteq> []; \<forall>g \<in> set gs. g < 65536; length gs \<le> k\<rbrakk> \<Longrightarrow>
     parse6_loop k (colons gs) acc e = Some (acc @ group_bytes gs, e, [])"
proof (induction gs arbitrary: k acc rule: remdups_adj.induct)
  case (2 g)
  then obtain k' where "k = Suc k'" by (cases k) auto
  then show ?case using 2 parse6_loop_group [of g "[]" k' acc e] by simp
next
  case (3 g g' gs)
  then obtain k' where k: "k = Suc k'" by (cases k) auto
  have IH: "parse6_loop k' (colons (g' # gs)) (acc @ group_bytes [g]) e = Some ((acc @ group_bytes [g]) @ group_bytes (g' # gs), e, [])"
    using 3 k by (cases "g = g'") auto
  have st: "colons (g' # gs) \<noteq> []" "hd (colons (g' # gs)) \<noteq> CHR '':''" using colons_start [of "g' # gs" "[]"] by simp_all
  have "colons (g # g' # gs) = hex_str g @ CHR '':'' # colons (g' # gs)" by simp
  then show ?case
    using parse6_loop_group [of g "CHR '':'' # colons (g' # gs)" k' acc e] 3(4) st IH k by simp
qed simp

lemma parse6_loop_ellipsis:
  "\<lbrakk>gs \<noteq> []; \<forall>g \<in> set gs. g < 65536; length gs \<le> k\<rbrakk> \<Longrightarrow>
     parse6_loop k (colons gs @ ''::'' @ t) acc None =
       (let acc' = acc @ group_bytes gs; e = Some (length acc + 2 * length gs) in
        if t = [] then Some (acc', e, []) else parse6_loop (k - length gs) t acc' e)"
proof (induction gs arbitrary: k acc rule: remdups_adj.induct)
  case (2 g)
  then obtain k' where "k = Suc k'" by (cases k) auto
  then show ?case using 2 parse6_loop_group [of g "''::'' @ t" k' acc None] by simp
next
  case (3 g g' gs)
  then obtain k' where k: "k = Suc k'" by (cases k) auto
  have IH: "parse6_loop k' (colons (g' # gs) @ ''::'' @ t) (acc @ group_bytes [g]) None =
      (let acc' = (acc @ group_bytes [g]) @ group_bytes (g' # gs); e = Some (length (acc @ group_bytes [g]) + 2 * length (g' # gs)) in
        if t = [] then Some (acc', e, []) else parse6_loop (k' - length (g' # gs)) t acc' e)"
    using 3 k by (cases "g = g'") auto
  have st: "colons (g' # gs) @ ''::'' @ t \<noteq> []" "hd (colons (g' # gs) @ ''::'' @ t) \<noteq> CHR '':''"
    using colons_start [of "g' # gs" "''::'' @ t"] by blast+
  have eq: "colons (g # g' # gs) @ ''::'' @ t = hex_str g @ CHR '':'' # (colons (g' # gs) @ ''::'' @ t)" by simp
  have "parse6_loop k (colons (g # g' # gs) @ ''::'' @ t) acc None = parse6_loop k' (colons (g' # gs) @ ''::'' @ t) (acc @ group_bytes [g]) None"
    unfolding eq k using parse6_loop_group [of g "CHR '':'' # (colons (g' # gs) @ ''::'' @ t)" k' acc None] 3(4) st by simp
  also note IH
  finally show ?case using k by (simp add: Let_def)
qed simp

lemma zero_len_take: "take (zero_len gs) gs = replicate (zero_len gs) 0" "zero_len gs \<le> length gs"
  by (induction gs rule: zero_len.induct) auto

lemma zero_run_fold:
  assumes "\<And>r i. f r i = (let l = zero_len (drop i gs) in
      if l \<ge> 2 \<and> l > (case r of None \<Rightarrow> 0 | Some (s, n) \<Rightarrow> n) then Some (i, l) else r)"
  shows "foldl f r is = Some (s, n) \<Longrightarrow> r = Some (s, n) \<or> (s \<in> set is \<and> n = zero_len (drop s gs) \<and> 2 \<le> n)"
proof (induction "is" arbitrary: r)
  case (Cons i "is")
  then have "f r i = Some (s, n) \<or> (s \<in> set is \<and> n = zero_len (drop s gs) \<and> 2 \<le> n)" by simp
  then show ?case by (auto simp: assms Let_def split: if_splits)
qed simp

lemma zero_run_split:
  assumes "zero_run gs = Some (s, n)"
  shows "gs = take s gs @ replicate n 0 @ drop (s + n) gs" "s + n \<le> length gs" "2 \<le> n"
proof -
  have *: "s < length gs" "n = zero_len (drop s gs)" "2 \<le> n"
    using zero_run_fold [OF refl assms [unfolded zero_run_def]] by auto
  have "drop s gs = replicate n 0 @ drop n (drop s gs)"
    using zero_len_take(1) [of "drop s gs"] *(2) by (metis append_take_drop_id)
  then show "gs = take s gs @ replicate n 0 @ drop (s + n) gs"
    by (metis append_take_drop_id drop_drop add.commute)
  show "s + n \<le> length gs" using zero_len_take(2) [of "drop s gs"] * by simp
  show "2 \<le> n" by fact
qed

lemma group_bytes_zeros [simp]: "group_bytes (replicate n 0) = replicate (2 * n) 0"
  by (induction n) simp_all

lemma colons_Nil [simp]: "colons gs = [] \<longleftrightarrow> gs = []"
  using colons_start [of gs "[]"] by (cases gs) auto

lemma colons_no_ellipsis: "gs \<noteq> [] \<Longrightarrow> take 2 (colons gs @ t) \<noteq> ''::''"
  using colons_start [of gs t] by (cases "colons gs @ t") auto

lemma parse6_string6:
  assumes "length b = 16"
  shows "parse6 (string6 b) = Some b"
proof -
  define gs where "gs = groups b"
  have len: "length gs = 8" and gb: "group_bytes gs = b" and bound: "\<forall>g \<in> set gs. g < 65536"
    using assms by (simp_all add: gs_def length_groups group_bytes_groups groups_bound)
  show ?thesis
  proof (cases "zero_run gs")
    case None
    have "gs \<noteq> []" using len by auto
    then have "parse6_loop 8 (colons gs) [] None = Some (b, None, [])" "take 2 (colons gs) \<noteq> ''::''"
      using parse6_loop_colons [of gs 8 "[]" None] colons_no_ellipsis [of gs "[]"] bound len gb by simp_all
    then show ?thesis using None assms by (simp add: parse6_def string6_def gs_def expand6_def)
  next
    case (Some sn)
    obtain s n where sn: "sn = (s, n)" by (cases sn)
    define ts ds where "ts = take s gs" and "ds = drop (s + n) gs"
    have run: "zero_run gs = Some (s, n)" using Some sn by simp
    note z = zero_run_split [OF run, folded ts_def ds_def]
    have lens: "length ts = s" "length ds = 8 - (s + n)" "s + n \<le> 8" using z(2) len by (simp_all add: ts_def ds_def)
    have bnds: "\<forall>g \<in> set ts. g < 65536" "\<forall>g \<in> set ds. g < 65536"
      using bound by (auto simp: ts_def ds_def dest: in_set_takeD in_set_dropD)
    have b: "b = group_bytes ts @ replicate (2 * n) 0 @ group_bytes ds"
      using arg_cong [OF z(1), of group_bytes] gb by simp
    have str: "string6 b = colons ts @ ''::'' @ colons ds"
      using run by (simp add: string6_def gs_def [symmetric] ts_def ds_def)
    have "16 - (2 * s + 2 * (8 - (s + n))) = 2 * n" "2 * s + 2 * (8 - (s + n)) < 16" using lens(3) z(3) by presburger+
    then have fin: "expand6 (group_bytes ts @ group_bytes ds, Some (2 * s), []) = Some b"
      using lens by (simp add: expand6_def b)
    have rest: "parse6_loop (8 - s) (colons ds) (group_bytes ts) (Some (2 * s)) = Some (group_bytes ts @ group_bytes ds, Some (2 * s), [])"
      if "ds \<noteq> []" using parse6_loop_colons [OF that bnds(2), of "8 - s"] lens by simp
    show ?thesis
    proof (cases "ts = []")
      case True
      then have "s = 0" using lens by simp
      then show ?thesis using True rest fin lens b str by (cases "ds = []") (simp_all add: parse6_def)
    next
      case False
      have "parse6_loop 8 (string6 b) [] None = Some (group_bytes ts @ group_bytes ds, Some (2 * s), [])"
        using parse6_loop_ellipsis [OF False bnds(1), of 8 "colons ds" "[]"] lens rest str by (auto simp: Let_def)
      then show ?thesis using colons_no_ellipsis [OF False, of "''::'' @ colons ds"] str fin by (simp add: parse6_def)
    qed
  qed
qed

lemma nat_str_length: "n < 10 ^ Suc k \<Longrightarrow> length (nat_str n) \<le> Suc k"
proof (induction k arbitrary: n)
  case 0
  then show ?case by (simp add: nat_str.simps [of n])
next
  case (Suc k)
  then have "n div 10 < 10 ^ Suc k" by (simp add: div_less_iff_less_mult)
  with Suc.IH show ?case by (simp add: nat_str.simps [of n])
qed

lemma string4_start:
  assumes "length b = 4"
  obtains n r where "string4 b = nat_str n @ CHR ''.'' # r" "n \<le> 255"
proof -
  obtain w x y z where b: "b = [w, x, y, z]" using assms by (auto simp: numeral_eq_Suc length_Suc_conv)
  show thesis by (rule that [of "unat w" "join ''.'' (map (\<lambda>x. nat_str (unat x)) [x, y, z])"])
      (simp_all add: b string4_def byte_le)
qed

lemma string4_hd:
  assumes "length b = 4"
  shows "string4 b \<noteq> []" "dec_digit (hd (string4 b))"
proof -
  obtain n r where s: "string4 b = nat_str n @ CHR ''.'' # r" using string4_start [OF assms] .
  show "string4 b \<noteq> []" by (simp add: s)
  have "dec_digit (hd (nat_str n))" using nat_str_chars hd_in_set [OF nat_str_ne] by blast
  then show "dec_digit (hd (string4 b))" by (simp add: s)
qed

lemma parse6_loop_string4:
  assumes "length b = 4" "length acc \<le> 12"
  shows "parse6_loop (Suc k) (string4 b) acc (Some p) = Some (acc @ b, Some p, [])"
proof -
  obtain n r where s: "string4 b = nat_str n @ CHR ''.'' # r" and n: "n \<le> 255" using string4_start [OF assms(1)] .
  have "\<forall>c \<in> set (nat_str n). hex_char c"
    using nat_str_chars by (auto simp: dec_digit_def hex_char_def from_hex_char_def Let_def)
  then have tw: "takeWhile hex_char (string4 b) = nat_str n" "dropWhile hex_char (string4 b) = CHR ''.'' # r"
    by (simp_all add: s takeWhile_append dropWhile_append)
  have "\<not> (nat_str n = [] \<or> 4 < length (nat_str n))" using nat_str_length [of n 3] n by simp
  then show ?thesis using assms(2) parse4_string4 [OF assms(1)] by (simp add: tw Let_def)
qed

lemma parse6_mapped:
  assumes "length b = 4"
  shows "parse6 (''::ffff:'' @ string4 b) = Some (replicate 10 0 @ [255, 255] @ b)"
proof -
  have ff: "hex_str 65535 = ''ffff''" 
    by (simp add: hex_str.simps [of 65535] hex_str.simps [of 4095] hex_str.simps [of 255] hex_str.simps [of 15] hex_digit_def)
  have "hd (string4 b) \<noteq> CHR '':''" using string4_hd(2) [OF assms] by (auto simp: dec_digit_def)
  then have "parse6_loop (Suc 7) (hex_str 65535 @ CHR '':'' # string4 b) [] (Some 0) = parse6_loop 7 (string4 b) (group_bytes [65535]) (Some 0)"
    using parse6_loop_group [of 65535 "CHR '':'' # string4 b" 7 "[]" "Some 0"] string4_hd(1) [OF assms]
    by (simp del: parse6_loop.simps group_bytes_simps)
  also have "\<dots> = Some (group_bytes [65535] @ b, Some 0, [])"
    using parse6_loop_string4 [OF assms, of "group_bytes [65535]" 6 0] by (simp del: parse6_loop.simps group_bytes_simps(2))
  finally have "parse6_loop 8 (''ffff:'' @ string4 b) [] (Some 0) = Some ([255, 255] @ b, Some 0, [])"
    by (simp add: ff del: parse6_loop.simps)
  then show ?thesis using assms by (simp add: parse6_def expand6_def del: parse6_loop.simps)
qed

lemma not_dec_digit [simp]:
  "\<not> dec_digit (CHR ''.'')" "\<not> dec_digit (CHR '':'')" "\<not> dec_digit (CHR ''%'')" "\<not> dec_digit (CHR ''['')"
  by (simp_all add: dec_digit_def)

fun zoneless :: "addr \<Rightarrow> bool" where
  "zoneless (Addr6 b z) = (z = [])"
| "zoneless _ = True"

lemma colons_chars: "c \<in> set (colons gs) \<Longrightarrow> hex_char c \<or> c = CHR '':''"
proof (induction gs rule: remdups_adj.induct)
  case (3 g g' gs)
  then show ?case using hex_str_chars by (cases "g = g'") auto
qed (auto dest: hex_str_chars)

lemma string6_chars:
  assumes "length b = 16"
  shows "\<forall>c \<in> set (string6 b). hex_char c \<or> c = CHR '':''" "CHR '':'' \<in> set (string6 b)"
proof -
  show "\<forall>c \<in> set (string6 b). hex_char c \<or> c = CHR '':''"
    using colons_chars by (fastforce simp: string6_def Let_def split: option.splits prod.splits)
  have "length (groups b) = 8" using assms by (simp add: length_groups)
  then show "CHR '':'' \<in> set (string6 b)"
    by (cases "groups b" rule: remdups_adj.cases) (simp_all add: string6_def Let_def split: option.splits)
qed

lemma first_special:
  assumes "\<forall>c \<in> set s. hex_char c \<or> c = CHR '':''" "CHR '':'' \<in> set s"
  shows "\<exists>r. dropWhile (\<lambda>c. c \<notin> set ''.:%'') s = CHR '':'' # r" "CHR ''%'' \<notin> set s"
proof -
  have pc: "\<not> hex_char (CHR ''%'')" by (simp add: hex_char_def from_hex_char_def Let_def)
  then show "CHR ''%'' \<notin> set s" using assms(1) by auto
  show "\<exists>r. dropWhile (\<lambda>c. c \<notin> set ''.:%'') s = CHR '':'' # r"
    using assms pc
  proof (induction s)
    case (Cons c s)
    then show ?case by (cases "c = CHR '':''") auto
  qed simp
qed

lemma ParseAddr_v6:
  assumes "\<exists>r. dropWhile (\<lambda>c. c \<notin> set ''.:%'') s = CHR '':'' # r" "CHR ''%'' \<notin> set s" "parse6 s = Some b"
  shows "ParseAddr s = Some (Addr6 b [])"
proof -
  have all: "\<forall>c \<in> set s. c \<noteq> CHR ''%''" using assms(2) by blast
  then have tw: "takeWhile (\<lambda>c. c \<noteq> CHR ''%'') s = s" "dropWhile (\<lambda>c. c \<noteq> CHR ''%'') s = []"
    by (simp_all only: takeWhile_eq_all_conv dropWhile_eq_Nil_conv)
  obtain r where r: "dropWhile (\<lambda>c. c \<notin> set ''.:%'') s = CHR '':'' # r" using assms(1) ..
  show ?thesis unfolding ParseAddr_def r list.case tw Let_def assms(3) by simp
qed

lemma string4_chars: "c \<in> set (string4 b) \<Longrightarrow> dec_digit c \<or> c = CHR ''.''"
  unfolding string4_def
proof (induction b rule: remdups_adj.induct)
  case (3 x y b)
  then show ?case using nat_str_chars by (cases "x = y") auto
qed (auto dest: nat_str_chars)

lemma ParseAddr_String:
  assumes "wf_addr a" "addr_IsValid a" "zoneless a"
  shows "ParseAddr (addr_String a) = Some a"
proof (cases a)
  case (Addr4 b)
  then have b: "length b = 4" using assms(1) by simp
  obtain n r where s: "string4 b = nat_str n @ CHR ''.'' # r" using string4_start [OF b] .
  have "\<forall>c \<in> set (nat_str n). c \<notin> set ''.:%''" by (auto dest: nat_str_chars)
  then have "dropWhile (\<lambda>c. c \<notin> set ''.:%'') (string4 b) = CHR ''.'' # r" by (simp add: s dropWhile_append)
  then show ?thesis using Addr4 parse4_string4 [OF b] by (simp add: ParseAddr_def)
next
  case (Addr6 b z)
  then have b: "length b = 16" and z: "z = []" using assms by simp_all
  show ?thesis
  proof (cases "addr_Is4In6 (Addr6 b z)")
    case True
    have tail: "length (drop 12 b) = 4" and mapped: "replicate 10 0 @ [255, 255] @ drop 12 b = b"
      using True b append_take_drop_id [of 12 b] by simp_all
    have "CHR ''%'' \<notin> set (string4 (drop 12 b))" by (auto dest: string4_chars)
    then have "ParseAddr (''::ffff:'' @ string4 (drop 12 b)) = Some (Addr6 b [])"
      using ParseAddr_v6 [of "''::ffff:'' @ string4 (drop 12 b)" b] parse6_mapped [OF tail] mapped by simp
    then show ?thesis using True Addr6 z by (simp add: zone_suffix_def)
  next
    case False
    then have "addr_String a = string6 b" using Addr6 z by (simp add: zone_suffix_def)
    then show ?thesis
      using ParseAddr_v6 [OF first_special [OF string6_chars [OF b]] parse6_string6 [OF b]] Addr6 z by simp
  qed
qed (use assms in simp)

lemma ParseAddrPort_split:
  assumes "CHR '':'' \<notin> set port" "s = ip @ CHR '':'' # port"
  shows "rev (takeWhile (\<lambda>c. c \<noteq> CHR '':'') (rev s)) = port" "take (length s - length port - 1) s = ip"
  using assms by (simp_all add: takeWhile_append)

lemma ParseAddrPort_String:
  assumes "wf_addr (ap_addr p)" "addr_IsValid (ap_addr p)" "zoneless (ap_addr p)"
  shows "ParseAddrPort (addr_port_String p) = Some p"
proof -
  let ?port = "nat_str (unat (ap_port p))"
  have colon: "CHR '':'' \<notin> set ?port" by (auto dest: nat_str_chars)
  have "unat (ap_port p) \<le> 65535" using unsigned_less [of "ap_port p", where 'a = nat] by simp
  then have num: "parse_uint 65535 ?port = Some (unat (ap_port p))"
    by (simp add: parse_uint_def nat_str_digits nat_str_val)
  note addr = ParseAddr_String [OF assms]
  show ?thesis
  proof (cases "ap_addr p")
    case (Addr4 b)
    then have b: "length b = 4" using assms(1) by simp
    have s: "addr_port_String p = string4 b @ CHR '':'' # ?port" by (simp add: addr_port_String_def Addr4)
    have "hd (string4 b) \<noteq> CHR ''[''" using string4_hd(2) [OF b] by auto
    then show ?thesis
      using addr num ParseAddrPort_split [OF colon s] string4_hd(1) [OF b] Addr4 s
      by (simp add: ParseAddrPort_def Let_def)
  next
    case (Addr6 b z)
    have s: "addr_port_String p = (''['' @ addr_String (ap_addr p) @ '']'') @ CHR '':'' # ?port"
      by (simp add: addr_port_String_def Addr6)
    show ?thesis
      using addr num ParseAddrPort_split [OF colon s] Addr6 s
      by (simp add: ParseAddrPort_def Let_def butlast_append)
  qed (use assms in simp)
qed

end
