(* ===== verification/CrawlerNodes.thy ===== *)
theory CrawlerNodes
  imports DhtServer NamePolicy NetIPText
begin

text \<open>
  The stages of \<open>internal/dhtcrawler\<close> that talk to other DHT nodes and keep the routing table:
  \<open>node_admission.go\<close>, \<open>discovered_nodes.go\<close>, \<open>ping.go\<close>, \<open>find_node.go\<close>, \<open>get_peers.go\<close>, \<open>scrape.go\<close>
  and \<open>sample_infohashes.go\<close>. A stage is a function of one value taken from its channel, of what the
  query to the other node returned, and of the routing table; it gives the new table and the values it
  sends on. A loop that sends until the context is cancelled sends the first \<open>k\<close> of its values.
\<close>

section \<open>The crawler and the values of its channels\<close>

record crawler =
  cr_namePolicy :: "Policy option"
  cr_bootstrapNodes :: "string list"
  cr_reseedBootstrapNodesInterval :: int
  cr_getOldestNodesInterval :: int
  cr_oldPeerThreshold :: int
  cr_rescrapeThreshold :: int
  cr_saveFilesThreshold :: nat
  cr_savePieces :: bool
  cr_randomFallback :: bool
  cr_hasVerdicts :: bool
  cr_verdictsLive :: bool

record nodeHasPeersForHash =
  nh_infoHash :: ID
  nh_node :: addr_port

record infoHashWithPeers = nodeHasPeersForHash +
  ip_peers :: "addr_port list"

record 'f infoHashWithScrape = nodeHasPeersForHash +
  is_bfsd :: 'f
  is_bfpe :: 'f

text \<open>
  \<open>ktable.Node\<close>: a bare identifier with an address, or a node of the routing table, of which a stage
  sees the state at the time it runs.
\<close>

datatype Node = nodeBase ID addr_port | tableNode node

definition NewNode :: "ID \<Rightarrow> addr_port \<Rightarrow> Node" where
  "NewNode i a = nodeBase i a"

fun Node_ID :: "Node \<Rightarrow> ID" where
  "Node_ID (nodeBase i a) = i"
| "Node_ID (tableNode n) = nd_id n"

fun Node_Addr :: "Node \<Rightarrow> addr_port" where
  "Node_Addr (nodeBase i a) = a"
| "Node_Addr (tableNode n) = nd_addr n"

fun Node_Time :: "Node \<Rightarrow> time" where
  "Node_Time (nodeBase i a) = 0"
| "Node_Time (tableNode n) = node_Time n"

fun Node_Dropped :: "Node \<Rightarrow> bool" where
  "Node_Dropped (nodeBase i a) = False"
| "Node_Dropped (tableNode n) = node_Dropped n"

fun Node_IsSampleInfoHashesCandidate :: "time \<Rightarrow> Node \<Rightarrow> bool" where
  "Node_IsSampleInfoHashesCandidate now (nodeBase i a) = True"
| "Node_IsSampleInfoHashesCandidate now (tableNode n) = node_IsSampleInfoHashesCandidate now n"

text \<open>
  The text of an error inside \<open>fmt.Errorf\<close>: a nil pointer whose \<open>Error\<close> method panics is printed as
  nil by the formatter.
\<close>

definition err_text :: "goerr \<Rightarrow> string" where
  "err_text e = (case goerr_Error e of Inr s \<Rightarrow> s | Inl _ \<Rightarrow> ''<nil>'')"

section \<open>Admission (\<open>node_admission.go\<close>)\<close>

definition errPeerIsReadOnly :: string where
  "errPeerIsReadOnly = ''BEP-43: peer reply set ro=1''"

definition admitNodeFromReply :: "time \<Rightarrow> ID \<Rightarrow> addr_port \<Rightarrow> bool \<Rightarrow> NodeOption list \<Rightarrow> table \<Rightarrow> table res" where
  "admitNodeFromReply now i a readOnly extraOptions t =
     (if readOnly then BatchCommand now [DropNode i (Some errPeerIsReadOnly)] t
      else BatchCommand now [PutNode i a (NodeResponded # extraOptions)] t)"

section \<open>Discovered nodes (\<open>discovered_nodes.go\<close>)\<close>

fun dedup_nodes :: "Node list \<Rightarrow> (string \<rightharpoonup> Node) \<times> addr list \<Rightarrow> (string \<rightharpoonup> Node) \<times> addr list" where
  "dedup_nodes [] s = s"
| "dedup_nodes (p # ps) (m, addrs) =
     (let a = ap_addr (Node_Addr p) in
      if m (addr_String a) = None then dedup_nodes ps (m(addr_String a \<mapsto> p), addrs @ [a])
      else dedup_nodes ps (m, addrs))"

text \<open>
  Each node with an unknown address goes to whichever of the three channels is ready first: \<open>ready\<close>
  chooses. Looking up the map of nodes gives nil for a missing key.
\<close>

datatype node_chan = nodesForFindNode | nodesForSampleInfoHashes | nodesForPing

definition discoveredNodes_batch :: "(nat \<Rightarrow> node_chan) \<Rightarrow> nat \<Rightarrow> Node list \<Rightarrow> table \<Rightarrow> (node_chan \<times> Node option) list" where
  "discoveredNodes_batch ready k ps t =
     (let (m, addrs) = dedup_nodes ps (Map.empty, []);
          unknownAddrs = FilterKnownAddrs addrs t
      in take k (zip (map ready [0..<length unknownAddrs]) (map (\<lambda>a. m (addr_String a)) unknownAddrs)))"

section \<open>Ping (\<open>ping.go\<close>)\<close>

definition runPing_node :: "crawler \<Rightarrow> time \<Rightarrow> RecvMsg \<times> goerr \<Rightarrow> Node \<Rightarrow> table \<Rightarrow> table res" where
  "runPing_node c now q n t =
     (if Node_Dropped n \<or> Node_Time n > now + - cr_oldPeerThreshold c then Inr t
      else res_bind (client_Ping q) (\<lambda>reply.
        let (nodeID, err) =
          (case reply of
             Inl e \<Rightarrow> (ID_zero, Some (err_text e))
           | Inr res \<Rightarrow>
               if \<not> ID_IsZero (Node_ID n) \<and> Node_ID n \<noteq> pr_ID res
               then (Node_ID n, Some ''node responded with a mismatching ID'')
               else (pr_ID res, None))
        in case err of
             Some e \<Rightarrow> BatchCommand now [DropNode nodeID (Some (''failed to respond to ping: '' @ e))] t
           | None \<Rightarrow> admitNodeFromReply now nodeID (Node_Addr n)
               (case reply of Inr res \<Rightarrow> pr_ReadOnly res | Inl _ \<Rightarrow> False) [] t))"

definition getOldNodes_tick :: "crawler \<Rightarrow> time \<Rightarrow> ID list \<Rightarrow> nat \<Rightarrow> table \<Rightarrow> Node list" where
  "getOldNodes_tick c now order k t =
     take k (map tableNode (GetOldestPeers (now + - cr_oldPeerThreshold c) 0 order t))"

text \<open>\<open>reseedBootstrapNodes\<close>: \<open>resolve\<close> is the name service; an unresolved name is skipped.\<close>

definition reseedBootstrapNodes_tick :: "crawler \<Rightarrow> (string \<Rightarrow> addr_port option) \<Rightarrow> nat \<Rightarrow> Node list" where
  "reseedBootstrapNodes_tick c resolve k =
     take k (map (NewNode ID_zero) (List.map_filter resolve (cr_bootstrapNodes c)))"

section \<open>Find node (\<open>find_node.go\<close>)\<close>

definition getNodesForFindNode_tick :: "time \<Rightarrow> ID list \<Rightarrow> nat \<Rightarrow> table \<Rightarrow> Node list" where
  "getNodesForFindNode_tick now order k t = take k (map tableNode (GetOldestPeers (now + - (5 * Second)) 10 order t))"

definition new_nodes :: "client_NodeInfo list \<Rightarrow> Node list" where
  "new_nodes ns = map (\<lambda>n. NewNode (cn_ID n) (cn_Addr n)) ns"

definition runFindNode_node :: "time \<Rightarrow> RecvMsg \<times> goerr \<Rightarrow> nat \<Rightarrow> Node \<Rightarrow> table \<Rightarrow> (table \<times> Node list) res" where
  "runFindNode_node now q k p t =
     res_bind (client_FindNode q) (\<lambda>reply.
       case reply of
         Inl e \<Rightarrow> res_bind (BatchCommand now [DropNode (Node_ID p) (Some (''find_node failed: '' @ err_text e))] t)
           (\<lambda>t'. Inr (t', []))
       | Inr res \<Rightarrow> res_bind (admitNodeFromReply now (Node_ID p) (Node_Addr p) (fr_ReadOnly res) [] t)
           (\<lambda>t'. Inr (t', take k (new_nodes (fr_Nodes res)))))"

section \<open>Peers of a hash (\<open>get_peers.go\<close>, \<open>scrape.go\<close>)\<close>

text \<open>
  The loop that offers the returned nodes for a second: when the time is over, \<open>break\<close> only leaves the
  \<open>select\<close>, so every later node is still tried once. \<open>sent\<close> tells for which nodes the channel was ready.
\<close>

definition offer_nodes :: "(nat \<Rightarrow> bool) \<Rightarrow> client_NodeInfo list \<Rightarrow> Node list" where
  "offer_nodes sent ns = map snd (filter (\<lambda>(i, n). sent i) (enumerate 0 (new_nodes ns)))"

definition requestPeersForHash ::
  "time \<Rightarrow> RecvMsg \<times> goerr \<Rightarrow> (nat \<Rightarrow> bool) \<Rightarrow> nodeHasPeersForHash \<Rightarrow> table \<Rightarrow>
     (table \<times> Node list \<times> (string + infoHashWithPeers)) res" where
  "requestPeersForHash now q sent req t =
     res_bind (client_GetPeers q) (\<lambda>reply.
       case reply of
         Inl e \<Rightarrow> res_bind (BatchCommand now [DropAddr (ap_addr (nh_node req)) (Some (''failed to get peers: '' @ err_text e))] t)
           (\<lambda>t'. Inr (t', [], Inl (err_text e)))
       | Inr res \<Rightarrow> res_bind (admitNodeFromReply now (gp_ID res) (nh_node req) (gp_ReadOnly res) [] t)
           (\<lambda>t'. let nodes = offer_nodes sent (gp_Nodes res) in
             if length (gp_Values res) < 1 then Inr (t', nodes, Inl ''no peers found'')
             else Inr (t', nodes, Inr \<lparr>nh_infoHash = nh_infoHash req, nh_node = nh_node req, ip_peers = gp_Values res\<rparr>)))"

text \<open>\<open>done\<close>: the context is cancelled before the request is taken by the next stage.\<close>

definition runGetPeers_req ::
  "time \<Rightarrow> RecvMsg \<times> goerr \<Rightarrow> (nat \<Rightarrow> bool) \<Rightarrow> bool \<Rightarrow> nodeHasPeersForHash \<Rightarrow> table \<Rightarrow>
     (table \<times> Node list \<times> infoHashWithPeers list) res" where
  "runGetPeers_req now q sent done req t =
     res_bind (requestPeersForHash now q sent req t) (\<lambda>(t1, nodes, r).
       case r of
         Inl _ \<Rightarrow> Inr (t1, nodes, [])
       | Inr pfh \<Rightarrow>
           res_bind (BatchCommand now [PutHash (nh_infoHash req) (map (\<lambda>p. \<lparr>hp_Addr = p\<rparr>) (ip_peers pfh))] t1)
             (\<lambda>t2. Inr (t2, nodes, if done then []
                else [\<lparr>nh_infoHash = nh_infoHash req, nh_node = nh_node req, ip_peers = ip_peers pfh\<rparr>])))"

definition requestScrape ::
  "(ScrapeBloomFilter \<Rightarrow> 'f) \<Rightarrow> time \<Rightarrow> RecvMsg \<times> goerr \<Rightarrow> (nat \<Rightarrow> bool) \<Rightarrow> nodeHasPeersForHash \<Rightarrow> table \<Rightarrow>
     (table \<times> Node list \<times> (string + 'f infoHashWithScrape)) res" where
  "requestScrape FromScrape now q sent req t =
     res_bind (client_GetPeersScrape FromScrape q) (\<lambda>reply.
       case reply of
         Inl e \<Rightarrow> res_bind (BatchCommand now [DropAddr (ap_addr (nh_node req))
               (Some (''failed to get peers from p: '' @ err_text e))] t)
           (\<lambda>t'. Inr (t', [], Inl (err_text e)))
       | Inr res \<Rightarrow> res_bind (admitNodeFromReply now (gs_ID res) (nh_node req) (gs_ReadOnly res) [] t)
           (\<lambda>t'. Inr (t', offer_nodes sent (gs_Nodes res),
             Inr \<lparr>nh_infoHash = nh_infoHash req, nh_node = nh_node req,
                  is_bfsd = gs_BfSeeders res, is_bfpe = gs_BfPeers res\<rparr>)))"

definition runScrape_req ::
  "(ScrapeBloomFilter \<Rightarrow> 'f) \<Rightarrow> time \<Rightarrow> RecvMsg \<times> goerr \<Rightarrow> (nat \<Rightarrow> bool) \<Rightarrow> bool \<Rightarrow> nodeHasPeersForHash \<Rightarrow> table \<Rightarrow>
     (table \<times> Node list \<times> 'f infoHashWithScrape list) res" where
  "runScrape_req FromScrape now q sent done req t =
     res_bind (requestScrape FromScrape now q sent req t) (\<lambda>(t1, nodes, r).
       case r of
         Inl _ \<Rightarrow> Inr (t1, nodes, [])
       | Inr pfh \<Rightarrow> Inr (t1, nodes, if done then []
           else [\<lparr>nh_infoHash = nh_infoHash req, nh_node = nh_node req, is_bfsd = is_bfsd pfh, is_bfpe = is_bfpe pfh\<rparr>]))"

section \<open>Samples (\<open>sample_infohashes.go\<close>)\<close>

definition nextSampleInterval :: "int \<Rightarrow> int \<Rightarrow> int" where
  "nextSampleInterval fromPeer discoveredNew = fromPeer"

definition getNodesForSampleInfoHashes_tick :: "crawler \<Rightarrow> time \<Rightarrow> ID list \<Rightarrow> nat \<Rightarrow> table \<Rightarrow> Node list res" where
  "getNodesForSampleInfoHashes_tick c now order k t =
     (if cr_randomFallback c then Inr []
      else res_bind (GetNodesForSampleInfoHashes now 60 order t) (\<lambda>peers. Inr (take k (map tableNode peers))))"

text \<open>
  \<open>ignoreHashes.testAndAdd\<close> over the samples: the third-party stable Bloom filter is a parameter that
  answers and gives its new state.
\<close>

fun sample_loop :: "('i \<Rightarrow> ID \<Rightarrow> bool \<times> 'i) \<Rightarrow> addr_port \<Rightarrow> ID list \<Rightarrow> 'i \<Rightarrow> nodeHasPeersForHash list \<times> 'i" where
  "sample_loop testAndAdd a [] ig = ([], ig)"
| "sample_loop testAndAdd a (s # ss) ig =
     (let (seen, ig1) = testAndAdd ig s; (rest, ig2) = sample_loop testAndAdd a ss ig1 in
      (if seen then rest else \<lparr>nh_infoHash = s, nh_node = a\<rparr> # rest, ig2))"

definition runSampleInfoHashes_node ::
  "('i \<Rightarrow> ID \<Rightarrow> bool \<times> 'i) \<Rightarrow> time \<Rightarrow> RecvMsg \<times> goerr \<Rightarrow> nat \<Rightarrow> nat \<Rightarrow> Node \<Rightarrow> table \<times> 'i \<Rightarrow>
     (table \<times> 'i \<times> nodeHasPeersForHash list \<times> Node list) res" where
  "runSampleInfoHashes_node testAndAdd now q k k' n s =
     (let (t, ig) = s in
      if \<not> Node_IsSampleInfoHashesCandidate now n then Inr (t, ig, [], [])
      else res_bind (client_SampleInfoHashes q) (\<lambda>reply.
        case reply of
          Inl e \<Rightarrow> res_bind (BatchCommand now [DropNode (Node_ID n) (Some (''sample_infohashes failed: '' @ err_text e))] t)
            (\<lambda>t'. Inr (t', ig, [], []))
        | Inr res \<Rightarrow>
            let (discoveredHashes, ig') = sample_loop testAndAdd (Node_Addr n) (si_Samples res) ig;
                len = int (length discoveredHashes);
                interval = nextSampleInterval (si_Interval res) len
            in if k < length discoveredHashes then Inr (t, ig', take k discoveredHashes, [])
               else res_bind (admitNodeFromReply now (Node_ID n) (Node_Addr n) (si_ReadOnly res)
                   [NodeBep51Support True, NodeSampleInfoHashesRes len (si_Num res) (now + wrap64 (interval * Second))] t)
                 (\<lambda>t'. Inr (t', ig', discoveredHashes, take k' (new_nodes (si_Nodes res))))))"

section \<open>The stages keep the routing table\<close>

text \<open>
  What a query returns: an error, or a message that carries return data; identifiers in return data
  have twenty bytes.
\<close>

definition reply_ok :: "RecvMsg \<times> goerr \<Rightarrow> bool" where
  "reply_ok q \<longleftrightarrow>
     (snd q = NoErr \<longrightarrow> mg_R (rm_Msg (fst q)) \<noteq> None) \<and>
     (case mg_R (rm_Msg (fst q)) of Some r \<Rightarrow> wf_ID (rt_ID r) | None \<Rightarrow> True)"

lemma query_result_reply_ok:
  "(case mg_R (rm_Msg res) of Some r \<Rightarrow> wf_ID (rt_ID r) | None \<Rightarrow> True) \<Longrightarrow> reply_ok (query_result res)"
  by (simp add: reply_ok_def query_result_def)

lemma batch_reach:
  assumes "table_reach org t" "wf_ID org" "wf_command c"
  shows "\<exists>t'. BatchCommand now [c] t = Inr t' \<and> table_reach org t'"
proof -
  obtain t' where "BatchCommand now [c] t = Inr t'"
    using BatchCommand_ok [OF table_reach_ok [OF assms(1,2)], of "[c]" now] assms(3) by auto
  with assms show ?thesis by (auto intro: table_reach.batch [of org t "[c]" now])
qed

lemma admit_reach:
  assumes "table_reach org t" "wf_ID org" "wf_ID i"
  shows "\<exists>t'. admitNodeFromReply now i a ro opts t = Inr t' \<and> table_reach org t'"
  using batch_reach [OF assms(1,2), of "DropNode i (Some errPeerIsReadOnly)" now]
    batch_reach [OF assms(1,2), of "PutNode i a (NodeResponded # opts)" now] assms(3)
  by (simp add: admitNodeFromReply_def del: BatchCommand.simps)

lemma wf_ID_zero [simp]: "wf_ID ID_zero"
  by (simp add: wf_ID_def ID_zero_def)

lemma with_return_ok:
  "reply_ok q \<Longrightarrow> snd q = NoErr \<Longrightarrow> \<exists>r. mg_R (rm_Msg (fst q)) = Some r \<and> wf_ID (rt_ID r)"
  by (auto simp: reply_ok_def split: option.splits)

lemma runPing_reach:
  assumes "table_reach org t" "wf_ID org" "reply_ok q" "wf_ID (Node_ID n)"
  shows "\<exists>t'. runPing_node c now q n t = Inr t' \<and> table_reach org t'"
proof (cases "snd q = NoErr")
  case True
  obtain r where r: "mg_R (rm_Msg (fst q)) = Some r" "wf_ID (rt_ID r)" using with_return_ok [OF assms(3) True] by blast
  show ?thesis
    using True r assms(1,4) batch_reach [OF assms(1,2), of "DropNode (Node_ID n) _"] admit_reach [OF assms(1,2) r(2)]
    by (simp add: runPing_node_def client_Ping_def with_return_def Let_def del: BatchCommand.simps)
next
  case False
  then show ?thesis
    using assms(1) batch_reach [OF assms(1,2), of "DropNode ID_zero _"]
    by (simp add: runPing_node_def client_Ping_def Let_def del: BatchCommand.simps)
qed

lemma runFindNode_reach:
  assumes "table_reach org t" "wf_ID org" "reply_ok q" "wf_ID (Node_ID n)"
  shows "\<exists>t' ns. runFindNode_node now q k n t = Inr (t', ns) \<and> table_reach org t'"
proof (cases "snd q = NoErr")
  case True
  obtain r where r: "mg_R (rm_Msg (fst q)) = Some r" using with_return_ok [OF assms(3) True] by blast
  obtain t' where "admitNodeFromReply now (Node_ID n) (Node_Addr n) (mg_ReadOnly (rm_Msg (fst q))) [] t = Inr t'"
      "table_reach org t'"
    using admit_reach [OF assms(1,2,4)] by blast
  with True r show ?thesis by (simp add: runFindNode_node_def client_FindNode_def with_return_def)
next
  case False
  obtain t' where "BatchCommand now [DropNode (Node_ID n) (Some (''find_node failed: '' @ err_text (snd q)))] t = Inr t'"
      "table_reach org t'"
    using batch_reach [OF assms(1,2), of "DropNode (Node_ID n) _"] assms(4) by (metis wf_command.simps(2))
  with False show ?thesis by (simp add: runFindNode_node_def client_FindNode_def del: BatchCommand.simps)
qed

lemma requestPeersForHash_reach:
  assumes "table_reach org t" "wf_ID org" "reply_ok q"
  shows "\<exists>t' ns r. requestPeersForHash now q sent req t = Inr (t', ns, r) \<and> table_reach org t'"
proof (cases "snd q = NoErr")
  case True
  obtain r where r: "mg_R (rm_Msg (fst q)) = Some r" "wf_ID (rt_ID r)" using with_return_ok [OF assms(3) True] by blast
  obtain t' where "admitNodeFromReply now (rt_ID r) (nh_node req) (mg_ReadOnly (rm_Msg (fst q))) [] t = Inr t'"
      "table_reach org t'"
    using admit_reach [OF assms(1,2) r(2)] by blast
  with True r show ?thesis by (simp add: requestPeersForHash_def client_GetPeers_def with_return_def Let_def)
next
  case False
  obtain t' where "BatchCommand now [DropAddr (ap_addr (nh_node req)) (Some (''failed to get peers: '' @ err_text (snd q)))] t = Inr t'"
      "table_reach org t'"
    using batch_reach [OF assms(1,2), of "DropAddr _ _"] by (metis wf_command.simps(3))
  with False show ?thesis by (simp add: requestPeersForHash_def client_GetPeers_def del: BatchCommand.simps)
qed

lemma runGetPeers_reach:
  assumes "table_reach org t" "wf_ID org" "reply_ok q" "wf_ID (nh_infoHash req)"
  shows "\<exists>t' ns rs. runGetPeers_req now q sent dn req t = Inr (t', ns, rs) \<and> table_reach org t'"
proof -
  obtain t1 ns r where 1: "requestPeersForHash now q sent req t = Inr (t1, ns, r)" "table_reach org t1"
    using requestPeersForHash_reach [OF assms(1-3)] by blast
  show ?thesis
  proof (cases r)
    case (Inr pfh)
    obtain t2 where "BatchCommand now [PutHash (nh_infoHash req) (map (\<lambda>p. \<lparr>hp_Addr = p\<rparr>) (ip_peers pfh))] t1 = Inr t2"
        "table_reach org t2"
      using batch_reach [OF 1(2) assms(2), of "PutHash _ _"] assms(4) by (metis wf_command.simps(4))
    with 1 Inr show ?thesis by (simp add: runGetPeers_req_def del: BatchCommand.simps)
  qed (use 1 in \<open>simp add: runGetPeers_req_def\<close>)
qed

lemma requestScrape_reach:
  assumes "table_reach org t" "wf_ID org" "reply_ok q"
  shows "\<exists>t' ns r. requestScrape conv now q sent req t = Inr (t', ns, r) \<and> table_reach org t'"
proof -
  have drop: "\<exists>t'. BatchCommand now [DropAddr a r] t = Inr t' \<and> table_reach org t'" for a r
    using batch_reach [OF assms(1,2), of "DropAddr a r" now] by simp
  show ?thesis
  proof (cases "snd q = NoErr")
    case True
    obtain r where r: "mg_R (rm_Msg (fst q)) = Some r" "wf_ID (rt_ID r)" using with_return_ok [OF assms(3) True] by blast
    obtain t' where "admitNodeFromReply now (rt_ID r) (nh_node req) (mg_ReadOnly (rm_Msg (fst q))) [] t = Inr t'"
        "table_reach org t'"
      using admit_reach [OF assms(1,2) r(2)] by blast
    with True r drop show ?thesis
      by (auto simp: requestScrape_def client_GetPeersScrape_def with_return_def simp del: BatchCommand.simps
          split: option.splits)
         (metis (no_types, lifting) res_bind_Inr)+
  next
    case False
    with drop show ?thesis
      by (simp add: requestScrape_def client_GetPeersScrape_def del: BatchCommand.simps) (metis res_bind_Inr)
  qed
qed

lemma runScrape_reach:
  assumes "table_reach org t" "wf_ID org" "reply_ok q"
  shows "\<exists>t' ns rs. runScrape_req conv now q sent dn req t = Inr (t', ns, rs) \<and> table_reach org t'"
  using requestScrape_reach [OF assms, of conv now sent req]
  by (auto simp: runScrape_req_def split: sum.splits)

lemma runSampleInfoHashes_reach:
  assumes "table_reach org t" "wf_ID org" "reply_ok q" "wf_ID (Node_ID n)"
  shows "\<exists>t' ig' hs ns. runSampleInfoHashes_node taa now q k k' n (t, ig) = Inr (t', ig', hs, ns) \<and> table_reach org t'"
proof (cases "Node_IsSampleInfoHashesCandidate now n")
  case cand: True
  show ?thesis
  proof (cases "snd q = NoErr")
    case True
    obtain r where r: "mg_R (rm_Msg (fst q)) = Some r" using with_return_ok [OF assms(3) True] by blast
    have adm: "\<exists>t'. admitNodeFromReply now (Node_ID n) (Node_Addr n) ro opts t = Inr t' \<and> table_reach org t'" for ro opts
      using admit_reach [OF assms(1,2,4)] by blast
    with True r cand assms(1) show ?thesis
      by (auto simp: runSampleInfoHashes_node_def client_SampleInfoHashes_def with_return_def Let_def res_bind_def
          split: prod.splits sum.splits) (metis Inr_inject sum.distinct(1))+
  next
    case False
    obtain t' where "BatchCommand now [DropNode (Node_ID n) (Some (''sample_infohashes failed: '' @ err_text (snd q)))] t = Inr t'"
        "table_reach org t'"
      using batch_reach [OF assms(1,2), of "DropNode (Node_ID n) _"] assms(4) by (metis wf_command.simps(2))
    with False cand show ?thesis
      by (simp add: runSampleInfoHashes_node_def client_SampleInfoHashes_def del: BatchCommand.simps)
  qed
qed (use assms(1) in \<open>simp add: runSampleInfoHashes_node_def\<close>)

text \<open>
  One step of any worker: whatever value its channel delivers and whatever the other node answers,
  the table changes as the stage says.
\<close>

inductive crawl_step :: "table \<Rightarrow> table \<Rightarrow> bool" where
  ping: "reply_ok q \<Longrightarrow> wf_ID (Node_ID n) \<Longrightarrow> runPing_node c now q n t = Inr t' \<Longrightarrow> crawl_step t t'"
| find_node: "reply_ok q \<Longrightarrow> wf_ID (Node_ID n) \<Longrightarrow> runFindNode_node now q k n t = Inr (t', ns) \<Longrightarrow> crawl_step t t'"
| get_peers: "reply_ok q \<Longrightarrow> wf_ID (nh_infoHash req) \<Longrightarrow> runGetPeers_req now q sent dn req t = Inr (t', ns, rs) \<Longrightarrow>
    crawl_step t t'"
| scrape: "reply_ok q \<Longrightarrow> runScrape_req (id :: ScrapeBloomFilter \<Rightarrow> _) now q sent dn req t = Inr (t', ns, ss) \<Longrightarrow> crawl_step t t'"
| sample: "reply_ok q \<Longrightarrow> wf_ID (Node_ID n) \<Longrightarrow>
    runSampleInfoHashes_node (\<lambda>seen h. (h \<in> seen, insert h seen)) now q k k' n (t, ig) = Inr (t', ig', hs, ns) \<Longrightarrow>
    crawl_step t t'"

lemma crawl_step_reach: "crawl_step t t' \<Longrightarrow> table_reach org t \<Longrightarrow> wf_ID org \<Longrightarrow> table_reach org t'"
proof (induction rule: crawl_step.induct)
  case (ping q n c now t t')
  then show ?case using runPing_reach [of org t q n c now] by auto
next
  case (find_node q n now k t t' ns)
  then show ?case using runFindNode_reach [of org t q n now k] by auto
next
  case (get_peers q req now sent dn t t' ns rs)
  then show ?case using runGetPeers_reach [of org t q req now sent dn] by auto
next
  case (scrape q now sent dn req t t' ns ss)
  then show ?case using runScrape_reach [of org t q id now sent dn req] by auto
next
  case (sample q n now k k' t ig t' ig' hs ns)
  then show ?case
    using runSampleInfoHashes_reach [of org t q n "\<lambda>seen h. (h \<in> seen, insert h seen)" now k k' ig] by auto
qed

lemma crawl_reach: "crawl_step\<^sup>*\<^sup>* t t' \<Longrightarrow> table_reach org t \<Longrightarrow> wf_ID org \<Longrightarrow> table_reach org t'"
  by (induction rule: rtranclp_induct) (auto intro: crawl_step_reach)

text \<open>C12.
  Whatever the workers do, in any order, and whatever the nodes they query answer, the routing table
  of a running crawler stays one that batches of commands on a fresh table produce, and no stage
  panics on it: every ping, find_node, get_peers, scrape and sample_infohashes returns.\<close>

theorem crawl_keeps_table:
  assumes "wf_ID org" and "crawl_step\<^sup>*\<^sup>* (newTable org) t" and "reply_ok q" and "wf_ID (Node_ID n)"
    and "wf_ID (nh_infoHash req)"
  shows "table_reach org t \<and>
     is_ok (runPing_node c now q n t) \<and> is_ok (runFindNode_node now q k n t) \<and>
     is_ok (runGetPeers_req now q sent dn req t) \<and> is_ok (runScrape_req conv now q sent dn req t) \<and>
     is_ok (runSampleInfoHashes_node taa now q k k' n (t, ig))"
proof -
  have reach: "table_reach org t" using crawl_reach [OF assms(2) table_reach.new assms(1)] .
  note r = this assms(1,3)
  show ?thesis
    using reach runPing_reach [OF r assms(4), of c now] runFindNode_reach [OF r assms(4), of now k]
      runGetPeers_reach [OF r assms(5), of now sent dn] runScrape_reach [OF r, of conv now sent dn req]
      runSampleInfoHashes_reach [OF r assms(4), of taa now k k' ig]
    by (auto simp: is_ok_iff)
qed

definition demo_node :: Node where
  "demo_node = NewNode (replicate 20 7) \<lparr>ap_addr = Addr4 [1, 2, 3, 4], ap_port = 6881\<rparr>"

definition demo_reply :: "RecvMsg \<times> goerr" where
  "demo_reply = query_result (demo_response\<lparr>rm_Msg := Msg_zero\<lparr>mg_R := Some (Return_zero\<lparr>rt_ID := replicate 20 7\<rparr>)\<rparr>\<rparr>)"

lemma demo_reply_ok: "reply_ok demo_reply" "wf_ID (Node_ID demo_node)"
  by (simp_all add: demo_reply_def demo_node_def NewNode_def wf_ID_def query_result_reply_ok)

theorem crawl_keeps_table_witness:
  "is_ok (runFindNode_node 5 demo_reply 0 demo_node (newTable (replicate 20 0)))"
proof -
  have "wf_ID (replicate 20 0)" by (simp add: wf_ID_def)
  moreover have "wf_ID (nh_infoHash \<lparr>nh_infoHash = ID_zero, nh_node = Node_Addr demo_node\<rparr>)" by simp
  ultimately show ?thesis
    using crawl_keeps_table [where t = "newTable (replicate 20 0)" and now = 5 and k = 0
        and req = "\<lparr>nh_infoHash = ID_zero, nh_node = Node_Addr demo_node\<rparr>"
        and conv = "id :: ScrapeBloomFilter \<Rightarrow> _" and taa = "\<lambda>u _. (True, u :: unit)", OF _ rtranclp.rtrancl_refl demo_reply_ok]
    by simp
qed

subsection \<open>Read-only nodes\<close>

lemma drop_items:
  assumes "table_reach org t" "wf_ID org" "wf_ID i" "BatchCommand now [DropNode i reason] t = Inr t'"
  shows "ks_items (tb_nodes t') = (ks_items (tb_nodes t))(i := None)"
  using table_reach_ok [OF assms(1,2)] assms(3)
  by (cases rule: DropNode_outcome [where reason = reason and now = now]) (use assms(4) in auto)

lemma admit_read_only:
  assumes "table_reach org t" "wf_ID org" "wf_ID i"
  shows "\<exists>t'. admitNodeFromReply now i a True opts t = Inr t' \<and> table_reach org t' \<and>
     ks_items (tb_nodes t') = (ks_items (tb_nodes t))(i := None)"
proof -
  obtain t' where "BatchCommand now [DropNode i (Some errPeerIsReadOnly)] t = Inr t'" "table_reach org t'"
    using batch_reach [OF assms(1,2), of "DropNode i _"] assms(3) by (metis wf_command.simps(2))
  with drop_items [OF assms] show ?thesis by (simp add: admitNodeFromReply_def del: BatchCommand.simps)
qed

lemma put_hash_nodes:
  assumes "table_reach org t" "wf_ID org" "wf_ID i" "BatchCommand now [PutHash i ps] t = Inr t'"
  shows "tb_nodes t' = tb_nodes t"
  using table_reach_ok [OF assms(1,2)] assms(3)
  by (cases rule: PutHash_outcome [where ps = ps and now = now]) (use assms(4) in auto)

lemma sample_loop_length: "length (fst (sample_loop taa a ss ig)) \<le> length ss"
proof (induction ss arbitrary: ig)
  case (Cons s ss)
  show ?case using Cons.IH [of "snd (taa ig s)"] by (auto simp: Let_def split: prod.splits)
qed simp

lemma runGetPeers_read_only:
  assumes "table_reach org t" "wf_ID org" "mg_ReadOnly (rm_Msg m)"
    and "mg_R (rm_Msg m) = Some r" and "wf_ID (rt_ID r)" and "wf_ID (nh_infoHash req)"
  shows "\<exists>t' ns rs. runGetPeers_req now (m, NoErr) sent dn req t = Inr (t', ns, rs) \<and>
     ks_items (tb_nodes t') = (ks_items (tb_nodes t))(rt_ID r := None)"
proof -
  obtain t1 where t1: "admitNodeFromReply now (rt_ID r) (nh_node req) True [] t = Inr t1" "table_reach org t1"
      "ks_items (tb_nodes t1) = (ks_items (tb_nodes t))(rt_ID r := None)"
    using admit_read_only [OF assms(1,2,5)] by blast
  obtain t2 where t2: "BatchCommand now [PutHash (nh_infoHash req) (map (\<lambda>p. \<lparr>hp_Addr = p\<rparr>) (extractValues r))] t1 = Inr t2"
    using batch_reach [OF t1(2) assms(2), of "PutHash _ _"] assms(6) by (metis wf_command.simps(4))
  with put_hash_nodes [OF t1(2) assms(2,6)] t1 assms(3,4) show ?thesis
    by (auto simp: runGetPeers_req_def requestPeersForHash_def client_GetPeers_def with_return_def Let_def
        simp del: BatchCommand.simps)
qed

lemma runSample_read_only:
  assumes "table_reach org t" "wf_ID org" "mg_ReadOnly (rm_Msg m)" and "mg_R (rm_Msg m) = Some r"
    and "wf_ID (Node_ID n)" and "Node_IsSampleInfoHashesCandidate now n"
    and "length (case rt_Samples r of None \<Rightarrow> [] | Some s \<Rightarrow> s) \<le> k"
  shows "\<exists>t' ig' hs ns. runSampleInfoHashes_node taa now (m, NoErr) k k' n (t, ig) = Inr (t', ig', hs, ns) \<and>
     ks_items (tb_nodes t') = (ks_items (tb_nodes t))(Node_ID n := None)"
proof -
  let ?ss = "case rt_Samples r of None \<Rightarrow> [] | Some s \<Rightarrow> s"
  obtain hs ig' where l: "sample_loop taa (Node_Addr n) ?ss ig = (hs, ig')" by fastforce
  have "\<not> k < length hs" using sample_loop_length [of taa "Node_Addr n" ?ss ig] assms(7) l by simp
  with l admit_read_only [OF assms(1,2,5)] assms(3,4,6) show ?thesis
    by (simp add: runSampleInfoHashes_node_def client_SampleInfoHashes_def with_return_def Let_def)
      (metis (no_types, lifting) res_bind_Inr)
qed



subsection \<open>Unresponsive nodes\<close>

text \<open>C34.
  Pinging does not prune: when a stale node of the table does not answer its ping, or answers with
  an error, the stage drops the zero identifier, so the node keeps its place. A failed find_node, in
  contrast, removes the node.\<close>

theorem unresponsive_node_survives_ping:
  assumes "table_reach org t" "wf_ID org" "ks_items (tb_nodes t) i = Some n" "wf_ID i" "i \<noteq> ID_zero"
    and "nd_lastRespondedAt n \<le> now - cr_oldPeerThreshold c" "e \<noteq> NoErr"
  shows "(\<exists>t'. runPing_node c now (m, e) (tableNode n) t = Inr t' \<and> ks_items (tb_nodes t') i = Some n) \<and>
     (\<exists>t'. runFindNode_node now (m, e) k (tableNode n) t = Inr (t', []) \<and> ks_items (tb_nodes t') i = None)"
proof
  note ok = table_okD [OF table_reach_ok [OF assms(1,2)]]
  have n: "nd_id n = i" "\<not> node_Dropped n"
    using ok(1) live_nodesD [OF ok(5) assms(3)] assms(3) by (auto simp: ks_invar_def)
  define d where "d = Some (''failed to respond to ping: '' @ err_text e)"
  obtain t' where "BatchCommand now [DropNode ID_zero d] t = Inr t'"
    using batch_reach [OF assms(1,2), of "DropNode ID_zero d" now] by auto
  with drop_items [OF assms(1,2) wf_ID_zero] assms n
  show "\<exists>t'. runPing_node c now (m, e) (tableNode n) t = Inr t' \<and> ks_items (tb_nodes t') i = Some n"
    by (auto simp: runPing_node_def client_Ping_def node_Time_def d_def simp del: BatchCommand.simps)
  define f where "f = Some (''find_node failed: '' @ err_text e)"
  obtain t2 where "BatchCommand now [DropNode i f] t = Inr t2"
    using batch_reach [OF assms(1,2), of "DropNode i f" now] assms(4) by auto
  with drop_items [OF assms(1,2,4)] assms(7) n
  show "\<exists>t'. runFindNode_node now (m, e) k (tableNode n) t = Inr (t', []) \<and> ks_items (tb_nodes t') i = None"
    by (auto simp: runFindNode_node_def client_FindNode_def f_def simp del: BatchCommand.simps)
qed

definition demo_crawler :: crawler where
  "demo_crawler = \<lparr>cr_namePolicy = None, cr_bootstrapNodes = [], cr_reseedBootstrapNodesInterval = 10 * Minute,
     cr_getOldestNodesInterval = 10 * Second, cr_oldPeerThreshold = 15 * Minute, cr_rescrapeThreshold = 720 * Hour,
     cr_saveFilesThreshold = 100, cr_savePieces = False, cr_randomFallback = False, cr_hasVerdicts = True,
     cr_verdictsLive = True\<rparr>"

lemma demo_table:
  obtains t n where "PutNode_exec 5 (replicate 20 7) (Node_Addr demo_node) [] (newTable (replicate 20 0)) = Inr (t, PutAccepted)"
    "table_reach (replicate 20 0) t" "ks_items (tb_nodes t) = [replicate 20 7 \<mapsto> n]" "nd_lastRespondedAt n = 0"
    "nd_addr n = Node_Addr demo_node" "nd_id n = replicate 20 7"
proof -
  let ?i = "replicate 20 7 :: ID" and ?T = "newTable (replicate 20 0)"
  have wf: "wf_ID (replicate 20 0)" "wf_ID ?i" by (simp_all add: wf_ID_def)
  obtain t where t: "PutNode_exec 5 ?i (Node_Addr demo_node) [] ?T = Inr (t, PutAccepted)"
    using fresh_table_put [OF wf, of "Node_Addr demo_node" 5 "[]"]
    by (auto simp: demo_node_def NewNode_def addr_port_IsValid_def)
  have "BatchCommand 5 [PutNode ?i (Node_Addr demo_node) []] ?T = Inr t" using t by simp
  then have reach: "table_reach (replicate 20 0) t"
    using table_reach.batch [OF table_reach.new, of "[PutNode ?i (Node_Addr demo_node) []]"] wf(2)
    by (auto simp del: BatchCommand.simps)
  have none: "ks_items (tb_nodes ?T) = Map.empty" by (simp add: newTable_def patch_keyspace_def newKeyspace_def)
  have "\<exists>n. ks_items (tb_nodes t) = [?i \<mapsto> n] \<and> nd_lastRespondedAt n = 0 \<and> nd_addr n = Node_Addr demo_node \<and> nd_id n = ?i"
    using newTable_ok [OF wf(1)] wf(2)
    by (cases rule: PutNode_outcome [where a = "Node_Addr demo_node" and opts = "[]" and now = 5])
      (use t none in \<open>auto simp: new_node_def\<close>)
  with t reach that show thesis by blast
qed

theorem unresponsive_node_survives_ping_witness:
  "\<exists>t n t'. PutNode_exec 5 (replicate 20 7) (Node_Addr demo_node) [] (newTable (replicate 20 0)) = Inr (t, PutAccepted) \<and>
     ks_items (tb_nodes t) (replicate 20 7) = Some n \<and>
     runPing_node demo_crawler (60 * Minute) (demo_response, ErrTimeout) (tableNode n) t = Inr t' \<and>
     ks_items (tb_nodes t') (replicate 20 7) = Some n"
proof -
  let ?i = "replicate 20 7 :: ID"
  have wf: "wf_ID (replicate 20 0)" "wf_ID ?i" by (simp_all add: wf_ID_def)
  obtain t n where t: "PutNode_exec 5 ?i (Node_Addr demo_node) [] (newTable (replicate 20 0)) = Inr (t, PutAccepted)"
    "table_reach (replicate 20 0) t" "ks_items (tb_nodes t) = [?i \<mapsto> n]" "nd_lastRespondedAt n = 0"
    by (rule demo_table)
  have n: "ks_items (tb_nodes t) ?i = Some n" using t(3) by simp
  have "?i \<noteq> ID_zero" by (simp add: ID_zero_def)
  moreover have "nd_lastRespondedAt n \<le> 60 * Minute - cr_oldPeerThreshold demo_crawler"
    using t(4) by (simp add: demo_crawler_def)
  ultimately show ?thesis
    using unresponsive_node_survives_ping [OF t(2) wf(1) n wf(2), of "60 * Minute" demo_crawler ErrTimeout demo_response]
      t(1) n by blast
qed

subsection \<open>Discovered nodes\<close>

definition dedup_inv :: "Node set \<Rightarrow> (string \<rightharpoonup> Node) \<times> addr list \<Rightarrow> bool" where
  "dedup_inv ps s \<longleftrightarrow> dom (fst s) = addr_String ` set (snd s) \<and> distinct (map addr_String (snd s)) \<and>
     (\<forall>k p. fst s k = Some p \<longrightarrow> p \<in> ps \<and> addr_String (ap_addr (Node_Addr p)) = k)"

lemma dedup_nodes_inv: "dedup_inv P s \<Longrightarrow> set ps \<subseteq> P \<Longrightarrow> dedup_inv P (dedup_nodes ps s)"
proof (induction ps s rule: dedup_nodes.induct)
  case (2 p ps m addrs)
  let ?a = "ap_addr (Node_Addr p)"
  show ?case
  proof (cases "m (addr_String ?a)")
    case None
    then have "addr_String ?a \<notin> addr_String ` set addrs" using 2(3) by (auto simp: dedup_inv_def)
    then have "dedup_inv P (m(addr_String ?a \<mapsto> p), addrs @ [?a])" using 2(3,4) by (auto simp: dedup_inv_def)
    with 2(1) [OF refl None] 2(4) None show ?thesis by (simp add: Let_def)
  next
    case (Some q)
    with 2(2) [OF refl] 2(3,4) show ?thesis by (simp add: Let_def)
  qed
qed simp

text \<open>
  A batch of discovered nodes is reduced to one node per address, and only nodes of the batch whose
  address has the textual form of an unknown address are passed on; never nil.
\<close>

lemma discoveredNodes_sent:
  assumes "(ch, x) \<in> set (discoveredNodes_batch ready k ps t)"
  shows "\<exists>p a. x = Some p \<and> p \<in> set ps \<and> tb_addrs t a = None \<and> addr_String (ap_addr (Node_Addr p)) = addr_String a"
proof -
  obtain m addrs where d: "dedup_nodes ps (Map.empty, []) = (m, addrs)" by fastforce
  have inv: "dedup_inv (set ps) (m, addrs)"
    using dedup_nodes_inv [of "set ps" "(Map.empty, [])" ps] d by (simp add: dedup_inv_def)
  obtain a where a: "a \<in> set addrs" "tb_addrs t a = None" "x = m (addr_String a)"
    using assms d
    by (auto simp: discoveredNodes_batch_def FilterKnownAddrs_def Let_def dest!: in_set_takeD set_zip_rightD)
  then have "addr_String a \<in> dom m" using inv by (simp add: dedup_inv_def)
  then obtain p where "m (addr_String a) = Some p" by blast
  with inv a show ?thesis by (auto simp: dedup_inv_def)
qed

end
