(* ===== verification/Blocklist.thy ===== *)
theory Blocklist
  imports GoStrings ProtocolID
begin

text \<open>
  The gates a discovered infohash passes before it is fetched: the community blocklist of
  \<open>internal/csamblocklist\<close> (feed parsing, refresh, lookup), the blocking manager of
  \<open>internal/blocking\<close> (buffered blocks, the persisted filter) and the verdict ledger of
  \<open>internal/verdicts\<close>. SHA-256, the Bloom filters and the HTTP transport are parameters.
\<close>

section \<open>Bloom filters\<close>

record 'b bloom_ops =
  bl_new :: 'b
  bl_Add :: "byte list \<Rightarrow> 'b \<Rightarrow> 'b"
  bl_Test :: "'b \<Rightarrow> byte list \<Rightarrow> bool"

text \<open>
  What the blocklist relies on: a Bloom filter has no false negatives. An added element tests
  positive, and adding more never turns a positive test negative.
\<close>

definition no_false_negatives :: "'b bloom_ops \<Rightarrow> bool" where
  "no_false_negatives B \<longleftrightarrow>
     (\<forall>x b. bl_Test B (bl_Add B x b) x) \<and> (\<forall>x y b. bl_Test B b y \<longrightarrow> bl_Test B (bl_Add B x b) y)"

definition set_bloom :: "byte list set bloom_ops" where
  "set_bloom = \<lparr>bl_new = {}, bl_Add = insert, bl_Test = (\<lambda>b x. x \<in> b)\<rparr>"

lemma set_bloom_ok: "no_false_negatives set_bloom"
  by (simp add: no_false_negatives_def set_bloom_def)

lemma foldl_Add_Test:
  assumes "no_false_negatives B"
  shows "bl_Test B b y \<or> y \<in> set xs \<Longrightarrow> bl_Test B (foldl (\<lambda>b x. bl_Add B x b) b xs) y"
proof (induction xs arbitrary: b)
  case (Cons x xs)
  then have "bl_Test B (bl_Add B x b) y \<or> y \<in> set xs"
    using assms by (auto simp: no_false_negatives_def)
  with Cons.IH show ?case by simp
qed simp

section \<open>Double hashes and feeds\<close>

definition DoubleHashLen :: nat where "DoubleHashLen = 32"

definition DoubleHash :: "(byte list \<Rightarrow> byte list) \<Rightarrow> ID \<Rightarrow> byte list" where
  "DoubleHash sha256 infoHash = sha256 infoHash"

definition DoubleHashHex :: "(byte list \<Rightarrow> byte list) \<Rightarrow> ID \<Rightarrow> string" where
  "DoubleHashHex sha256 infoHash = hex_encode (DoubleHash sha256 infoHash)"

definition ParseDoubleHashHex :: "(string \<Rightarrow> string) \<Rightarrow> string \<Rightarrow> byte list res" where
  "ParseDoubleHashHex uni s0 =
     (let s = TrimSpace s0 in
      if s = [] then Inl (Err ''csamblocklist: empty double-hash'')
      else if length s \<noteq> DoubleHashLen * 2
      then Inl (Err ''csamblocklist: double-hash must be exactly 64 lowercase hex chars (SHA-256)'')
      else if ToLower uni s \<noteq> s then Inl (Err ''csamblocklist: double-hash must be lowercase hex'')
      else case hex_decode s of
        Inl _ \<Rightarrow> Inl (Err ''csamblocklist: invalid hex in double-hash'')
      | Inr b \<Rightarrow> Inr (go_copy (replicate DoubleHashLen 0) b))"

record feed_state =
  fs_out :: "byte list list"
  fs_errs :: nat
  fs_total :: int

definition feed_line :: "(string \<Rightarrow> string) \<Rightarrow> string \<Rightarrow> feed_state \<Rightarrow> feed_state" where
  "feed_line uni line st =
     (let s0 = TrimSpace line;
          s = (case IndexByte s0 (CHR ''#'') of Some i \<Rightarrow> TrimSpace (take i s0) | None \<Rightarrow> s0)
      in if s = [] then st
         else case ParseDoubleHashHex uni s of
           Inl _ \<Rightarrow> st\<lparr>fs_errs := fs_errs st + 1\<rparr>
         | Inr dh \<Rightarrow> if dh \<in> set (fs_out st) then st else st\<lparr>fs_out := fs_out st @ [dh]\<rparr>)"

fun feed_loop :: "(string \<Rightarrow> string) \<Rightarrow> int \<Rightarrow> string list \<Rightarrow> feed_state \<Rightarrow> feed_state option" where
  "feed_loop uni mx [] st = Some st"
| "feed_loop uni mx (l # ls) st =
     (let st1 = st\<lparr>fs_total := fs_total st + int (length l) + 1\<rparr> in
      if fs_total st1 > mx then None else feed_loop uni mx ls (feed_line uni l st1))"

definition parseFeed :: "(string \<Rightarrow> string) \<Rightarrow> string \<Rightarrow> int \<Rightarrow> (byte list list \<times> nat) res" where
  "parseFeed uni body maxBytes =
     (let (ls, ok) = scan_lines 1024 body in
      case feed_loop uni maxBytes ls \<lparr>fs_out = [], fs_errs = 0, fs_total = 0\<rparr> of
        None \<Rightarrow> Inl (Err ''feed exceeds max size'')
      | Some st \<Rightarrow> if \<not> ok then Inl (Err ''scan feed: bufio.Scanner: token too long'')
                  else Inr (fs_out st, fs_errs st))"

text \<open>The HTTP exchange: a transport error, or the status and the body.\<close>

datatype http_result = HttpErr string | HttpResp int string

definition fetchFeed :: "(string \<Rightarrow> string) \<Rightarrow> int \<Rightarrow> http_result \<Rightarrow> byte list list res" where
  "fetchFeed uni FeedMaxBytes r =
     (case r of
        HttpErr e \<Rightarrow> Inl (Err (''fetch: '' @ e))
      | HttpResp status body \<Rightarrow>
          if status < 200 \<or> status \<ge> 300 then Inl (Err ''unexpected status'')
          else let limit = (if FeedMaxBytes \<le> 0 then 64 * 1024 * 1024 else FeedMaxBytes) in
            (case parseFeed uni (take (nat (limit + 1)) body) limit of
               Inl e \<Rightarrow> Inl e
             | Inr (entries, _) \<Rightarrow> Inr entries))"

section \<open>The blocklist service\<close>

record FeedStatus =
  fd_LastSuccessAt :: time
  fd_LastError :: string
  fd_LastErrorAt :: time
  fd_ConsecutiveErrs :: nat
  fd_EntriesContributed :: nat

definition FeedStatus_zero :: FeedStatus where
  "FeedStatus_zero = \<lparr>fd_LastSuccessAt = 0, fd_LastError = [], fd_LastErrorAt = 0, fd_ConsecutiveErrs = 0,
     fd_EntriesContributed = 0\<rparr>"

record 'b csam_service =
  cs_FeedUrls :: "string list"
  cs_FeedMaxBytes :: int
  cs_active :: 'b
  cs_perFeed :: "string \<rightharpoonup> FeedStatus"
  cs_lastGood :: "string \<rightharpoonup> byte list list"
  cs_lastRefreshAt :: time
  cs_entryCount :: nat

definition csam_NewService :: "'b bloom_ops \<Rightarrow> string list \<Rightarrow> int \<Rightarrow> 'b csam_service" where
  "csam_NewService B urls maxBytes =
     \<lparr>cs_FeedUrls = urls, cs_FeedMaxBytes = maxBytes, cs_active = bl_new B,
      cs_perFeed = (\<lambda>u. if u \<noteq> [] \<and> u \<in> set urls then Some FeedStatus_zero else None),
      cs_lastGood = Map.empty, cs_lastRefreshAt = 0, cs_entryCount = 0\<rparr>"

definition csam_IsBlocked :: "'b bloom_ops \<Rightarrow> (byte list \<Rightarrow> byte list) \<Rightarrow> 'b csam_service \<Rightarrow> ID \<Rightarrow> bool" where
  "csam_IsBlocked B sha256 s infoHash = bl_Test B (cs_active s) (DoubleHash sha256 infoHash)"

fun csam_Filter :: "'b bloom_ops \<Rightarrow> (byte list \<Rightarrow> byte list) \<Rightarrow> 'b csam_service \<Rightarrow> ID list \<Rightarrow> ID list" where
  "csam_Filter B sha256 s [] = []"
| "csam_Filter B sha256 s (h # hs) =
     (if bl_Test B (cs_active s) (DoubleHash sha256 h) then csam_Filter B sha256 s hs
      else h # csam_Filter B sha256 s hs)"

text \<open>One feed's result applied to the status map and the last-good cache.\<close>

definition feed_result :: "time \<Rightarrow> string \<times> byte list list res \<Rightarrow> 'b csam_service \<Rightarrow> 'b csam_service" where
  "feed_result now r s =
     (let u = fst r; st = (case cs_perFeed s u of Some st \<Rightarrow> st | None \<Rightarrow> FeedStatus_zero) in
      case snd r of
        Inl e \<Rightarrow>
          s\<lparr>cs_perFeed := (cs_perFeed s)(u \<mapsto> st\<lparr>
              fd_LastError := (case e of Err m \<Rightarrow> m | Panic m \<Rightarrow> m), fd_LastErrorAt := now,
              fd_ConsecutiveErrs := fd_ConsecutiveErrs st + 1,
              fd_EntriesContributed := (case cs_lastGood s u of Some es \<Rightarrow> length es | None \<Rightarrow> 0)\<rparr>)\<rparr>
      | Inr entries \<Rightarrow>
          s\<lparr>cs_perFeed := (cs_perFeed s)(u \<mapsto> st\<lparr>
              fd_LastSuccessAt := now, fd_ConsecutiveErrs := 0, fd_LastError := [],
              fd_EntriesContributed := length entries\<rparr>),
            cs_lastGood := (cs_lastGood s)(u \<mapsto> entries)\<rparr>)"

definition union_entries :: "(string \<rightharpoonup> byte list list) \<Rightarrow> string list \<Rightarrow> byte list list" where
  "union_entries m us = concat (map (\<lambda>u. map_get [] m u) us)"

text \<open>
  \<open>Refresh\<close>: \<open>http\<close> gives each feed's response, \<open>us\<close> is the order in which the map of last-good entries
  is ranged over. The first feed error is returned beside the new state.
\<close>

definition csam_feeds :: "'b csam_service \<Rightarrow> string list" where
  "csam_feeds s = filter (\<lambda>u. u \<noteq> []) (cs_FeedUrls s)"

definition first_error :: "(string \<times> byte list list res) list \<Rightarrow> string option" where
  "first_error rs = (case filter (\<lambda>r. \<not> is_ok (snd r)) rs of [] \<Rightarrow> None | r # _ \<Rightarrow> Some (''feed '' @ fst r))"

definition csam_results :: "(string \<Rightarrow> string) \<Rightarrow> (string \<Rightarrow> http_result) \<Rightarrow> 'b csam_service \<Rightarrow> (string \<times> byte list list res) list" where
  "csam_results uni http s = map (\<lambda>u. (u, fetchFeed uni (cs_FeedMaxBytes s) (http u))) (csam_feeds s)"

definition csam_Refresh ::
  "'b bloom_ops \<Rightarrow> (string \<Rightarrow> string) \<Rightarrow> time \<Rightarrow> (string \<Rightarrow> http_result) \<Rightarrow> string list \<Rightarrow> 'b csam_service \<Rightarrow>
     'b csam_service \<times> string option" where
  "csam_Refresh B uni now http us s =
     (if csam_feeds s = [] then
        (s\<lparr>cs_active := bl_new B, cs_entryCount := 0, cs_lastGood := Map.empty, cs_lastRefreshAt := now\<rparr>, None)
      else
        let rs = csam_results uni http s;
            s1 = foldl (\<lambda>s r. feed_result now r s) s rs;
            es = union_entries (cs_lastGood s1) us
        in (s1\<lparr>cs_lastRefreshAt := now,
              cs_active := foldl (\<lambda>b e. bl_Add B e b) (bl_new B) es,
              cs_entryCount := length es\<rparr>, first_error rs))"

text \<open>The manager the factory returns: the live service, or the pass-through one.\<close>

datatype 'b csam_manager = NoOp | Live "'b csam_service"

definition csam_HasAnyFeed :: "string list \<Rightarrow> bool" where
  "csam_HasAnyFeed urls = list_ex (\<lambda>u. u \<noteq> []) urls"

definition csam_New :: "'b bloom_ops \<Rightarrow> bool \<Rightarrow> string list \<Rightarrow> int \<Rightarrow> 'b csam_manager" where
  "csam_New B enabled urls maxBytes =
     (if \<not> enabled then NoOp
      else if \<not> csam_HasAnyFeed urls then NoOp
      else Live (csam_NewService B urls maxBytes))"

fun mgr_IsBlocked :: "'b bloom_ops \<Rightarrow> (byte list \<Rightarrow> byte list) \<Rightarrow> 'b csam_manager \<Rightarrow> ID \<Rightarrow> bool" where
  "mgr_IsBlocked B sha256 NoOp h = False"
| "mgr_IsBlocked B sha256 (Live s) h = csam_IsBlocked B sha256 s h"

fun mgr_Filter :: "'b bloom_ops \<Rightarrow> (byte list \<Rightarrow> byte list) \<Rightarrow> 'b csam_manager \<Rightarrow> ID list \<Rightarrow> ID list" where
  "mgr_Filter B sha256 NoOp hs = hs"
| "mgr_Filter B sha256 (Live s) hs = csam_Filter B sha256 s hs"

section \<open>The blocklist never forgets during an outage\<close>

lemma csam_Filter_eq: "csam_Filter B sha256 s hs = filter (\<lambda>h. \<not> csam_IsBlocked B sha256 s h) hs"
  by (induction hs) (simp_all add: csam_IsBlocked_def)

lemma mgr_Filter_eq: "mgr_Filter B sha256 m hs = filter (\<lambda>h. \<not> mgr_IsBlocked B sha256 m h) hs"
  by (cases m) (simp_all add: csam_Filter_eq)

lemma feed_result_simps [simp]:
  "cs_FeedUrls (feed_result now r s) = cs_FeedUrls s"
  "cs_FeedMaxBytes (feed_result now r s) = cs_FeedMaxBytes s"
  by (simp_all add: feed_result_def Let_def split: sum.splits)

lemma feed_result_lastGood:
  "cs_lastGood (feed_result now r s) u =
     (case snd r of Inr es \<Rightarrow> if u = fst r then Some es else cs_lastGood s u | Inl _ \<Rightarrow> cs_lastGood s u)"
  by (simp add: feed_result_def Let_def split: sum.splits)

lemma feed_results_keep:
  "(\<And>es. (u, Inr es) \<notin> set rs) \<Longrightarrow>
     cs_lastGood (foldl (\<lambda>s r. feed_result now r s) s rs) u = cs_lastGood s u"
proof (induction rs arbitrary: s)
  case (Cons r rs)
  have "cs_lastGood (feed_result now r s) u = cs_lastGood s u"
  proof (cases "snd r")
    case (Inr es)
    then have "r = (fst r, Inr es)" by (cases r) simp
    with Cons(2) [of es] have "u \<noteq> fst r" by auto
    then show ?thesis using Inr by (simp add: feed_result_lastGood)
  qed (simp add: feed_result_lastGood)
  with Cons show ?case by simp
qed simp

lemma feed_results_set:
  "(u, Inr es) \<in> set rs \<Longrightarrow> (\<And>r. r \<in> set rs \<Longrightarrow> fst r = u \<Longrightarrow> r = (u, Inr es)) \<Longrightarrow>
     cs_lastGood (foldl (\<lambda>s r. feed_result now r s) s rs) u = Some es"
proof (induction rs arbitrary: s rule: rev_induct)
  case (snoc r rs)
  show ?case
  proof (cases "fst r = u")
    case True
    with snoc(3) [of r] have "r = (u, Inr es)" by simp
    then show ?thesis by (simp add: feed_result_lastGood)
  next
    case False
    then have "(u, Inr es) \<in> set rs" using snoc(2) by auto
    then have "cs_lastGood (foldl (\<lambda>s r. feed_result now r s) s rs) u = Some es"
      by (rule snoc.IH) (simp add: snoc(3))
    with False show ?thesis by (simp add: feed_result_lastGood split: sum.splits)
  qed
qed simp

lemma csam_Refresh_lastGood:
  assumes "csam_feeds s \<noteq> []"
  shows "cs_lastGood (fst (csam_Refresh B uni now http us s)) u =
     (if u \<in> set (csam_feeds s) then
        (case fetchFeed uni (cs_FeedMaxBytes s) (http u) of Inr es \<Rightarrow> Some es | Inl _ \<Rightarrow> cs_lastGood s u)
      else cs_lastGood s u)"
proof -
  let ?rs = "csam_results uni http s"
  let ?s1 = "foldl (\<lambda>s r. feed_result now r s) s ?rs"
  have eq: "cs_lastGood (fst (csam_Refresh B uni now http us s)) u = cs_lastGood ?s1 u"
    using assms by (simp add: csam_Refresh_def Let_def)
  show ?thesis
  proof (cases "u \<in> set (csam_feeds s) \<and> is_ok (fetchFeed uni (cs_FeedMaxBytes s) (http u))")
    case True
    then obtain es where es: "fetchFeed uni (cs_FeedMaxBytes s) (http u) = Inr es" by (auto simp: is_ok_iff)
    have "cs_lastGood ?s1 u = Some es"
      by (rule feed_results_set) (use True es in \<open>auto simp: csam_results_def image_iff\<close>)
    with True es eq show ?thesis by simp
  next
    case False
    then have "cs_lastGood ?s1 u = cs_lastGood s u"
    proof (intro feed_results_keep notI)
      fix es assume "(u, Inr es) \<in> set ?rs"
      then have "u \<in> set (csam_feeds s)" "fetchFeed uni (cs_FeedMaxBytes s) (http u) = Inr es"
        by (auto simp: csam_results_def)
      with False show False by simp
    qed
    moreover have "\<not> is_ok (fetchFeed uni (cs_FeedMaxBytes s) (http u))" if "u \<in> set (csam_feeds s)"
      using False that by simp
    ultimately show ?thesis using eq
      by (cases "fetchFeed uni (cs_FeedMaxBytes s) (http u)") auto
  qed
qed

lemma csam_Refresh_config [simp]:
  "cs_FeedUrls (fst (csam_Refresh B uni now http us s)) = cs_FeedUrls s"
  "cs_FeedMaxBytes (fst (csam_Refresh B uni now http us s)) = cs_FeedMaxBytes s"
proof -
  have "cs_FeedUrls (foldl (\<lambda>s r. feed_result now r s) s rs) = cs_FeedUrls s \<and>
      cs_FeedMaxBytes (foldl (\<lambda>s r. feed_result now r s) s rs) = cs_FeedMaxBytes s" for rs
    by (induction rs arbitrary: s) simp_all
  then show "cs_FeedUrls (fst (csam_Refresh B uni now http us s)) = cs_FeedUrls s"
    "cs_FeedMaxBytes (fst (csam_Refresh B uni now http us s)) = cs_FeedMaxBytes s"
    by (simp_all add: csam_Refresh_def Let_def)
qed

lemma csam_Refresh_active:
  assumes B: "no_false_negatives B" and feeds: "csam_feeds s \<noteq> []"
    and order: "map_order (cs_lastGood (fst (csam_Refresh B uni now http us s))) us"
    and good: "cs_lastGood (fst (csam_Refresh B uni now http us s)) u = Some es" "d \<in> set es"
  shows "bl_Test B (cs_active (fst (csam_Refresh B uni now http us s))) d"
proof -
  let ?m = "cs_lastGood (fst (csam_Refresh B uni now http us s))"
  have active: "cs_active (fst (csam_Refresh B uni now http us s)) =
      foldl (\<lambda>b e. bl_Add B e b) (bl_new B) (union_entries ?m us)"
    using feeds by (simp add: csam_Refresh_def Let_def)
  have "u \<in> set us" using order good(1) by (auto simp: map_order_def)
  moreover have "map_get [] ?m u = es" using good(1) by (simp add: map_get_def)
  ultimately have "d \<in> set (union_entries ?m us)"
    using good(2) unfolding union_entries_def by auto
  then show ?thesis unfolding active by (simp add: foldl_Add_Test [OF B])
qed

subsection \<open>Published digests parse back\<close>

definition plain_hex :: "char \<Rightarrow> bool" where
  "plain_hex c \<longleftrightarrow> code c < 128 \<and> \<not> IsSpace (code c) \<and> lower_char c = c \<and> c \<noteq> CHR ''#'' \<and>
     c \<noteq> CHR 0x0A \<and> c \<noteq> CHR 0x0D"

lemma hex_digit_plain: "n < 16 \<Longrightarrow> plain_hex (hex_digit n)"
proof -
  assume "n < 16"
  then have "n \<in> set [0..<16]" by simp
  moreover have "\<forall>m \<in> set [0..<16]. plain_hex (hex_digit m)"
    by (simp add: upt_rec hex_digit_def plain_hex_def IsSpace_def lower_char_def)
  ultimately show ?thesis by blast
qed

lemma hex_encode_plain: "list_all plain_hex (hex_encode bs)"
proof (induction bs)
  case (Cons b bs)
  have "unat b div 16 < 16" using unat_byte_less [of b] by (intro less_mult_imp_div_less) simp
  with Cons show ?case by (simp add: hex_encode_def hex_digit_plain)
qed (simp add: hex_encode_def)

lemma length_hex_encode: "length (hex_encode bs) = 2 * length bs"
  by (induction bs) (simp_all add: hex_encode_def)

lemma TrimSpace_plain:
  assumes "list_all plain_hex s"
  shows "TrimSpace s = s"
  using assms by (intro TrimSpace_none) (auto simp: list_all_iff plain_hex_def)

lemma IndexByte_None: "IndexByte s c = None \<longleftrightarrow> c \<notin> set s"
  by (induction s) auto

lemma ParseDoubleHashHex_encode:
  assumes "length d = 32"
  shows "ParseDoubleHashHex uni (hex_encode d) = Inr d"
proof -
  note h = hex_encode_plain [of d]
  have ascii: "list_all (\<lambda>c. code c < 128) (hex_encode d)" using h by (auto simp: list_all_iff plain_hex_def)
  have "map lower_char (hex_encode d) = hex_encode d"
    using h by (auto simp: list_all_iff plain_hex_def intro: map_idI)
  moreover have "hex_encode d \<noteq> []" using length_hex_encode [of d] assms by auto
  ultimately show ?thesis
    using assms by (simp add: ParseDoubleHashHex_def Let_def TrimSpace_plain [OF h] ToLower_def ascii
        length_hex_encode DoubleHashLen_def hex_decode_encode go_copy_full)
qed

lemma feed_line_encode:
  assumes "length d = 32"
  shows "feed_line uni (hex_encode d) st =
     (if d \<in> set (fs_out st) then st else st\<lparr>fs_out := fs_out st @ [d]\<rparr>)"
proof -
  note h = hex_encode_plain [of d]
  have "IndexByte (hex_encode d) (CHR ''#'') = None"
    using h by (auto simp: IndexByte_None list_all_iff plain_hex_def)
  moreover have "hex_encode d \<noteq> []" using length_hex_encode [of d] assms by auto
  ultimately show ?thesis
    using assms by (simp add: feed_line_def Let_def TrimSpace_plain [OF h] ParseDoubleHashHex_encode)
qed

text \<open>The wire format: one lowercase hex digest per line.\<close>

definition publish :: "byte list list \<Rightarrow> string" where
  "publish ds = concat (map (\<lambda>d. hex_encode d @ [CHR 0x0A]) ds)"

lemma scan_publish:
  assumes "\<forall>d \<in> set ds. length d = 32"
  shows "scan_lines 1024 (publish ds) = (map hex_encode ds, True)"
proof -
  have "CHR 0x0A \<notin> set (hex_encode d)" "CHR 0x0D \<notin> set (hex_encode d)" for d
    using hex_encode_plain [of d] by (auto simp: list_all_iff plain_hex_def)
  then show ?thesis
    using scan_lines_printed [of "map hex_encode ds" 1024] assms by (auto simp: publish_def length_hex_encode comp_def)
qed

lemma feed_loop_publish:
  "\<forall>d \<in> set ds. length d = 32 \<Longrightarrow> fs_total st + 65 * int (length ds) \<le> mx \<Longrightarrow>
     \<exists>st'. feed_loop uni mx (map hex_encode ds) st = Some st' \<and> fs_errs st' = fs_errs st \<and>
       set (fs_out st') = set (fs_out st) \<union> set ds"
proof (induction ds arbitrary: st)
  case (Cons d ds)
  let ?st1 = "st\<lparr>fs_total := fs_total st + 65\<rparr>"
  let ?st2 = "feed_line uni (hex_encode d) ?st1"
  have d: "length d = 32" using Cons by simp
  have st2: "fs_total ?st2 = fs_total st + 65" "fs_errs ?st2 = fs_errs st"
    "set (fs_out ?st2) = insert d (set (fs_out st))"
    by (auto simp: feed_line_encode [OF d])
  have "feed_loop uni mx (map hex_encode (d # ds)) st = feed_loop uni mx (map hex_encode ds) ?st2"
    using Cons.prems(2) d by (simp add: Let_def length_hex_encode add.commute)
  moreover from Cons.IH [of ?st2] Cons.prems st2 obtain st' where
    "feed_loop uni mx (map hex_encode ds) ?st2 = Some st'" "fs_errs st' = fs_errs st"
    "set (fs_out st') = insert d (set (fs_out st)) \<union> set ds" by auto
  ultimately show ?case by auto
qed simp

lemma fetchFeed_publish:
  assumes ds: "\<forall>d \<in> set ds. length d = 32" and mx: "65 * int (length ds) \<le> mx" "0 < mx"
    and status: "200 \<le> status" "status < 300"
  obtains es where "fetchFeed uni mx (HttpResp status (publish ds)) = Inr es" and "set es = set ds"
proof -
  have len: "length (publish ds) = 65 * length ds"
    using ds by (induction ds) (simp_all add: publish_def length_hex_encode)
  have "take (nat (mx + 1)) (publish ds) = publish ds" using len mx by simp
  moreover obtain st' where "feed_loop uni mx (map hex_encode ds) \<lparr>fs_out = [], fs_errs = 0, fs_total = 0\<rparr> = Some st'"
      "set (fs_out st') = set ds"
    using feed_loop_publish [OF ds, of "\<lparr>fs_out = [], fs_errs = 0, fs_total = 0\<rparr>" mx uni] mx by auto
  ultimately show thesis
    using that status mx(2) by (simp add: fetchFeed_def parseFeed_def Let_def scan_publish [OF ds])
qed

subsection \<open>A history of refreshes\<close>

type_synonym refresh = "time \<times> (string \<Rightarrow> http_result) \<times> string list"

fun csam_run :: "'b bloom_ops \<Rightarrow> (string \<Rightarrow> string) \<Rightarrow> refresh list \<Rightarrow> 'b csam_service \<Rightarrow> 'b csam_service" where
  "csam_run B uni [] s = s"
| "csam_run B uni ((now, http, us) # rs) s = csam_run B uni rs (fst (csam_Refresh B uni now http us s))"

text \<open>In every refresh the map of entries is ranged over in some order of its keys.\<close>

fun run_orders :: "'b bloom_ops \<Rightarrow> (string \<Rightarrow> string) \<Rightarrow> refresh list \<Rightarrow> 'b csam_service \<Rightarrow> bool" where
  "run_orders B uni [] s = True"
| "run_orders B uni ((now, http, us) # rs) s =
     (let s' = fst (csam_Refresh B uni now http us s) in map_order (cs_lastGood s') us \<and> run_orders B uni rs s')"

definition feed_down :: "(string \<Rightarrow> string) \<Rightarrow> int \<Rightarrow> string \<Rightarrow> refresh \<Rightarrow> bool" where
  "feed_down uni mx u r = (case r of (_, http, _) \<Rightarrow> \<not> is_ok (fetchFeed uni mx (http u)))"

lemma csam_run_retains:
  assumes B: "no_false_negatives B"
  shows "\<lbrakk>u \<in> set (csam_feeds s); cs_lastGood s u = Some es; d \<in> set es; bl_Test B (cs_active s) d;
     run_orders B uni rs s; list_all (feed_down uni (cs_FeedMaxBytes s) u) rs\<rbrakk> \<Longrightarrow>
     bl_Test B (cs_active (csam_run B uni rs s)) d"
proof (induction rs arbitrary: s)
  case (Cons r rs)
  obtain now http us where r: "r = (now, http, us)" by (cases r)
  let ?s = "fst (csam_Refresh B uni now http us s)"
  have ne: "csam_feeds s \<noteq> []" using Cons.prems(1) by auto
  have feeds: "csam_feeds ?s = csam_feeds s" by (simp add: csam_feeds_def)
  have "\<not> is_ok (fetchFeed uni (cs_FeedMaxBytes s) (http u))"
    using Cons.prems(6) r by (simp add: feed_down_def)
  then have good: "cs_lastGood ?s u = Some es"
    using csam_Refresh_lastGood [OF ne] Cons.prems(2)
    by (simp add: is_ok_def split: sum.splits)
  have "bl_Test B (cs_active ?s) d"
    using csam_Refresh_active [OF B ne _ good Cons.prems(3)] Cons.prems(5) r by (simp add: Let_def)
  with Cons.IH [of ?s] Cons.prems good feeds r show ?case by (simp add: Let_def)
qed simp

text \<open>C30.
  An infohash whose digest a configured feed published is blocked from the refresh that fetched the
  feed onwards: the published lines parse back to the digests, the rebuilt filter covers them, and
  through any number of later refreshes in which that feed is unreachable, serves an error status
  or an unparsable body, the hash stays blocked and the batch filter removes it.\<close>

theorem csam_outage_keeps_blocking:
  assumes "no_false_negatives B" and "u \<in> set (csam_feeds s)"
    and "http u = HttpResp 200 (publish ds)" and "\<forall>d \<in> set ds. length d = 32"
    and "65 * int (length ds) \<le> cs_FeedMaxBytes s" and "0 < cs_FeedMaxBytes s"
    and "DoubleHash sha256 h \<in> set ds"
    and "run_orders B uni ((now, http, us) # rs) s"
    and "list_all (feed_down uni (cs_FeedMaxBytes s) u) rs"
  shows "csam_IsBlocked B sha256 (csam_run B uni ((now, http, us) # rs) s) h \<and>
     h \<notin> set (csam_Filter B sha256 (csam_run B uni ((now, http, us) # rs) s) hs)"
proof -
  let ?s = "fst (csam_Refresh B uni now http us s)"
  obtain es where es: "fetchFeed uni (cs_FeedMaxBytes s) (http u) = Inr es" "set es = set ds"
    using fetchFeed_publish [of ds "cs_FeedMaxBytes s" 200 uni] assms by auto
  have ne: "csam_feeds s \<noteq> []" using assms(2) by auto
  have good: "cs_lastGood ?s u = Some es"
    using csam_Refresh_lastGood [OF ne] assms(2) es(1) by simp
  have "DoubleHash sha256 h \<in> set es" using es(2) assms(7) by simp
  moreover from this have "bl_Test B (cs_active ?s) (DoubleHash sha256 h)"
    using csam_Refresh_active [OF assms(1) ne _ good] assms(8) by (simp add: Let_def)
  moreover have "u \<in> set (csam_feeds ?s)" using assms(2) by (simp add: csam_feeds_def)
  ultimately have "bl_Test B (cs_active (csam_run B uni rs ?s)) (DoubleHash sha256 h)"
    using csam_run_retains [OF assms(1), of u ?s es _ uni rs] good assms(8,9) by (simp add: Let_def)
  then show ?thesis by (simp add: csam_Filter_eq csam_IsBlocked_def)
qed

definition demo_csam :: "byte list set csam_service" where
  "demo_csam = csam_NewService set_bloom [''feed''] 1000"

definition demo_http :: "string \<Rightarrow> http_result" where
  "demo_http u = HttpResp 200 (publish [replicate 32 7])"

theorem csam_outage_keeps_blocking_witness:
  "csam_IsBlocked set_bloom (\<lambda>_. replicate 32 7)
     (csam_run set_bloom id [(1, demo_http, [''feed'']), (2, \<lambda>_. HttpErr ''timeout'', [''feed''])] demo_csam) ID_zero"
proof -
  have feeds: "csam_feeds demo_csam = [''feed'']" by (simp add: csam_feeds_def demo_csam_def csam_NewService_def)
  obtain es where es: "fetchFeed id 1000 (demo_http ''feed'') = Inr es"
    using fetchFeed_publish [of "[replicate 32 7]" 1000 200 id] by (auto simp: demo_http_def)
  let ?s1 = "fst (csam_Refresh set_bloom id 1 demo_http [''feed''] demo_csam)"
  let ?s2 = "fst (csam_Refresh set_bloom id 2 (\<lambda>_. HttpErr ''timeout'') [''feed''] ?s1)"
  have max: "cs_FeedMaxBytes demo_csam = 1000" by (simp add: demo_csam_def csam_NewService_def)
  have "cs_lastGood ?s1 u = (if u = ''feed'' then Some es else None)" for u
    using csam_Refresh_lastGood [of demo_csam set_bloom id 1 demo_http "[''feed'']" u] feeds es max
    by (simp add: demo_csam_def csam_NewService_def)
  moreover have feeds1: "csam_feeds ?s1 = [''feed'']" using feeds by (simp add: csam_feeds_def)
  ultimately have "dom (cs_lastGood ?s1) = {''feed''}" "dom (cs_lastGood ?s2) = {''feed''}"
    using csam_Refresh_lastGood [of ?s1 set_bloom id 2 "\<lambda>_. HttpErr ''timeout''" "[''feed'']"]
    by (auto simp: dom_def fetchFeed_def split: if_splits)
  then have "run_orders set_bloom id [(1, demo_http, [''feed'']), (2, \<lambda>_. HttpErr ''timeout'', [''feed''])] demo_csam"
    by (simp add: Let_def map_order_def)
  then show ?thesis
    using csam_outage_keeps_blocking [OF set_bloom_ok, of "''feed''" demo_csam demo_http "[replicate 32 7]"
        "\<lambda>_. replicate 32 7" ID_zero id 1 "[''feed'']" "[(2, \<lambda>_. HttpErr ''timeout'', [''feed''])]"]
    by (simp add: feeds max demo_http_def DoubleHash_def feed_down_def fetchFeed_def)
qed

end
