(* ===== verification/Blocking.thy ===== *)
theory Blocking
  imports Blocklist
begin

text \<open>
  The persisted gates: \<open>internal/blocking/manager.go\<close>, which buffers blocked hashes and folds them
  into a Bloom filter stored in the database, and \<open>internal/verdicts/store.go\<close>, the append-only
  verdict ledger with its derived state. A database transaction is a function of the stored state
  and of the operations that fail; a failed one leaves the stored state as it was. The catalogue
  recovery store the manager may be given is a parameter.
\<close>

section \<open>The blocking manager\<close>

record recovery_ops =
  rec_Filter :: "ID list \<Rightarrow> ID list \<Rightarrow> string + ID list"
  rec_RemoveBatch :: "ID list \<Rightarrow> string option"

record 'b blk_manager =
  bm_recovery :: "recovery_ops option"
  bm_buffer :: "ID set"
  bm_filter :: "'b option"
  bm_maxBufferSize :: int
  bm_lastFlushedAt :: time
  bm_maxFlushWait :: int

text \<open>
  The row of \<open>bloom_filters\<close> under the manager's key (absent, without an object, or with one) and the
  large objects. The faults say which database call fails.
\<close>

record 'b blk_db =
  db_row :: "nat option option"
  db_objs :: "nat \<rightharpoonup> 'b"

record db_faults =
  df_begin :: bool
  df_query :: bool
  df_open_read :: bool
  df_read :: bool
  df_create :: bool
  df_open_write :: bool
  df_write :: bool
  df_save :: bool
  df_commit :: bool

definition ErrDisabled :: string where
  "ErrDisabled = ''catalogue recovery: foundation disabled''"

definition shouldFlush :: "time \<Rightarrow> 'b blk_manager \<Rightarrow> bool" where
  "shouldFlush now m \<longleftrightarrow>
     int (card (bm_buffer m)) \<ge> bm_maxBufferSize m \<or> now - bm_lastFlushedAt m \<ge> bm_maxFlushWait m"

text \<open>Loading the stored filter: its object identifier (zero when there is none) and its contents.\<close>

definition load_filter :: "'b bloom_ops \<Rightarrow> db_faults \<Rightarrow> 'b blk_db \<Rightarrow> string + (nat \<times> 'b)" where
  "load_filter B fl db =
     (if df_query fl then Inl ''failed to get bloom filter object ID''
      else case db_row db of
        Some (Some oid) \<Rightarrow>
          if df_open_read fl then Inl ''failed to open large object for reading''
          else if df_read fl then Inl ''failed to read current bloom filter''
          else (case db_objs db oid of
                  None \<Rightarrow> Inl ''failed to open large object for reading''
                | Some bf \<Rightarrow> Inr (oid, bf))
      | _ \<Rightarrow> Inr (0, bl_new B))"

text \<open>
  \<open>flush\<close>: \<open>hashes\<close> are the keys of the buffer in the order the map yields them, \<open>fresh\<close> is the
  identifier the database picks for a new object.
\<close>

definition blk_flush ::
  "'b bloom_ops \<Rightarrow> db_faults \<Rightarrow> nat \<Rightarrow> ID list \<Rightarrow> time \<Rightarrow> 'b blk_manager \<times> 'b blk_db \<Rightarrow>
     string option \<times> 'b blk_manager \<times> 'b blk_db" where
  "blk_flush B fl fresh hashes now st =
     (let (m, db) = st in
      if hashes \<noteq> [] \<and> bm_recovery m = None then (Some ErrDisabled, m, db)
      else if df_begin fl then (Some ''failed to begin transaction'', m, db)
      else case load_filter B fl db of
        Inl e \<Rightarrow> (Some e, m, db)
      | Inr (oid0, bf0) \<Rightarrow>
          if oid0 = 0 \<and> df_create fl then (Some ''failed to create large object'', m, db)
          else
            let oid = (if oid0 = 0 then fresh else oid0);
                bf = foldl (\<lambda>b h. bl_Add B h b) bf0 hashes
            in if df_open_write fl then (Some ''failed to open large object for writing'', m, db)
               else if df_write fl then (Some ''failed to write to large object'', m, db)
               else if (db_row db = None \<or> db_row db = Some None) \<and> df_save fl
               then (Some (if db_row db = None then ''failed to save new bloom filter record''
                           else ''failed to update bloom filter record''), m, db)
               else if df_commit fl then (Some ''failed to commit transaction'', m, db)
               else (None,
                 m\<lparr>bm_buffer := {}, bm_filter := Some bf, bm_lastFlushedAt := now\<rparr>,
                 db\<lparr>db_objs := (db_objs db)(oid \<mapsto> bf),
                    db_row := (case db_row db of Some (Some o') \<Rightarrow> Some (Some o') | _ \<Rightarrow> Some (Some oid))\<rparr>))"

fun blk_kept :: "'b bloom_ops \<Rightarrow> 'b blk_manager \<Rightarrow> ID list \<Rightarrow> ID list" where
  "blk_kept B m [] = []"
| "blk_kept B m (h # hs) =
     (if h \<in> bm_buffer m then blk_kept B m hs
      else if (case bm_filter m of Some bf \<Rightarrow> bl_Test B bf h | None \<Rightarrow> False) then blk_kept B m hs
      else h # blk_kept B m hs)"

definition blk_Filter ::
  "'b bloom_ops \<Rightarrow> db_faults \<Rightarrow> nat \<Rightarrow> ID list \<Rightarrow> time \<Rightarrow> ID list \<Rightarrow> 'b blk_manager \<times> 'b blk_db \<Rightarrow>
     (string + ID list) \<times> 'b blk_manager \<times> 'b blk_db" where
  "blk_Filter B fl fresh order now hashes st =
     (let (m, db) = st;
          (err, m1, db1) = (if bm_filter m = None \<or> shouldFlush now m
                            then blk_flush B fl fresh order now (m, db) else (None, m, db))
      in case err of
           Some e \<Rightarrow> (Inl e, m1, db1)
         | None \<Rightarrow>
             let filtered = blk_kept B m1 hashes in
             (case bm_recovery m1 of
                None \<Rightarrow> (Inr filtered, m1, db1)
              | Some r \<Rightarrow>
                  (case rec_Filter r hashes filtered of
                     Inl e \<Rightarrow> (Inl e, m1, db1)
                   | Inr recovered \<Rightarrow> (Inr (map (go_copy ID_zero) recovered), m1, db1))))"

definition blk_Block ::
  "'b bloom_ops \<Rightarrow> db_faults \<Rightarrow> nat \<Rightarrow> (ID set \<Rightarrow> ID list) \<Rightarrow> time \<Rightarrow> ID list \<Rightarrow> bool \<Rightarrow> 'b blk_manager \<times> 'b blk_db \<Rightarrow>
     string option \<times> 'b blk_manager \<times> 'b blk_db" where
  "blk_Block B fl fresh order now hashes flush st =
     (let (m, db) = st in
      if hashes \<noteq> [] \<and> bm_recovery m = None then (Some ErrDisabled, m, db)
      else
        let rem = (case bm_recovery m of Some r \<Rightarrow> if hashes \<noteq> [] then rec_RemoveBatch r hashes else None
                                       | None \<Rightarrow> None)
        in case rem of
             Some e \<Rightarrow> (Some e, m, db)
           | None \<Rightarrow>
               let m1 = m\<lparr>bm_buffer := bm_buffer m \<union> set hashes\<rparr> in
               if flush \<or> shouldFlush now m1 then blk_flush B fl fresh (order (bm_buffer m1)) now (m1, db)
               else (None, m1, db))"

definition blk_Flush ::
  "'b bloom_ops \<Rightarrow> db_faults \<Rightarrow> nat \<Rightarrow> ID list \<Rightarrow> time \<Rightarrow> 'b blk_manager \<times> 'b blk_db \<Rightarrow>
     string option \<times> 'b blk_manager \<times> 'b blk_db" where
  "blk_Flush B fl fresh order now st =
     (let (m, db) = st in
      if bm_buffer m = {} then (None, m, db) else blk_flush B fl fresh order now (m, db))"

lemma blk_kept_eq:
  "blk_kept B m hs = filter (\<lambda>h. h \<notin> bm_buffer m \<and>
     \<not> (case bm_filter m of Some bf \<Rightarrow> bl_Test B bf h | None \<Rightarrow> False)) hs"
  by (induction hs) auto

text \<open>A flush happens entirely or not at all, in memory and in the database.\<close>

theorem blk_flush_atomic:
  assumes "blk_flush B fl fresh hashes now (m, db) = (err, m', db')"
  shows "err \<noteq> None \<Longrightarrow> m' = m \<and> db' = db"
    and "err = None \<Longrightarrow> bm_buffer m' = {} \<and>
      (\<exists>oid bf. db_row db' = Some (Some oid) \<and> bm_filter m' = Some bf \<and>
        (db_row db \<noteq> Some (Some 0) \<longrightarrow> db_objs db' oid = Some bf))"
  using assms
  by (auto simp: blk_flush_def load_filter_def Let_def split: if_splits option.splits sum.splits prod.splits)

text \<open>
  Without a recovery store every request to block is refused and changes nothing: hashes are
  blocked only in deployments that attach one.
\<close>

theorem blk_Block_needs_recovery:
  "bm_recovery m = None \<Longrightarrow> hashes \<noteq> [] \<Longrightarrow>
     blk_Block B fl fresh order now hashes flush (m, db) = (Some ErrDisabled, m, db)"
  by (simp add: blk_Block_def)

text \<open>What \<open>Filter\<close> lets through, without a recovery store: exactly what neither the buffer nor the filter holds.\<close>

theorem blk_Filter_exact:
  assumes "blk_Filter B fl fresh order now hashes (m, db) = (Inr kept, m', db')" and "bm_recovery m = None"
  shows "kept = filter (\<lambda>h. h \<notin> bm_buffer m' \<and>
     \<not> (case bm_filter m' of Some bf \<Rightarrow> bl_Test B bf h | None \<Rightarrow> False)) hashes"
proof -
  have rec: "bm_recovery m1 = None" if "blk_flush B fl fresh order now (m, db) = (e, m1, db1)" for e m1 db1
    using that assms(2)
    by (auto simp: blk_flush_def Let_def split: if_splits option.splits sum.splits prod.splits)
  have "kept = blk_kept B m' hashes"
    using assms rec by (auto simp: blk_Filter_def Let_def split: if_splits option.splits prod.splits)
  then show ?thesis by (simp only: blk_kept_eq)
qed

section \<open>The verdict ledger\<close>

definition VerdictQuarantined :: string where "VerdictQuarantined = ''quarantined''"
definition VerdictBlacklisted :: string where "VerdictBlacklisted = ''blacklisted''"
definition VerdictTombstoned :: string where "VerdictTombstoned = ''tombstoned''"
definition MechanismBlocking :: string where "MechanismBlocking = ''blocking''"
definition MechanismCsam :: string where "MechanismCsam = ''csam''"

record Event =
  ev_InfoHash :: "byte list"
  ev_Verdict :: string
  ev_Mechanism :: string
  ev_Reason :: string
  ev_Evidence :: "string option"
  ev_Actor :: string
  ev_ExpiresAt :: "time option"

text \<open>A state row holds the current verdict, its mechanism and its expiry.\<close>

type_synonym verdict_row = "string \<times> string \<times> time option"

record ledger =
  lg_state :: "byte list \<rightharpoonup> verdict_row"
  lg_events :: "Event list"

definition incomplete :: "Event \<Rightarrow> bool" where
  "incomplete ev \<longleftrightarrow> length (ev_InfoHash ev) = 0 \<or> ev_Verdict ev = [] \<or> ev_Mechanism ev = []"

text \<open>
  \<open>RecordTx\<close> writes the state row, then the event; \<open>f_state\<close> and \<open>f_event\<close> are whether these
  statements fail. The caller rolls back on an error.
\<close>

definition RecordTx :: "bool \<Rightarrow> bool \<Rightarrow> Event \<Rightarrow> ledger \<Rightarrow> string + ledger" where
  "RecordTx f_state f_event ev l =
     (if incomplete ev then Inl ''verdicts: incomplete event''
      else
        let actor = (if ev_Actor ev = [] then ''system'' else ev_Actor ev);
            l1 = l\<lparr>lg_state := (lg_state l)(ev_InfoHash ev \<mapsto> (ev_Verdict ev, ev_Mechanism ev, ev_ExpiresAt ev))\<rparr>
        in if f_state then Inl ''verdicts: state upsert''
           else if f_event then Inl ''verdicts: event insert''
           else Inr (l1\<lparr>lg_events := lg_events l1 @ [ev\<lparr>ev_Actor := actor\<rparr>]\<rparr>))"

record ledger_faults =
  lf_pool :: bool
  lf_begin :: bool
  lf_state :: bool
  lf_event :: bool
  lf_commit :: bool

definition verdicts_Record :: "ledger_faults \<Rightarrow> Event \<Rightarrow> ledger \<Rightarrow> string option \<times> ledger" where
  "verdicts_Record fl ev l =
     (if incomplete ev then (Some ''verdicts: incomplete event'', l)
      else if lf_pool fl then (Some ''verdicts: acquire pool'', l)
      else if lf_begin fl then (Some ''verdicts: begin'', l)
      else case RecordTx (lf_state fl) (lf_event fl) ev l of
        Inl e \<Rightarrow> (Some e, l)
      | Inr l' \<Rightarrow> if lf_commit fl then (Some ''commit'', l) else (None, l'))"

definition blockingVerdicts :: "string list" where
  "blockingVerdicts = [VerdictQuarantined, VerdictBlacklisted, VerdictTombstoned]"

text \<open>\<open>BlockedSet\<close> answers with the lowercase hex of the blocked hashes; \<open>fail\<close> is a database error.\<close>

definition BlockedSet :: "bool \<Rightarrow> byte list list \<Rightarrow> ledger \<Rightarrow> string + string set" where
  "BlockedSet fail hashes l =
     (if hashes = [] then Inr {}
      else if fail then Inl ''verdicts: blocked set''
      else Inr (set (map hex_encode (filter
        (\<lambda>h. case lg_state l h of Some (v, _, _) \<Rightarrow> v \<in> set blockingVerdicts | None \<Rightarrow> False) hashes))))"

definition ledger_empty :: ledger where
  "ledger_empty = \<lparr>lg_state = Map.empty, lg_events = []\<rparr>"

fun record_all :: "(ledger_faults \<times> Event) list \<Rightarrow> ledger \<Rightarrow> ledger" where
  "record_all [] l = l"
| "record_all ((fl, ev) # es) l = record_all es (snd (verdicts_Record fl ev l))"

text \<open>The state rebuilt from the log: the verdict of the last event of each hash.\<close>

definition rebuild :: "Event list \<Rightarrow> byte list \<rightharpoonup> verdict_row" where
  "rebuild es = foldl (\<lambda>m ev. m(ev_InfoHash ev \<mapsto> (ev_Verdict ev, ev_Mechanism ev, ev_ExpiresAt ev))) Map.empty es"

lemma verdicts_Record_rebuild:
  "lg_state l = rebuild (lg_events l) \<Longrightarrow>
     lg_state (snd (verdicts_Record fl ev l)) = rebuild (lg_events (snd (verdicts_Record fl ev l)))"
  by (auto simp: verdicts_Record_def RecordTx_def rebuild_def Let_def)

text \<open>
  Whatever recordings are made and whichever of them fail, and where, the derived state always
  equals the state rebuilt from the event log.
\<close>

theorem ledger_state_is_rebuilt_log:
  "lg_state (record_all es ledger_empty) = rebuild (lg_events (record_all es ledger_empty))"
proof -
  have "lg_state l = rebuild (lg_events l) \<Longrightarrow>
      lg_state (record_all es l) = rebuild (lg_events (record_all es l))" for l
    by (induction es l rule: record_all.induct) (simp_all add: verdicts_Record_rebuild)
  then show ?thesis by (simp add: ledger_empty_def rebuild_def)
qed

end
