(* ===== verification/Metainfo.thy ===== *)
theory Metainfo
  imports GoStrings ProtocolID
begin

text \<open>
  Torrent metainfo as the crawler accepts it: \<open>protocol/metainfo/validate.go\<close> (the bounds and
  the character checks on names and paths), \<open>parse.go\<close> (size, hash, decoding, validation) and the
  banning checkers of \<open>protocol/metainfo/banning\<close>.
\<close>

section \<open>The info dictionary\<close>

text \<open>
  The fields of the third-party \<open>metainfo.Info\<close> and \<open>metainfo.FileInfo\<close> the sources read. Its
  methods are parameters, collected in a record.
\<close>

record FileInfo =
  fi_Path :: "string list"
  fi_Length :: int

record Info =
  info_Name :: string
  info_PieceLength :: int
  info_Files :: "FileInfo list"
  info_Pieces :: "byte list"
  info_Private :: "bool option"

record mi_methods =
  BestName :: "Info \<Rightarrow> string"
  TotalLength :: "Info \<Rightarrow> int"
  DisplayPath :: "Info \<Rightarrow> FileInfo \<Rightarrow> string"

definition Info_zero :: Info where
  "Info_zero = \<lparr>info_Name = [], info_PieceLength = 0, info_Files = [], info_Pieces = [],
     info_Private = None\<rparr>"

section \<open>Validation\<close>

definition MaxMetaInfoBytes :: nat where "MaxMetaInfoBytes = 10 * 1024 * 1024"
definition MaxNameLen :: nat where "MaxNameLen = 256"
definition MaxPathComponentLen :: nat where "MaxPathComponentLen = 255"
definition MaxPathDepth :: nat where "MaxPathDepth = 64"
definition MaxFilesCount :: nat where "MaxFilesCount = 100000"
definition MaxPieceLen :: int where "MaxPieceLen = 16 * 1024 * 1024"
definition MinPieceLen :: int where "MinPieceLen = 1"

text \<open>The sentinel errors; a wrapped error is represented by its sentinel.\<close>

datatype verr =
    ErrMetaInfoTooLarge | ErrInvalidUTF8 | ErrNullByte | ErrControlChar | ErrEmptyName
  | ErrNameTooLong | ErrEmptyPathComponent | ErrPathTraversal | ErrAbsolutePath
  | ErrPathTooLong | ErrPathTooDeep | ErrTooManyFiles | ErrPieceLenOutOfRange

definition isBadControl :: "nat \<Rightarrow> bool" where
  "isBadControl r \<longleftrightarrow> r < 0x20 \<or> r = 0x7f"

fun name_runes :: "nat list \<Rightarrow> verr option" where
  "name_runes [] = None"
| "name_runes (r # rs) =
     (if r = 0 then Some ErrNullByte
      else if isBadControl r then Some ErrControlChar
      else name_runes rs)"

definition validateName :: "string \<Rightarrow> verr option" where
  "validateName name =
     (if name = [] then Some ErrEmptyName
      else if length name > MaxNameLen then Some ErrNameTooLong
      else if \<not> ValidString name then Some ErrInvalidUTF8
      else name_runes (runes name))"

fun path_runes :: "nat list \<Rightarrow> verr option" where
  "path_runes [] = None"
| "path_runes (r # rs) =
     (if r = 0 then Some ErrNullByte
      else if isBadControl r then Some ErrControlChar
      else if r = 47 \<or> r = 92 then Some ErrAbsolutePath
      else path_runes rs)"

fun path_parts :: "string list \<Rightarrow> verr option" where
  "path_parts [] = None"
| "path_parts (p # ps) =
     (if p = [] then Some ErrEmptyPathComponent
      else if p = ''.'' \<or> p = ''..'' then Some ErrPathTraversal
      else if length p > MaxPathComponentLen then Some ErrPathTooLong
      else if \<not> ValidString p then Some ErrInvalidUTF8
      else case path_runes (runes p) of Some e \<Rightarrow> Some e | None \<Rightarrow> path_parts ps)"

definition validatePath :: "string list \<Rightarrow> verr option" where
  "validatePath parts = (if length parts > MaxPathDepth then Some ErrPathTooDeep else path_parts parts)"

fun validate_files :: "FileInfo list \<Rightarrow> verr option" where
  "validate_files [] = None"
| "validate_files (f # fs) =
     (case validatePath (fi_Path f) of Some e \<Rightarrow> Some e | None \<Rightarrow> validate_files fs)"

definition validateInfo :: "Info \<Rightarrow> verr option" where
  "validateInfo info =
     (case validateName (info_Name info) of
        Some e \<Rightarrow> Some e
      | None \<Rightarrow>
          if info_PieceLength info < MinPieceLen \<or> info_PieceLength info > MaxPieceLen
          then Some ErrPieceLenOutOfRange
          else if length (info_Files info) > MaxFilesCount then Some ErrTooManyFiles
          else validate_files (info_Files info))"

section \<open>Parsing\<close>

text \<open>
  \<open>HashBytes\<close> (SHA-1) and \<open>unmarshal\<close> (bencode) are parameters. The outcomes of a parse are told
  apart by a datatype of their own.
\<close>

datatype parse_err = PTooLarge | PWrongHash | PUnmarshal string | PInvalid verr

definition ParseMetaInfoBytes ::
  "(byte list \<Rightarrow> ID) \<Rightarrow> (byte list \<Rightarrow> string + Info) \<Rightarrow> ID \<Rightarrow> byte list \<Rightarrow> parse_err + Info" where
  "ParseMetaInfoBytes HashBytes unmarshal infoHash bs =
     (if length bs > MaxMetaInfoBytes then Inl PTooLarge
      else if HashBytes bs \<noteq> infoHash then Inl PWrongHash
      else case unmarshal bs of
        Inl e \<Rightarrow> Inl (PUnmarshal e)
      | Inr info \<Rightarrow>
          (case validateInfo info of Some e \<Rightarrow> Inl (PInvalid e) | None \<Rightarrow> Inr info))"

text \<open>The text of the error a failed parse returns, up to the numbers \<open>fmt\<close> prints in it.\<close>

fun verr_Error :: "verr \<Rightarrow> string" where
  "verr_Error ErrMetaInfoTooLarge = ''metainfo bytes exceed MaxMetaInfoBytes''"
| "verr_Error ErrInvalidUTF8 = ''string field contains invalid UTF-8''"
| "verr_Error ErrNullByte = ''string field contains a NUL byte''"
| "verr_Error ErrControlChar = ''string field contains a control character outside ''
     @ [CHR 0x5C] @ ''t'' @ [CHR 0x5C] @ ''n'' @ [CHR 0x5C] @ ''r''"
| "verr_Error ErrEmptyName = ''Info.Name is empty''"
| "verr_Error ErrNameTooLong = ''Info.Name exceeds MaxNameLen''"
| "verr_Error ErrEmptyPathComponent = ''Files[i].Path contains an empty component''"
| "verr_Error ErrPathTraversal = ''Files[i].Path contains '' @ [CHR 0x22] @ ''.'' @ [CHR 0x22]
     @ '' or '' @ [CHR 0x22] @ ''..'' @ [CHR 0x22]"
| "verr_Error ErrAbsolutePath = ''Files[i].Path component contains a path separator''"
| "verr_Error ErrPathTooLong = ''Files[i].Path component exceeds MaxPathComponentLen''"
| "verr_Error ErrPathTooDeep = ''Files[i].Path exceeds MaxPathDepth''"
| "verr_Error ErrTooManyFiles = ''Files count exceeds MaxFilesCount''"
| "verr_Error ErrPieceLenOutOfRange = ''PieceLength outside [MinPieceLen, MaxPieceLen]''"

section \<open>Banning\<close>

type_synonym checker = "Info \<Rightarrow> string option"

definition nameLengthChecker_Check :: "mi_methods \<Rightarrow> nat \<Rightarrow> checker" where
  "nameLengthChecker_Check mi mn info =
     (if length (BestName mi info) < mn then Some ''name too short'' else None)"

definition sizeChecker_Check :: "mi_methods \<Rightarrow> int \<Rightarrow> checker" where
  "sizeChecker_Check mi mn info = (if TotalLength mi info < mn then Some ''size too small'' else None)"

definition utf8Checker_Check :: "mi_methods \<Rightarrow> checker" where
  "utf8Checker_Check mi info =
     (let strs = BestName mi info # map (DisplayPath mi info) (info_Files info) in
      if list_ex (\<lambda>s. \<not> ValidString s \<or> CHR 0x00 \<in> set s) strs
      then Some ''meta info contains an invalid utf8 string'' else None)"

definition combinedChecker_Check :: "checker list \<Rightarrow> checker" where
  "combinedChecker_Check cs info = errors_Join (map (\<lambda>c. c info) cs)"

definition banning_New :: "mi_methods \<Rightarrow> checker list \<Rightarrow> checker" where
  "banning_New mi checkers =
     combinedChecker_Check
       (checkers @ [nameLengthChecker_Check mi 8, sizeChecker_Check mi 1024, utf8Checker_Check mi])"

section \<open>What validation guarantees\<close>

text \<open>A byte that is neither a control character nor, in a path, a separator.\<close>

definition clean_name_byte :: "char \<Rightarrow> bool" where
  "clean_name_byte c \<longleftrightarrow> 0x20 \<le> code c \<and> code c \<noteq> 0x7f"

definition clean_path_byte :: "char \<Rightarrow> bool" where
  "clean_path_byte c \<longleftrightarrow> clean_name_byte c \<and> c \<noteq> CHR ''/'' \<and> c \<noteq> CHR 0x5C"

lemma name_runes_None: "name_runes rs = None \<longleftrightarrow> (\<forall>r \<in> set rs. 0x20 \<le> r \<and> r \<noteq> 0x7f)"
  by (induction rs) (auto simp: isBadControl_def)

lemma path_runes_None:
  "path_runes rs = None \<longleftrightarrow> (\<forall>r \<in> set rs. 0x20 \<le> r \<and> r \<noteq> 0x7f \<and> r \<noteq> 47 \<and> r \<noteq> 92)"
  by (induction rs) (auto simp: isBadControl_def)

lemma runes_avoid:
  assumes low: "\<And>r. P r \<Longrightarrow> r < 128"
  shows "(\<forall>r \<in> set (runes s). \<not> P r) \<longleftrightarrow> (\<forall>c \<in> set s. \<not> P (code c))"
proof (intro iffI ballI notI)
  fix c assume all: "\<forall>r \<in> set (runes s). \<not> P r" and "c \<in> set s" and P: "P (code c)"
  then have "code c \<in> set (runes s)" using ascii_runes [OF low [OF P]] by blast
  with all P show False by blast
next
  fix r assume all: "\<forall>c \<in> set s. \<not> P (code c)" and "r \<in> set (runes s)" and P: "P r"
  then obtain c where "c \<in> set s" "code c = r" using ascii_runes [OF low [OF P]] by blast
  with all P show False by blast
qed

lemma name_runes_bytes: "name_runes (runes s) = None \<longleftrightarrow> list_all clean_name_byte s"
proof -
  let ?P = "\<lambda>r :: nat. r < 0x20 \<or> r = 0x7f"
  have "name_runes (runes s) = None \<longleftrightarrow> (\<forall>r \<in> set (runes s). \<not> ?P r)"
    by (auto simp: name_runes_None)
  also have "\<dots> \<longleftrightarrow> (\<forall>c \<in> set s. \<not> ?P (code c))" by (rule runes_avoid) auto
  also have "\<dots> \<longleftrightarrow> list_all clean_name_byte s"
    by (auto simp: list_all_iff clean_name_byte_def)
  finally show ?thesis .
qed

lemma code_slash: "code c = 47 \<longleftrightarrow> c = CHR ''/''"
  using of_char_eq_iff [where 'a = nat, of c "CHR ''/''"] by simp

lemma code_backslash: "code c = 92 \<longleftrightarrow> c = CHR 0x5C"
  using of_char_eq_iff [where 'a = nat, of c "CHR 0x5C"] by simp

definition bad_path_rune :: "nat \<Rightarrow> bool" where
  "bad_path_rune r \<longleftrightarrow> \<not> (0x20 \<le> r \<and> r \<noteq> 0x7f \<and> r \<noteq> 47 \<and> r \<noteq> 92)"

lemma bad_path_rune_code: "bad_path_rune (code c) \<longleftrightarrow> \<not> clean_path_byte c"
  by (simp only: bad_path_rune_def clean_path_byte_def clean_name_byte_def code_slash code_backslash
      conj_assoc)

lemma path_runes_bytes: "path_runes (runes s) = None \<longleftrightarrow> list_all clean_path_byte s"
proof -
  have "path_runes (runes s) = None \<longleftrightarrow> (\<forall>r \<in> set (runes s). \<not> bad_path_rune r)"
    by (simp only: path_runes_None bad_path_rune_def not_not)
  also have "\<dots> \<longleftrightarrow> (\<forall>c \<in> set s. \<not> bad_path_rune (code c))"
  proof (rule runes_avoid)
    fix r assume "bad_path_rune r"
    then have "r < 0x20 \<or> r = 0x7f \<or> r = 47 \<or> r = 92" unfolding bad_path_rune_def by linarith
    then show "r < 128" by linarith
  qed
  also have "\<dots> \<longleftrightarrow> list_all clean_path_byte s"
    by (simp only: bad_path_rune_code not_not list_all_iff)
  finally show ?thesis .
qed

definition name_ok :: "string \<Rightarrow> bool" where
  "name_ok s \<longleftrightarrow> 1 \<le> length s \<and> length s \<le> 256 \<and> ValidString s \<and> list_all clean_name_byte s"

definition component_ok :: "string \<Rightarrow> bool" where
  "component_ok p \<longleftrightarrow> 1 \<le> length p \<and> length p \<le> 255 \<and> p \<noteq> ''.'' \<and> p \<noteq> ''..'' \<and> ValidString p \<and>
     list_all clean_path_byte p"

lemma validateName_None: "validateName s = None \<longleftrightarrow> name_ok s"
  by (cases s) (auto simp: validateName_def name_ok_def MaxNameLen_def name_runes_bytes)

lemma path_parts_None: "path_parts ps = None \<longleftrightarrow> list_all component_ok ps"
proof (induction ps)
  case (Cons p ps)
  have nonempty: "p = [] \<longleftrightarrow> \<not> 1 \<le> length p" by (cases p) simp_all
  have "path_parts (p # ps) = None \<longleftrightarrow> component_ok p \<and> path_parts ps = None"
    unfolding component_ok_def path_runes_bytes [symmetric] path_parts.simps MaxPathComponentLen_def nonempty
    by (auto split: option.splits)
  with Cons show ?case by simp
qed simp

lemma validate_files_None:
  "validate_files fs = None \<longleftrightarrow>
     list_all (\<lambda>f. length (fi_Path f) \<le> 64 \<and> list_all component_ok (fi_Path f)) fs"
  by (induction fs)
    (auto simp: validatePath_def MaxPathDepth_def path_parts_None [symmetric] split: option.splits)

text \<open>C31.
  Metainfo passes \<open>validateInfo\<close> exactly when its name and every path component are well-formed
  UTF-8 of bounded length whose bytes are free of control characters, no component is empty,
  \<open>.\<close>, \<open>..\<close> or contains a separator byte, and the piece length, file count and path depth are
  within bounds: the rune-by-rune checks amount to this byte-level statement.\<close>

theorem validateInfo_exact:
  "validateInfo info = None \<longleftrightarrow>
     name_ok (info_Name info) \<and> 1 \<le> info_PieceLength info \<and> info_PieceLength info \<le> 16777216 \<and>
     length (info_Files info) \<le> 100000 \<and>
     list_all (\<lambda>f. length (fi_Path f) \<le> 64 \<and> list_all component_ok (fi_Path f)) (info_Files info)"
  by (auto simp: validateInfo_def validateName_None [symmetric] validate_files_None [symmetric]
      MinPieceLen_def MaxPieceLen_def MaxFilesCount_def split: option.splits)

lemma ParseMetaInfoBytes_ok:
  "ParseMetaInfoBytes HashBytes unmarshal h bs = Inr info \<longleftrightarrow>
     length bs \<le> MaxMetaInfoBytes \<and> HashBytes bs = h \<and> unmarshal bs = Inr info \<and>
     validateInfo info = None"
  by (auto simp: ParseMetaInfoBytes_def split: sum.splits option.splits)

lemma banning_New_passes:
  "banning_New mi cs info = None \<longleftrightarrow>
     (\<forall>c \<in> set cs. c info = None) \<and> 8 \<le> length (BestName mi info) \<and> 1024 \<le> TotalLength mi info \<and>
     (\<forall>s \<in> set (BestName mi info # map (DisplayPath mi info) (info_Files info)).
        ValidString s \<and> CHR 0x00 \<notin> set s)"
  by (auto simp: banning_New_def combinedChecker_Check_def nameLengthChecker_Check_def
      sizeChecker_Check_def utf8Checker_Check_def Let_def list_ex_iff split: if_splits)

end
