(* ===== verification/CrawlerTriage.thy ===== *)
theory CrawlerTriage
  imports CrawlerNodes Blocking Metainfo
begin

text \<open>
  The catalogue database, the gates in front of it, and triage: \<open>verdict_record.go\<close> and
  \<open>infohash_triage.go\<close> of \<open>internal/dhtcrawler\<close>. The gates (the CSAM blocklist, the blocking manager, the
  verdict ledger, the name policy) are the models of the other theories; the catalogue is a record of its
  tables. What the outside decides (database faults, iteration orders of maps, how many values are sent
  before a shutdown) are arguments.
\<close>

section \<open>The catalogue\<close>

datatype FilesStatus = FilesStatusNoInfo | FilesStatusSingle | FilesStatusMulti | FilesStatusOverThreshold

record TorrentFile =
  tf_InfoHash :: ID
  tf_Index :: nat
  tf_Path :: string
  tf_Size :: nat

record TorrentPieces =
  tp_InfoHash :: ID
  tp_PieceLength :: int
  tp_Pieces :: "byte list"

record Torrent =
  to_InfoHash :: ID
  to_Name :: string
  to_Size :: nat
  to_Private :: bool
  to_Pieces :: "TorrentPieces option"
  to_Files :: "TorrentFile list"
  to_FilesStatus :: FilesStatus
  to_FilesCount :: "nat option"
  to_Sources :: "(string \<times> ID) list"

record source_row =
  so_Seeders :: "nat option"
  so_Leechers :: "nat option"
  so_PublishedAt :: "time option"
  so_UpdatedAt :: time

record QueueJob =
  qj_Queue :: string
  qj_InfoHashes :: "ID list"
  qj_RunAfter :: time
  qj_MaxRetries :: nat

record catalogue =
  ct_torrents :: "ID \<rightharpoonup> Torrent"
  ct_files :: "TorrentFile list"
  ct_sources :: "string \<times> ID \<rightharpoonup> source_row"
  ct_pieces :: "ID \<rightharpoonup> TorrentPieces"
  ct_jobs :: "QueueJob list"

record infoHashWithMetaInfo = nodeHasPeersForHash +
  im_metaInfo :: Info

section \<open>The gates\<close>

record ('c, 'b) gates =
  gt_csam :: "'c csam_manager"
  gt_blk :: "'b blk_manager \<times> 'b blk_db"
  gt_ledger :: ledger
  gt_reader :: "string \<Rightarrow> nat"
  gt_denied :: denied_total

text \<open>The parameters of the gates, and what the outside decides during one batch or request.\<close>

record ('c, 'b) gate_env =
  ge_C :: "'c bloom_ops"
  ge_sha256 :: "byte list \<Rightarrow> byte list"
  ge_B :: "'b bloom_ops"
  ge_U :: scripts
  ge_now :: time
  ge_dbf :: db_faults
  ge_fresh :: nat
  ge_buffer_order :: "ID set \<Rightarrow> ID list"
  ge_lf :: "nat \<Rightarrow> ledger_faults"
  ge_blocked_fails :: bool
  ge_query_fails :: bool
  ge_hash_order :: "ID list \<Rightarrow> ID list"

subsection \<open>Verdict records (\<open>verdict_record.go\<close>)\<close>

definition recordVerdict :: "crawler \<Rightarrow> ledger_faults \<Rightarrow> ID \<Rightarrow> string \<Rightarrow> string \<Rightarrow> string option \<Rightarrow> ledger \<Rightarrow> ledger" where
  "recordVerdict c fl h mechanism reason evidence l =
     (if \<not> cr_hasVerdicts c then l
      else snd (verdicts_Record fl
        \<lparr>ev_InfoHash = h, ev_Verdict = VerdictBlacklisted, ev_Mechanism = mechanism, ev_Reason = reason,
         ev_Evidence = evidence, ev_Actor = [], ev_ExpiresAt = None\<rparr> l))"

abbreviation dquote :: string where "dquote \<equiv> [CHR 0x22]"

definition csamEvidence :: "string \<Rightarrow> string option" where
  "csamEvidence site = Some (''{'' @ dquote @ ''site'' @ dquote @ '':'' @ dquote @ site @ dquote @ '','' @
     dquote @ ''source'' @ dquote @ '':'' @ dquote @ ''community_feed'' @ dquote @ ''}'')"

definition removedHashes :: "ID list \<Rightarrow> ID list \<Rightarrow> ID list" where
  "removedHashes all kept = (if length all = length kept then [] else filter (\<lambda>h. h \<notin> set kept) all)"

definition csam_reason :: "string \<Rightarrow> string" where
  "csam_reason site = ''community-feed CSAM reject ('' @ site @ '')''"

definition recordCsamReject :: "crawler \<Rightarrow> ledger_faults \<Rightarrow> ID \<Rightarrow> string \<Rightarrow> ledger \<Rightarrow> ledger" where
  "recordCsamReject c fl h site l = recordVerdict c fl h MechanismCsam (csam_reason site) (csamEvidence site) l"

fun record_removed :: "crawler \<Rightarrow> (nat \<Rightarrow> ledger_faults) \<Rightarrow> nat \<Rightarrow> string \<Rightarrow> ID list \<Rightarrow> ledger \<Rightarrow> ledger" where
  "record_removed c lf i site [] l = l"
| "record_removed c lf i site (h # hs) l = record_removed c lf (Suc i) site hs (recordCsamReject c (lf i) h site l)"

definition recordCsamRejects :: "crawler \<Rightarrow> (nat \<Rightarrow> ledger_faults) \<Rightarrow> ID list \<Rightarrow> ID list \<Rightarrow> string \<Rightarrow> ledger \<Rightarrow> ledger" where
  "recordCsamRejects c lf all kept site l =
     (if \<not> cr_hasVerdicts c then l else record_removed c lf 0 site (removedHashes all kept) l)"

definition recordBlockingVerdict :: "crawler \<Rightarrow> ledger_faults \<Rightarrow> ID \<Rightarrow> ledger \<Rightarrow> ledger" where
  "recordBlockingVerdict c fl h l = recordVerdict c fl h MechanismBlocking ''banning check failed; blocked'' None l"

section \<open>Triage (\<open>infohash_triage.go\<close>)\<close>

text \<open>The first loop: hashes the policy excludes are counted and left out, repetitions are left out.\<close>

fun triage_dedup ::
  "scripts \<Rightarrow> Policy option \<Rightarrow> nodeHasPeersForHash list \<Rightarrow> ID list \<times> (ID \<rightharpoonup> nodeHasPeersForHash) \<times> denied_total \<Rightarrow>
     ID list \<times> (ID \<rightharpoonup> nodeHasPeersForHash) \<times> denied_total" where
  "triage_dedup U p [] s = s"
| "triage_dedup U p (r # rs) (hs, reqMap, dn) =
     (let h = nh_infoHash r in
      if ExcludesHash p h
      then triage_dedup U p rs (hs, reqMap, np_Observe p ''crawler_existing'' (np_Evaluate U p h []) dn)
      else if reqMap h \<noteq> None then triage_dedup U p rs (hs, reqMap, dn)
      else triage_dedup U p rs (hs @ [h], reqMap(h \<mapsto> r), dn))"

text \<open>The ledger consult: fail-open on an error, count-only while the readers are not live.\<close>

definition verdict_gate :: "crawler \<Rightarrow> bool \<Rightarrow> ID list \<Rightarrow> ledger \<Rightarrow> (string \<Rightarrow> nat) \<Rightarrow> ID list \<times> (string \<Rightarrow> nat)" where
  "verdict_gate c fails hs l rd =
     (if \<not> cr_hasVerdicts c then (hs, rd)
      else case BlockedSet fails hs l of
        Inl _ \<Rightarrow> (hs, rd(''error'' := rd ''error'' + 1))
      | Inr blocked \<Rightarrow>
          if blocked \<noteq> {} \<and> cr_verdictsLive c then
            (let kept = filter (\<lambda>h. ID_String h \<notin> blocked) hs in
             (kept, rd(''skipped'' := rd ''skipped'' + (length hs - length kept))))
          else if blocked \<noteq> {} then (hs, rd(''would_skip'' := rd ''would_skip'' + card blocked))
          else (hs, rd))"

record triageResult =
  tr_Name :: string
  tr_FilesStatus :: FilesStatus
  tr_FilesCount :: "nat option"
  tr_Seeders :: "nat option"
  tr_Leechers :: "nat option"
  tr_UpdatedAt :: time

text \<open>The query: torrents with one of the hashes, joined with their row of source \<open>dht\<close>.\<close>

definition foundTorrents :: "ID list \<Rightarrow> catalogue \<Rightarrow> ID \<rightharpoonup> triageResult" where
  "foundTorrents hs db h =
     (if h \<notin> set hs then None
      else case ct_torrents db h of
        None \<Rightarrow> None
      | Some t \<Rightarrow>
          let src = ct_sources db (''dht'', h) in
          Some \<lparr>tr_Name = to_Name t, tr_FilesStatus = to_FilesStatus t, tr_FilesCount = to_FilesCount t,
            tr_Seeders = (case src of Some s \<Rightarrow> so_Seeders s | None \<Rightarrow> None),
            tr_Leechers = (case src of Some s \<Rightarrow> so_Leechers s | None \<Rightarrow> None),
            tr_UpdatedAt = (case src of Some s \<Rightarrow> so_UpdatedAt s | None \<Rightarrow> 0)\<rparr>)"

definition needs_meta_info :: "crawler \<Rightarrow> triageResult option \<Rightarrow> bool" where
  "needs_meta_info c r =
     (case r of
        None \<Rightarrow> True
      | Some t \<Rightarrow>
          tr_FilesStatus t = FilesStatusNoInfo \<or>
          (tr_FilesStatus t \<noteq> FilesStatusSingle \<and> tr_FilesCount t = None) \<or>
          (tr_FilesStatus t = FilesStatusOverThreshold \<and>
             (case tr_FilesCount t of Some n \<Rightarrow> n | None \<Rightarrow> 0) \<le> cr_saveFilesThreshold c))"

definition needs_scrape :: "crawler \<Rightarrow> time \<Rightarrow> triageResult option \<Rightarrow> bool" where
  "needs_scrape c now r =
     (case r of
        None \<Rightarrow> False
      | Some t \<Rightarrow> tr_Seeders t = None \<or> tr_Leechers t = None \<or> tr_UpdatedAt t < now + - cr_rescrapeThreshold c)"

datatype triage_route = ToGetPeers | ToScrape

definition triage_route_of :: "crawler \<Rightarrow> time \<Rightarrow> triageResult option \<Rightarrow> triage_route option" where
  "triage_route_of c now t =
     (if needs_meta_info c t then Some ToGetPeers else if needs_scrape c now t then Some ToScrape else None)"

definition req_zero :: nodeHasPeersForHash where
  "req_zero = \<lparr>nh_infoHash = ID_zero, nh_node = \<lparr>ap_addr = AddrZero, ap_port = 0\<rparr>\<rparr>"

text \<open>The name policy on a stored name; a hash without a stored name passes.\<close>

definition name_decision :: "crawler \<Rightarrow> scripts \<Rightarrow> (ID \<rightharpoonup> triageResult) \<Rightarrow> ID \<Rightarrow> np_Decision" where
  "name_decision c U found h =
     (case found h of
        Some t \<Rightarrow> if tr_Name t \<noteq> [] then np_Evaluate U (cr_namePolicy c) h (tr_Name t)
                  else \<lparr>Eligible = True, Reason = ReasonAllowed, Version = np_Version\<rparr>
      | None \<Rightarrow> \<lparr>Eligible = True, Reason = ReasonAllowed, Version = np_Version\<rparr>)"

text \<open>The last loop, in the order the map is ranged over; \<open>k\<close> sends succeed before a shutdown.\<close>

fun route_loop ::
  "crawler \<Rightarrow> scripts \<Rightarrow> time \<Rightarrow> (ID \<rightharpoonup> triageResult) \<Rightarrow> (ID \<rightharpoonup> nodeHasPeersForHash) \<Rightarrow> nat \<Rightarrow> ID list \<Rightarrow> denied_total \<Rightarrow>
     (triage_route \<times> nodeHasPeersForHash) list \<times> denied_total" where
  "route_loop c U now found reqMap k [] dn = ([], dn)"
| "route_loop c U now found reqMap k (h # hs) dn =
     (let r = (case reqMap h of Some r \<Rightarrow> r | None \<Rightarrow> req_zero);
          d = name_decision c U found h
      in if \<not> Eligible d
         then route_loop c U now found reqMap k hs (np_Observe (cr_namePolicy c) ''crawler_existing'' d dn)
         else case triage_route_of c now (found (nh_infoHash r)) of
           None \<Rightarrow> route_loop c U now found reqMap k hs dn
         | Some x \<Rightarrow>
             if k = 0 then ([], dn)
             else let (s, dn') = route_loop c U now found reqMap (k - 1) hs dn in ((x, r) # s, dn'))"

definition runInfoHashTriage_batch ::
  "crawler \<Rightarrow> ('c, 'b) gate_env \<Rightarrow> nat \<Rightarrow> nodeHasPeersForHash list \<Rightarrow> catalogue \<Rightarrow> ('c, 'b) gates \<Rightarrow>
     (triage_route \<times> nodeHasPeersForHash) list \<times> ('c, 'b) gates" where
  "runInfoHashTriage_batch c E k reqs db g =
     (let (allHashes, reqMap, dn) = triage_dedup (ge_U E) (cr_namePolicy c) reqs ([], Map.empty, gt_denied g);
          csamKept = mgr_Filter (ge_C E) (ge_sha256 E) (gt_csam g) allHashes;
          g1 = g\<lparr>gt_denied := dn,
                 gt_ledger := recordCsamRejects c (ge_lf E) allHashes csamKept ''triage'' (gt_ledger g)\<rparr>;
          (r, blk) = blk_Filter (ge_B E) (ge_dbf E) (ge_fresh E) (ge_buffer_order E (bm_buffer (fst (gt_blk g1)))) (ge_now E)
                       csamKept (gt_blk g1);
          g2 = g1\<lparr>gt_blk := blk\<rparr>
      in case r of
           Inl _ \<Rightarrow> ([], g2)
         | Inr filteredHashes \<Rightarrow>
             if filteredHashes = [] then ([], g2)
             else
               let (hashes, rd) = verdict_gate c (ge_blocked_fails E) filteredHashes (gt_ledger g2) (gt_reader g2);
                   g3 = g2\<lparr>gt_reader := rd\<rparr>
               in if cr_hasVerdicts c \<and> hashes = [] then ([], g3)
                  else if ge_query_fails E then ([], g3)
                  else
                    let (sends, dn') = route_loop c (ge_U E) (ge_now E) (foundTorrents hashes db) reqMap k
                          (ge_hash_order E hashes) (gt_denied g3)
                    in (sends, g3\<lparr>gt_denied := dn'\<rparr>))"

section \<open>What triage lets through\<close>

lemma triage_dedup_eq:
  assumes "triage_dedup U p reqs (hs0, m0, dn0) = (hs, m, dn)" and "dom m0 = set hs0" and "distinct hs0"
  shows "dom m = set hs \<and> distinct hs \<and>
     (\<forall>h. m h = (case m0 h of Some r \<Rightarrow> Some r
                | None \<Rightarrow> if ExcludesHash p h then None else find (\<lambda>r. nh_infoHash r = h) reqs))"
  using assms
proof (induction reqs arbitrary: hs0 m0 dn0)
  case Nil
  then show ?case by (auto simp: fun_eq_iff split: option.splits)
next
  case (Cons r reqs)
  let ?h = "nh_infoHash r"
  consider "ExcludesHash p ?h" | "\<not> ExcludesHash p ?h" "m0 ?h \<noteq> None" | "\<not> ExcludesHash p ?h" "m0 ?h = None" by blast
  then show ?case
  proof cases
    case 1
    with Cons.prems(1) Cons.IH [OF _ Cons.prems(2,3)] show ?thesis
      by (auto simp: Let_def fun_eq_iff split: option.splits)
  next
    case 2
    with Cons.prems(1) Cons.IH [OF _ Cons.prems(2,3)] show ?thesis
      by (auto simp: Let_def fun_eq_iff split: option.splits)
  next
    case 3
    then have "?h \<notin> set hs0" using Cons.prems(2) by auto
    then have "dom (m0(?h \<mapsto> r)) = set (hs0 @ [?h])" "distinct (hs0 @ [?h])" using Cons.prems(2,3) by simp_all
    moreover have "triage_dedup U p reqs (hs0 @ [?h], m0(?h \<mapsto> r), dn0) = (hs, m, dn)"
      using 3 Cons.prems(1) by (simp add: Let_def)
    ultimately have *: "dom m = set hs \<and> distinct hs \<and>
       (\<forall>h. m h = (case (m0(?h \<mapsto> r)) h of Some r \<Rightarrow> Some r
                  | None \<Rightarrow> if ExcludesHash p h then None else find (\<lambda>r. nh_infoHash r = h) reqs))"
      by (intro Cons.IH)
    have "(case (m0(?h \<mapsto> r)) h of Some r \<Rightarrow> Some r
            | None \<Rightarrow> if ExcludesHash p h then None else find (\<lambda>r. nh_infoHash r = h) reqs) =
          (case m0 h of Some r \<Rightarrow> Some r
            | None \<Rightarrow> if ExcludesHash p h then None else find (\<lambda>r. nh_infoHash r = h) (r # reqs))" for h
      using 3 by (auto split: option.splits)
    from * [unfolded this] show ?thesis .
  qed
qed

lemma triage_dedup_start:
  assumes "triage_dedup U p reqs ([], Map.empty, dn0) = (hs, m, dn)"
  shows "distinct hs" "set hs = {h. \<not> ExcludesHash p h \<and> h \<in> nh_infoHash ` set reqs}"
    "m h = (if ExcludesHash p h then None else find (\<lambda>r. nh_infoHash r = h) reqs)"
proof -
  note e = triage_dedup_eq [OF assms]
  show "distinct hs" using e by simp
  show m: "m h = (if ExcludesHash p h then None else find (\<lambda>r. nh_infoHash r = h) reqs)" for h using e by simp
  have "m h \<noteq> None \<longleftrightarrow> \<not> ExcludesHash p h \<and> h \<in> nh_infoHash ` set reqs" for h
    using find_None_iff [of "\<lambda>r. nh_infoHash r = h" reqs] unfolding m by (cases "ExcludesHash p h") auto
  moreover have "dom m = set hs" using e by simp
  ultimately show "set hs = {h. \<not> ExcludesHash p h \<and> h \<in> nh_infoHash ` set reqs}" by blast
qed

lemma length_triage_dedup:
  assumes "triage_dedup U p reqs ([], Map.empty, dn0) = (hs, m, dn)"
  shows "length hs \<le> length reqs"
proof -
  have "length hs = card (set hs)" using triage_dedup_start(1) [OF assms] by (simp add: distinct_card)
  also have "\<dots> \<le> card (nh_infoHash ` set reqs)" using triage_dedup_start(2) [OF assms] by (auto intro: card_mono)
  also have "\<dots> \<le> length reqs" by (meson card_image_le card_length finite_set le_trans)
  finally show ?thesis .
qed

definition ledger_blocks :: "ledger \<Rightarrow> ID \<Rightarrow> bool" where
  "ledger_blocks l h = (case lg_state l h of Some (v, _, _) \<Rightarrow> v \<in> set blockingVerdicts | None \<Rightarrow> False)"

lemma hex_encode_inject: "hex_encode a = hex_encode b \<longleftrightarrow> a = b"
  by (metis hex_decode_encode sum.inject(2))

lemma verdict_gate_eq:
  "fst (verdict_gate c fails hs l rd) =
     filter (\<lambda>h. \<not> (cr_hasVerdicts c \<and> cr_verdictsLive c \<and> \<not> fails \<and> ledger_blocks l h)) hs"
proof (cases "hs = []")
  case False
  let ?B = "set (map hex_encode (filter (ledger_blocks l) hs))"
  have b: "BlockedSet fails hs l = (if fails then Inl ''verdicts: blocked set'' else Inr ?B)"
    using False by (simp add: BlockedSet_def ledger_blocks_def [abs_def])
  have "ID_String h \<in> ?B \<longleftrightarrow> ledger_blocks l h" if "h \<in> set hs" for h
    using that by (auto simp: ID_String_def hex_encode_inject)
  then have "filter (\<lambda>h. ID_String h \<notin> ?B) hs = filter (\<lambda>h. \<not> ledger_blocks l h) hs" by (intro filter_cong) auto
  moreover have "?B = {} \<Longrightarrow> filter (\<lambda>h. \<not> ledger_blocks l h) hs = hs"
    by (simp add: filter_empty_conv)
  ultimately show ?thesis unfolding verdict_gate_def b by (auto simp: Let_def)
qed (simp add: verdict_gate_def BlockedSet_def)

lemma verdicts_Record_other: "h \<noteq> ev_InfoHash ev \<Longrightarrow> lg_state (snd (verdicts_Record fl ev l)) h = lg_state l h"
  by (simp add: verdicts_Record_def RecordTx_def Let_def)

lemma recordVerdict_other: "h \<noteq> h' \<Longrightarrow> lg_state (recordVerdict c fl h m r e l) h' = lg_state l h'"
  by (simp add: recordVerdict_def verdicts_Record_other)

lemma record_removed_other: "h \<notin> set hs \<Longrightarrow> lg_state (record_removed c lf i site hs l) h = lg_state l h"
  by (induction hs arbitrary: i l) (auto simp: recordCsamReject_def recordVerdict_other)

lemma recordCsamRejects_other:
  "h \<in> set kept \<Longrightarrow> lg_state (recordCsamRejects c lf all kept site l) h = lg_state l h"
  by (auto simp: recordCsamRejects_def removedHashes_def intro: record_removed_other)

lemma route_loop_eq:
  "length hs \<le> k \<Longrightarrow>
     fst (route_loop c U now found reqMap k hs dn) =
     List.map_filter (\<lambda>h. let r = (case reqMap h of Some r \<Rightarrow> r | None \<Rightarrow> req_zero) in
       if Eligible (name_decision c U found h)
       then map_option (\<lambda>x. (x, r)) (triage_route_of c now (found (nh_infoHash r))) else None) hs"
proof (induction hs arbitrary: k dn)
  case (Cons h hs)
  then have k: "length hs \<le> k" "length hs \<le> k - 1" "k \<noteq> 0" by auto
  show ?case
    using k(3) Cons.IH [OF k(1)] Cons.IH [OF k(2)]
    by (simp add: Let_def map_filter_simps case_prod_unfold split: option.split)
qed (simp add: map_filter_simps)

text \<open>
  The blocking manager at the time of the check: reloaded from the database when it holds no filter or
  a flush is due, otherwise as it is.
\<close>

definition blk_refresh ::
  "('c, 'b) gate_env \<Rightarrow> 'b blk_manager \<times> 'b blk_db \<Rightarrow> string option \<times> 'b blk_manager \<times> 'b blk_db" where
  "blk_refresh E st =
     (if bm_filter (fst st) = None \<or> shouldFlush (ge_now E) (fst st)
      then blk_flush (ge_B E) (ge_dbf E) (ge_fresh E) (ge_buffer_order E (bm_buffer (fst st))) (ge_now E) st
      else (None, st))"

definition blk_blocks :: "'b bloom_ops \<Rightarrow> 'b blk_manager \<Rightarrow> ID \<Rightarrow> bool" where
  "blk_blocks B m h \<longleftrightarrow> h \<in> bm_buffer m \<or> (case bm_filter m of Some bf \<Rightarrow> bl_Test B bf h | None \<Rightarrow> False)"

lemma blk_flush_recovery: "blk_flush B fl fresh order now (m, db) = (e, m', db') \<Longrightarrow> bm_recovery m' = bm_recovery m"
  by (auto simp: blk_flush_def Let_def split: if_splits option.splits sum.splits prod.splits)

lemma blk_Filter_refresh:
  assumes "blk_refresh E st = (None, m', db')" and "bm_recovery (fst st) = None"
  shows "blk_Filter (ge_B E) (ge_dbf E) (ge_fresh E) (ge_buffer_order E (bm_buffer (fst st))) (ge_now E) hs st =
     (Inr (filter (\<lambda>h. \<not> blk_blocks (ge_B E) m' h) hs), m', db')"
proof -
  obtain m db where st: "st = (m, db)" by (cases st)
  have "bm_recovery m' = None"
    using assms blk_flush_recovery [of "ge_B E" "ge_dbf E" "ge_fresh E" _ "ge_now E" m db None m' db']
    by (auto simp: st blk_refresh_def split: if_splits)
  then show ?thesis
    using assms(1) by (auto simp: st blk_Filter_def blk_refresh_def Let_def blk_kept_eq blk_blocks_def split: if_splits)
qed

text \<open>The gates a hash has to pass, and the name check for a hash with a stored name.\<close>

definition triage_admits :: "crawler \<Rightarrow> ('c, 'b) gate_env \<Rightarrow> ('c, 'b) gates \<Rightarrow> 'b blk_manager \<Rightarrow> ID \<Rightarrow> bool" where
  "triage_admits c E g m h \<longleftrightarrow>
     \<not> ExcludesHash (cr_namePolicy c) h \<and> \<not> mgr_IsBlocked (ge_C E) (ge_sha256 E) (gt_csam g) h \<and>
     \<not> blk_blocks (ge_B E) m h \<and>
     \<not> (cr_hasVerdicts c \<and> cr_verdictsLive c \<and> \<not> ge_blocked_fails E \<and> ledger_blocks (gt_ledger g) h)"

definition hash_order_ok :: "('c, 'b) gate_env \<Rightarrow> bool" where
  "hash_order_ok E \<longleftrightarrow> (\<forall>hs. distinct hs \<longrightarrow> distinct (ge_hash_order E hs) \<and> set (ge_hash_order E hs) = set hs)"

definition send_of :: "crawler \<Rightarrow> ('c, 'b) gate_env \<Rightarrow> catalogue \<Rightarrow> nodeHasPeersForHash \<Rightarrow> (triage_route \<times> nodeHasPeersForHash) option" where
  "send_of c E db r =
     (let h = nh_infoHash r in
      if Eligible (name_decision c (ge_U E) (foundTorrents [h] db) h)
      then map_option (\<lambda>x. (x, r)) (triage_route_of c (ge_now E) (foundTorrents [h] db h)) else None)"

lemma foundTorrents_member: "h \<in> set hs \<Longrightarrow> foundTorrents hs db h = foundTorrents [h] db h"
  by (simp add: foundTorrents_def)

lemma find_hash: "find (\<lambda>q. nh_infoHash q = h) reqs = Some r \<Longrightarrow> nh_infoHash r = h \<and> r \<in> set reqs"
  by (auto simp: find_Some_iff)

lemma map_filter_cong: "(\<And>x. x \<in> set xs \<Longrightarrow> f x = g x) \<Longrightarrow> List.map_filter f xs = List.map_filter g xs"
  by (induction xs) (auto simp: map_filter_simps split: option.splits)

lemma set_map_filter_iff: "y \<in> set (List.map_filter f xs) \<longleftrightarrow> (\<exists>x \<in> set xs. f x = Some y)"
  by (induction xs) (auto simp: map_filter_simps split: option.splits)

lemma distinct_map_filter_inj:
  "distinct xs \<Longrightarrow> (\<And>x y. f x = Some y \<Longrightarrow> x \<in> set xs \<Longrightarrow> g y = x) \<Longrightarrow> distinct (map g (List.map_filter f xs))"
proof (induction xs)
  case (Cons x xs)
  then have "distinct (map g (List.map_filter f xs))" by simp
  moreover have "g y = x \<Longrightarrow> y \<notin> set (List.map_filter f xs)" for y
    using Cons.prems by (auto simp: set_map_filter_iff)
  ultimately show ?case
    using Cons.prems(2) [of x] by (auto simp: map_filter_simps split: option.splits)
qed (simp add: map_filter_simps)

lemma triage_sends:
  assumes run: "runInfoHashTriage_batch c E k reqs db g = (sends, g')"
    and rec: "bm_recovery (fst (gt_blk g)) = None" and ref: "blk_refresh E (gt_blk g) = (None, m, bdb)"
    and q: "\<not> ge_query_fails E" and k: "length reqs \<le> k" and ord: "hash_order_ok E"
  obtains H where "distinct H"
    "set H = {h. h \<in> nh_infoHash ` set reqs \<and> triage_admits c E g m h}"
    "sends = List.map_filter (\<lambda>h. case find (\<lambda>q. nh_infoHash q = h) reqs of Some r \<Rightarrow> send_of c E db r | None \<Rightarrow> None) H"
proof -
  let ?p = "cr_namePolicy c"
  obtain hs M dn where d: "triage_dedup (ge_U E) ?p reqs ([], Map.empty, gt_denied g) = (hs, M, dn)"
    by (metis surj_pair)
  note dd = triage_dedup_start [OF d]
  define kept where "kept = filter (\<lambda>h. \<not> mgr_IsBlocked (ge_C E) (ge_sha256 E) (gt_csam g) h) hs"
  define l where "l = recordCsamRejects c (ge_lf E) hs kept ''triage'' (gt_ledger g)"
  define fl where "fl = filter (\<lambda>h. \<not> blk_blocks (ge_B E) m h) kept"
  define rd where "rd = snd (verdict_gate c (ge_blocked_fails E) fl l (gt_reader g))"
  define H where "H = fst (verdict_gate c (ge_blocked_fails E) fl l (gt_reader g))"
  have vg: "verdict_gate c (ge_blocked_fails E) fl l (gt_reader g) = (H, rd)" by (simp add: H_def rd_def)
  have lb: "ledger_blocks l h = ledger_blocks (gt_ledger g) h" if "h \<in> set kept" for h
    using recordCsamRejects_other [OF that] by (simp add: ledger_blocks_def l_def)
  have "H = filter (\<lambda>h. \<not> (cr_hasVerdicts c \<and> cr_verdictsLive c \<and> \<not> ge_blocked_fails E \<and> ledger_blocks l h)) fl"
    by (simp only: H_def verdict_gate_eq)
  then have H: "distinct H" "set H = {h. h \<in> nh_infoHash ` set reqs \<and> triage_admits c E g m h}"
    using dd(1,2) lb by (auto simp: fl_def kept_def triage_admits_def)
  have Hl: "set H \<subseteq> set hs" "length (ge_hash_order E H) \<le> k"
  proof -
    show sub: "set H \<subseteq> set hs" using H(2) dd(2) by (auto simp: triage_admits_def)
    have "length (ge_hash_order E H) = length H"
      using ord H(1) unfolding hash_order_ok_def by (metis distinct_card)
    also have "\<dots> \<le> length hs" using sub H(1) dd(1) by (metis card_mono distinct_card finite_set)
    finally show "length (ge_hash_order E H) \<le> k" using length_triage_dedup [OF d] k by simp
  qed
  define f where "f = (\<lambda>h. let r = (case M h of Some r \<Rightarrow> r | None \<Rightarrow> req_zero) in
       if Eligible (name_decision c (ge_U E) (foundTorrents H db) h)
       then map_option (\<lambda>x. (x, r)) (triage_route_of c (ge_now E) (foundTorrents H db (nh_infoHash r))) else None)"
  have rl: "fst (route_loop c (ge_U E) (ge_now E) (foundTorrents H db) M k (ge_hash_order E H) dn) =
      List.map_filter f (ge_hash_order E H)"
    using route_loop_eq [OF Hl(2)] by (simp only: f_def)
  have mk: "mgr_Filter (ge_C E) (ge_sha256 E) (gt_csam g) hs = kept" by (simp add: mgr_Filter_eq kept_def)
  have bf: "blk_Filter (ge_B E) (ge_dbf E) (ge_fresh E) (ge_buffer_order E (bm_buffer (fst (gt_blk g)))) (ge_now E)
      kept (gt_blk g) = (Inr fl, m, bdb)"
    using blk_Filter_refresh [OF ref rec, of kept] by (simp add: fl_def)
  have nil: "H = [] \<Longrightarrow> List.map_filter f (ge_hash_order E H) = []"
    using ord [unfolded hash_order_ok_def, rule_format, of "[]"] by (simp add: map_filter_simps)
  have flH: "fl = [] \<Longrightarrow> H = []" by (simp add: H_def verdict_gate_eq)
  obtain S dn2 where R: "route_loop c (ge_U E) (ge_now E) (foundTorrents H db) M k (ge_hash_order E H) dn = (S, dn2)"
    by (metis surj_pair)
  have "fst (runInfoHashTriage_batch c E k reqs db g) = (if fl = [] \<or> (cr_hasVerdicts c \<and> H = []) then [] else S)"
    using q by (simp add: runInfoHashTriage_batch_def d mk bf l_def [symmetric] vg R Let_def)
  then have "sends = (if fl = [] \<or> (cr_hasVerdicts c \<and> H = []) then [] else S)" by (simp only: run fst_conv)
  moreover have "S = List.map_filter f (ge_hash_order E H)" using rl by (simp only: R fst_conv)
  ultimately have "sends = List.map_filter f (ge_hash_order E H)" using nil flH by (simp split: if_splits)
  moreover have "List.map_filter f (ge_hash_order E H) =
      List.map_filter (\<lambda>h. case find (\<lambda>q. nh_infoHash q = h) reqs of Some r \<Rightarrow> send_of c E db r | None \<Rightarrow> None) (ge_hash_order E H)"
  proof (rule map_filter_cong)
    fix h assume "h \<in> set (ge_hash_order E H)"
    then have h: "h \<in> set H" using ord H(1) by (simp add: hash_order_ok_def)
    then have adm: "h \<in> nh_infoHash ` set reqs" "\<not> ExcludesHash ?p h" using H(2) by (auto simp: triage_admits_def)
    obtain r where r: "find (\<lambda>q. nh_infoHash q = h) reqs = Some r"
      using adm(1) find_None_iff [of "\<lambda>q. nh_infoHash q = h" reqs] by (auto simp del: find_None_iff)
    have M: "M h = Some r" using dd(3) [of h] adm(2) r by simp
    have rh: "nh_infoHash r = h" using find_hash [OF r] by simp
    have nd: "name_decision c (ge_U E) (foundTorrents H db) h = name_decision c (ge_U E) (foundTorrents [h] db) h"
      by (simp only: name_decision_def foundTorrents_member [OF h])
    have "f h = send_of c E db r"
      by (simp only: f_def send_of_def Let_def M option.case rh nd foundTorrents_member [OF h])
    then show "f h = (case find (\<lambda>q. nh_infoHash q = h) reqs of Some r \<Rightarrow> send_of c E db r | None \<Rightarrow> None)"
      by (simp only: r option.case)
  qed
  ultimately show thesis
    using that [of "ge_hash_order E H"] H ord by (simp add: hash_order_ok_def)
qed

text \<open>C6.
  Triage is exact. When the blocking filter is available, the lookup of stored torrents succeeds and no
  shutdown interferes, a batch sends on precisely one request for each of its hashes that passes every
  gate (not excluded by the name policy, not on the CSAM blocklist, not in the blocking filter or its
  buffer, not blocked in the verdict ledger while its readers are live), the first one received, with a
  stored name the policy accepts: to the get-peers stage exactly when the metadata is missing or
  incomplete, otherwise to the scrape stage exactly when the counts are missing or old.\<close>

theorem triage_routes_exactly:
  assumes "runInfoHashTriage_batch c E k reqs db g = (sends, g')"
    and "bm_recovery (fst (gt_blk g)) = None" and "blk_refresh E (gt_blk g) = (None, m, bdb)"
    and "\<not> ge_query_fails E" and "length reqs \<le> k" and "hash_order_ok E"
  shows "((x, r) \<in> set sends \<longleftrightarrow>
       find (\<lambda>q. nh_infoHash q = nh_infoHash r) reqs = Some r \<and>
       triage_admits c E g m (nh_infoHash r) \<and>
       (\<forall>t. foundTorrents [nh_infoHash r] db (nh_infoHash r) = Some t \<and> tr_Name t \<noteq> [] \<longrightarrow>
          Eligible (np_Evaluate (ge_U E) (cr_namePolicy c) (nh_infoHash r) (tr_Name t))) \<and>
       (x = ToGetPeers \<longleftrightarrow> needs_meta_info c (foundTorrents [nh_infoHash r] db (nh_infoHash r))) \<and>
       (x = ToScrape \<longrightarrow> needs_scrape c (ge_now E) (foundTorrents [nh_infoHash r] db (nh_infoHash r)))) \<and>
     distinct (map (nh_infoHash \<circ> snd) sends)"
proof -
  obtain H where H: "distinct H" "set H = {h. h \<in> nh_infoHash ` set reqs \<and> triage_admits c E g m h}"
    "sends = List.map_filter (\<lambda>h. case find (\<lambda>q. nh_infoHash q = h) reqs of Some r \<Rightarrow> send_of c E db r | None \<Rightarrow> None) H"
    by (rule triage_sends [OF assms])
  let ?h = "nh_infoHash r"
  have name: "Eligible (name_decision c (ge_U E) (foundTorrents [?h] db) ?h) \<longleftrightarrow>
      (\<forall>t. foundTorrents [?h] db ?h = Some t \<and> tr_Name t \<noteq> [] \<longrightarrow>
          Eligible (np_Evaluate (ge_U E) (cr_namePolicy c) ?h (tr_Name t)))"
    by (auto simp: name_decision_def split: option.splits)
  have send: "send_of c E db r' = Some (x, r) \<longleftrightarrow> r' = r \<and>
      Eligible (name_decision c (ge_U E) (foundTorrents [?h] db) ?h) \<and>
      triage_route_of c (ge_now E) (foundTorrents [?h] db ?h) = Some x" for r'
    by (auto simp: send_of_def Let_def)
  have route: "triage_route_of c (ge_now E) t = Some x \<longleftrightarrow>
      (x = ToGetPeers \<longleftrightarrow> needs_meta_info c t) \<and> (x = ToScrape \<longrightarrow> needs_scrape c (ge_now E) t)" for t
    by (cases x) (auto simp: triage_route_of_def)
  have "(x, r) \<in> set sends \<longleftrightarrow>
      (\<exists>h \<in> set H. \<exists>r'. find (\<lambda>q. nh_infoHash q = h) reqs = Some r' \<and> send_of c E db r' = Some (x, r))"
    by (auto simp: H(3) set_map_filter_iff split: option.splits)
  also have "\<dots> \<longleftrightarrow> find (\<lambda>q. nh_infoHash q = ?h) reqs = Some r \<and> ?h \<in> set H \<and> send_of c E db r = Some (x, r)"
    using find_hash by (metis send)
  also have "\<dots> \<longleftrightarrow> find (\<lambda>q. nh_infoHash q = ?h) reqs = Some r \<and> triage_admits c E g m ?h \<and> send_of c E db r = Some (x, r)"
    using find_hash by (auto simp: H(2))
  finally have "(x, r) \<in> set sends \<longleftrightarrow> \<dots>" .
  moreover have "distinct (map (nh_infoHash \<circ> snd) sends)"
    unfolding H(3) by (rule distinct_map_filter_inj [OF H(1)])
      (auto simp: send_of_def Let_def split: option.splits if_splits dest: find_hash)
  ultimately show ?thesis by (simp add: send name route)
qed

subsection \<open>A batch with one hash for each gate\<close>

definition demo_hash :: "byte \<Rightarrow> ID" where "demo_hash b = replicate 20 b"

definition demo_req :: "byte \<Rightarrow> nodeHasPeersForHash" where
  "demo_req b = \<lparr>nh_infoHash = demo_hash b, nh_node = \<lparr>ap_addr = Addr4 [1, 2, 3, 4], ap_port = 6881\<rparr>\<rparr>"

definition demo_gate_env :: "(byte list set, byte list set) gate_env" where
  "demo_gate_env = \<lparr>ge_C = set_bloom, ge_sha256 = id, ge_B = set_bloom, ge_U = \<lparr>is_Han = \<lambda>_. False, is_Cyrillic = \<lambda>_. False\<rparr>,
     ge_now = Hour,
     ge_dbf = \<lparr>df_begin = False, df_query = False, df_open_read = False, df_read = False, df_create = False,
        df_open_write = False, df_write = False, df_save = False, df_commit = False\<rparr>,
     ge_fresh = 1, ge_buffer_order = \<lambda>_. [],
     ge_lf = \<lambda>_. \<lparr>lf_pool = False, lf_begin = False, lf_state = False, lf_event = False, lf_commit = False\<rparr>,
     ge_blocked_fails = False, ge_query_fails = False, ge_hash_order = id\<rparr>"

definition demo_gates :: "(byte list set, byte list set) gates" where
  "demo_gates = \<lparr>gt_csam = Live ((csam_NewService set_bloom [''feed''] 1000)\<lparr>cs_active := {demo_hash 1}, cs_lastGood := [''feed'' \<mapsto> [demo_hash 1]]\<rparr>),
     gt_blk = (\<lparr>bm_recovery = None, bm_buffer = {}, bm_filter = Some {demo_hash 2}, bm_maxBufferSize = 1000,
        bm_lastFlushedAt = Hour, bm_maxFlushWait = 5 * Minute\<rparr>, \<lparr>db_row = None, db_objs = Map.empty\<rparr>),
     gt_ledger = ledger_empty\<lparr>lg_state := [demo_hash 5 \<mapsto> (VerdictBlacklisted, ''operator'', None)]\<rparr>,
     gt_reader = \<lambda>_. 0, gt_denied = \<lambda>_. 0\<rparr>"

definition demo_catalogue :: catalogue where
  "demo_catalogue = \<lparr>ct_torrents = Map.empty, ct_files = [], ct_sources = Map.empty, ct_pieces = Map.empty, ct_jobs = []\<rparr>"

lemma demo_triage_setup:
  "bm_recovery (fst (gt_blk demo_gates)) = None" "\<not> ge_query_fails demo_gate_env" "hash_order_ok demo_gate_env"
  "blk_refresh demo_gate_env (gt_blk demo_gates) = (None, gt_blk demo_gates)"
  by (simp_all add: demo_gates_def demo_gate_env_def hash_order_ok_def blk_refresh_def shouldFlush_def)

lemma demo_hash_inject [simp]: "demo_hash a = demo_hash b \<longleftrightarrow> a = b"
  by (simp add: demo_hash_def)

lemma demo_admits:
  "triage_admits demo_crawler demo_gate_env demo_gates (fst (gt_blk demo_gates)) (demo_hash b) \<longleftrightarrow> b \<notin> {1, 2, 5}"
  by (auto simp: triage_admits_def demo_crawler_def demo_gate_env_def demo_gates_def ExcludesHash_def np_enabled_def csam_IsBlocked_def
      DoubleHash_def set_bloom_def blk_blocks_def ledger_blocks_def ledger_empty_def blockingVerdicts_def)

theorem triage_routes_exactly_witness:
  "(ToGetPeers, demo_req 4) \<in>
     set (fst (runInfoHashTriage_batch demo_crawler demo_gate_env 4 (map demo_req [1, 2, 5, 4]) demo_catalogue demo_gates))"
proof -
  let ?R = "runInfoHashTriage_batch demo_crawler demo_gate_env 4 (map demo_req [1, 2, 5, 4]) demo_catalogue demo_gates"
  have run: "?R = (fst ?R, snd ?R)" by simp
  have ref: "blk_refresh demo_gate_env (gt_blk demo_gates) = (None, fst (gt_blk demo_gates), snd (gt_blk demo_gates))"
    using demo_triage_setup(4) by simp
  have "find (\<lambda>q. nh_infoHash q = nh_infoHash (demo_req 4)) (map demo_req [1, 2, 5, 4]) = Some (demo_req 4)"
    by (simp add: demo_req_def)
  moreover have "nh_infoHash (demo_req 4) = demo_hash 4" by (simp add: demo_req_def)
  moreover have "foundTorrents [h] demo_catalogue h = None" for h by (simp add: foundTorrents_def demo_catalogue_def)
  ultimately show ?thesis
    using triage_routes_exactly [OF run demo_triage_setup(1) ref demo_triage_setup(2) _ demo_triage_setup(3), of ToGetPeers "demo_req 4"]
    by (simp add: demo_admits needs_meta_info_def)
qed

end
