(* ===== verification/MetainfoRequester.thy ===== *)
theory MetainfoRequester
  imports Metainfo
begin

text \<open>
  The BEP-9 metadata fetch over one TCP connection:
  \<open>protocol/metainfo/metainforequester/requester.go\<close>. A connection is the bytes the peer delivers
  before the stream ends, the error the stream then ends with, the bytes written so far, the
  number of further writes that succeed and the error of the write after them. The BitTorrent protocol string and the bencode coders
  are third-party and stand as parameters.
\<close>

section \<open>Errors and connections\<close>

text \<open>
  An error value as callers inspect it: its text, whether \<open>errors.Is\<close> finds the context sentinels
  in its chain, and whether \<open>errors.As\<close> finds a timeout or a \<open>net.OpError\<close>.
\<close>

record neterr =
  err_msg :: string
  err_deadline :: bool
  err_canceled :: bool
  err_timeout :: bool
  err_op :: bool

definition plain_err :: "string \<Rightarrow> neterr" where
  "plain_err s = \<lparr>err_msg = s, err_deadline = False, err_canceled = False, err_timeout = False,
     err_op = False\<rparr>"

definition wrap_err :: "string \<Rightarrow> neterr \<Rightarrow> string \<Rightarrow> neterr" where
  "wrap_err pre e post = e\<lparr>err_msg := pre @ err_msg e @ post\<rparr>"

datatype rfault = RPanic string | RErr neterr

type_synonym 'a rres = "rfault + 'a"

definition rbind :: "'a rres \<Rightarrow> ('a \<Rightarrow> 'b rres) \<Rightarrow> 'b rres" where
  "rbind m f = (case m of Inl e \<Rightarrow> Inl e | Inr x \<Rightarrow> f x)"

lemma rbind_simps [simp]: "rbind (Inl e) f = Inl e" "rbind (Inr x) f = f x"
  by (simp_all add: rbind_def)

definition no_panic :: "'a rres \<Rightarrow> bool" where
  "no_panic m = (case m of Inl (RPanic _) \<Rightarrow> False | _ \<Rightarrow> True)"

lemma no_panic_simps [simp]:
  "no_panic (Inr x)" "no_panic (Inl (RErr e))" "\<not> no_panic (Inl (RPanic s))"
  by (simp_all add: no_panic_def)

lemma no_panic_rbind:
  "no_panic m \<Longrightarrow> (\<And>x. m = Inr x \<Longrightarrow> no_panic (f x)) \<Longrightarrow> no_panic (rbind m f)"
  by (cases m) (auto simp: no_panic_def split: rfault.splits)

record conn =
  conn_in :: "byte list"
  conn_end :: neterr
  conn_out :: "byte list"
  conn_writes :: "nat option"
  conn_werr :: neterr

lemma conn_in_out [simp]: "c\<lparr>conn_in := x, conn_out := y\<rparr> = c\<lparr>conn_out := y, conn_in := x\<rparr>"
  by (cases c) simp

definition is_EOF :: "neterr \<Rightarrow> bool" where
  "is_EOF e \<longleftrightarrow> err_msg e = ''EOF''"

text \<open>\<open>conn.Write\<close> sends the whole slice or fails.\<close>

definition conn_Write :: "byte list \<Rightarrow> conn \<Rightarrow> (neterr + nat) \<times> conn" where
  "conn_Write b c =
     (case conn_writes c of
        Some 0 \<Rightarrow> (Inl (conn_werr c), c)
      | Some (Suc k) \<Rightarrow> (Inr (length b), c\<lparr>conn_out := conn_out c @ b, conn_writes := Some k\<rparr>)
      | None \<Rightarrow> (Inr (length b), c\<lparr>conn_out := conn_out c @ b\<rparr>))"

text \<open>\<open>io.ReadFull\<close>: on a short stream the stream's own error, or \<open>unexpected EOF\<close> after some bytes.\<close>

definition ReadFull :: "nat \<Rightarrow> conn \<Rightarrow> neterr + (byte list \<times> conn)" where
  "ReadFull n c =
     (if n \<le> length (conn_in c) then Inr (take n (conn_in c), c\<lparr>conn_in := drop n (conn_in c)\<rparr>)
      else if is_EOF (conn_end c) \<and> conn_in c \<noteq> [] then Inl (plain_err ''unexpected EOF'')
      else Inl (conn_end c))"

section \<open>Extension bits\<close>

definition ExtensionBitDht :: nat where "ExtensionBitDht = 0"
definition ExtensionBitLtep :: nat where "ExtensionBitLtep = 20"

text \<open>\<open>pex[7-bit/8]\<close> with an unsigned index: beyond bit 63 the subtraction wraps and the access panics.\<close>

definition WithBit :: "byte list \<Rightarrow> nat \<Rightarrow> bool \<Rightarrow> byte list rres" where
  "WithBit pex b on =
     (if b div 8 > 7 then Inl (RPanic ''index out of range'')
      else let i = 7 - b div 8; m = push_bit (b mod 8) 1 in
        Inr (pex[i := if on then pex ! i OR m else pex ! i AND NOT m]))"

definition pex_GetBit :: "byte list \<Rightarrow> nat \<Rightarrow> bool rres" where
  "pex_GetBit pex b =
     (if b div 8 > 7 then Inl (RPanic ''index out of range'')
      else Inr (pex ! (7 - b div 8) AND push_bit (b mod 8) 1 \<noteq> 0))"

fun set_bits_loop :: "nat list \<Rightarrow> byte list \<Rightarrow> byte list rres" where
  "set_bits_loop [] pex = Inr pex"
| "set_bits_loop (b # bs) pex = rbind (WithBit pex b True) (set_bits_loop bs)"

definition NewPeerExtensionBits :: "nat list \<Rightarrow> byte list rres" where
  "NewPeerExtensionBits bits = set_bits_loop bits (replicate 8 0)"

definition myExBits :: "byte list" where
  "myExBits = (case NewPeerExtensionBits [ExtensionBitDht, ExtensionBitLtep] of
                 Inr b \<Rightarrow> b | Inl _ \<Rightarrow> replicate 8 0)"

section \<open>Handshakes\<close>

record HandshakeInfo =
  hs_PeerID :: ID
  hs_Bits :: "byte list"

definition handshake_bytes :: "byte list \<Rightarrow> ID \<Rightarrow> ID \<Rightarrow> byte list" where
  "handshake_bytes proto infoHash clientID = proto @ myExBits @ infoHash @ clientID"

definition read_handshake :: "byte list \<Rightarrow> ID \<Rightarrow> conn \<Rightarrow> (HandshakeInfo \<times> conn) rres" where
  "read_handshake proto infoHash c =
     (case ReadFull 68 c of
        Inl e \<Rightarrow>
          Inl (RErr (wrap_err
            (''failed to read all handshake bytes ('' @ nat_str (length (conn_in c)) @ ''): '') e
            ('' / '' @ ID_String infoHash)))
      | Inr (r, c1) \<Rightarrow>
          if take (length proto) r \<noteq> proto
          then Inl (RErr (plain_err ''invalid handshake response received''))
          else
            let bits = take 8 (drop 20 r); resHash = take 20 (drop 28 r) in
            rbind (pex_GetBit bits ExtensionBitLtep) (\<lambda>ltep.
              if \<not> ltep then Inl (RErr (plain_err ''peer does not support the extension protocol''))
              else if resHash \<noteq> infoHash then Inl (RErr (plain_err ''infohash mismatch''))
              else Inr (\<lparr>hs_PeerID = take 20 (drop 48 r), hs_Bits = bits\<rparr>, c1)))"

definition btHandshake :: "byte list \<Rightarrow> ID \<Rightarrow> ID \<Rightarrow> conn \<Rightarrow> (HandshakeInfo \<times> conn) rres" where
  "btHandshake proto infoHash clientID c =
     (case conn_Write (handshake_bytes proto infoHash clientID) c of
        (Inl e, _) \<Rightarrow> Inl (RErr e)
      | (Inr n, c1) \<Rightarrow>
          if n \<noteq> 68 then Inl (RPanic ''handshake bytes must have length 68'')
          else read_handshake proto infoHash c1)"

section \<open>Messages\<close>

definition metadataPieceSize :: nat where "metadataPieceSize = 16 * 1024"
definition maxMetadataSize :: nat where "maxMetadataSize = 10 * 1024 * 1024"

definition be32 :: "byte list \<Rightarrow> nat" where
  "be32 bs = foldl (\<lambda>n b. n * 256 + unat b) 0 bs"

text \<open>\<open>binary.BigEndian.PutUint32(b, uint32(i))\<close>: the conversion keeps the low 32 bits.\<close>

definition uintToBigEndian4 :: "nat \<Rightarrow> byte list" where
  "uintToBigEndian4 i =
     map of_nat [i div 2 ^ 24 mod 256, i div 2 ^ 16 mod 256, i div 2 ^ 8 mod 256, i mod 256]"

definition readMessage :: "conn \<Rightarrow> (byte list \<times> conn) rres" where
  "readMessage c =
     (case ReadFull 4 c of
        Inl e \<Rightarrow> Inl (RErr e)
      | Inr (lb, c1) \<Rightarrow>
          if be32 lb > maxMetadataSize
          then Inl (RErr (plain_err ''message is longer than max allowed metadata size''))
          else (case ReadFull (be32 lb) c1 of
                  Inl e \<Rightarrow> Inl (RErr e)
                | Inr (m, c2) \<Rightarrow> Inr (m, c2)))"

lemma readMessage_consumes:
  "readMessage c = Inr (m, c') \<Longrightarrow> length (conn_in c') < length (conn_in c)"
  by (auto simp: readMessage_def ReadFull_def split: if_splits)

text \<open>\<open>byte(peer_protocol.Extended)\<close> is 20, as the source's comment states.\<close>

function readExMessage :: "conn \<Rightarrow> (byte list \<times> conn) rres" where
  "readExMessage c =
     (case readMessage c of
        Inl e \<Rightarrow> Inl e
      | Inr (m, c') \<Rightarrow>
          if length m < 2 then readExMessage c'
          else if m ! 0 = 20 then Inr (m, c')
          else readExMessage c')"
  by pat_completeness auto
termination
  by (relation "measure (\<lambda>c. length (conn_in c))") (auto dest: readMessage_consumes)

declare readExMessage.simps [simp del]

lemma readExMessage_ok:
  "readExMessage c = Inr (m, c') \<Longrightarrow>
     2 \<le> length m \<and> m ! 0 = 20 \<and> length (conn_in c') < length (conn_in c)"
proof (induction "length (conn_in c)" arbitrary: c rule: less_induct)
  case less
  from less.prems obtain x c1 where r: "readMessage c = Inr (x, c1)"
    by (subst (asm) readExMessage.simps) (auto split: sum.splits)
  note sh = readMessage_consumes [OF r]
  from less.prems r have
    "(m = x \<and> c' = c1 \<and> 2 \<le> length x \<and> x ! 0 = 20) \<or> readExMessage c1 = Inr (m, c')"
    by (subst (asm) readExMessage.simps) (auto split: if_splits)
  with sh less.hyps [OF sh] show ?case by auto
qed

function readUmMessage :: "conn \<Rightarrow> (byte list \<times> conn) rres" where
  "readUmMessage c =
     (case readExMessage c of
        Inl e \<Rightarrow> Inl e
      | Inr (m, c') \<Rightarrow> if m ! 1 = 1 then Inr (m, c') else readUmMessage c')"
  by pat_completeness auto
termination
  by (relation "measure (\<lambda>c. length (conn_in c))") (auto dest: readExMessage_ok)

declare readUmMessage.simps [simp del]

lemma readUmMessage_ok:
  "readUmMessage c = Inr (m, c') \<Longrightarrow>
     2 \<le> length m \<and> length (conn_in c') < length (conn_in c)"
proof (induction "length (conn_in c)" arbitrary: c rule: less_induct)
  case less
  from less.prems obtain x c1 where r: "readExMessage c = Inr (x, c1)"
    by (subst (asm) readUmMessage.simps) (auto split: sum.splits)
  note sh = readExMessage_ok [OF r]
  from less.prems r have "(m = x \<and> c' = c1) \<or> readUmMessage c1 = Inr (m, c')"
    by (subst (asm) readUmMessage.simps) (auto split: if_splits)
  with sh less.hyps [of c1] show ?case by auto
qed

text \<open>\<open>dec_root\<close> decodes the extension handshake to \<open>metadata_size\<close> and \<open>ut_metadata\<close>.\<close>

definition ext_handshake_bytes :: "byte list" where
  "ext_handshake_bytes = [0, 0, 0, 0x1a, 0x14, 0] @ bytes_of_string ''d1:md11:ut_metadatai1eee''"

definition exHandshake :: "(byte list \<Rightarrow> string + (int \<times> int)) \<Rightarrow> conn \<Rightarrow> ((nat \<times> byte) \<times> conn) rres" where
  "exHandshake dec_root c =
     (let (_, c1) = conn_Write ext_handshake_bytes c in
      rbind (readExMessage c1) (\<lambda>(m, c2).
        if m ! 1 \<noteq> 0
        then Inl (RErr (plain_err ''first extension message is not an extension handshake''))
        else case dec_root (drop 2 m) of
          Inl e \<Rightarrow> Inl (RErr (plain_err e))
        | Inr (sz, ut) \<Rightarrow>
            if 0 \<ge> sz \<or> sz \<ge> int maxMetadataSize
            then Inl (RErr (plain_err ''metadata too big or its size is less than or equal zero''))
            else if 0 \<ge> ut \<or> ut \<ge> 255
            then Inl (RErr (plain_err ''ut_metadata is not an uint8''))
            else Inr ((nat sz, of_int ut), c2)))"

section \<open>Pieces\<close>

definition metadataPieceCount :: "nat \<Rightarrow> nat" where
  "metadataPieceCount sz =
     (let n = sz div metadataPieceSize in if sz mod metadataPieceSize \<noteq> 0 then n + 1 else n)"

text \<open>\<open>enc_req\<close> is the bencoding of \<open>extDict{MsgType: 0, Piece: piece}\<close>.\<close>

definition piece_request :: "(nat \<Rightarrow> byte list) \<Rightarrow> byte \<Rightarrow> nat \<Rightarrow> byte list" where
  "piece_request enc_req ut piece =
     uintToBigEndian4 (2 + length (enc_req piece)) @ [0x14, ut] @ enc_req piece"

fun request_pieces :: "(nat \<Rightarrow> byte list) \<Rightarrow> byte \<Rightarrow> nat list \<Rightarrow> conn \<Rightarrow> (unit \<times> conn) rres" where
  "request_pieces enc_req ut [] c = Inr ((), c)"
| "request_pieces enc_req ut (p # ps) c =
     (case conn_Write (piece_request enc_req ut p) c of
        (Inl e, _) \<Rightarrow> Inl (RErr e)
      | (Inr _, c1) \<Rightarrow> request_pieces enc_req ut ps c1)"

definition requestAllPieces :: "(nat \<Rightarrow> byte list) \<Rightarrow> nat \<Rightarrow> byte \<Rightarrow> conn \<Rightarrow> (unit \<times> conn) rres" where
  "requestAllPieces enc_req sz ut c = request_pieces enc_req ut [0..<metadataPieceCount sz] c"

text \<open>
  \<open>dec_hdr\<close> decodes the header at the front of a message payload, with \<open>-1\<close> for a missing field,
  and returns the bytes left in the buffer.
\<close>

record metadataResponseHeader =
  MsgType :: int
  Piece :: int
  TotalSize :: int

record pieces_state =
  ps_bytes :: "byte list"
  ps_seen :: "bool list"
  ps_received :: nat

definition piece_start :: "nat \<Rightarrow> nat" where
  "piece_start p = p * metadataPieceSize"

definition piece_length :: "nat \<Rightarrow> nat \<Rightarrow> nat" where
  "piece_length sz p =
     (if p = metadataPieceCount sz - 1 then sz - piece_start p else metadataPieceSize)"

text \<open>One message: \<open>Inr\<close> of the new state (unchanged for a \<open>continue\<close>) or the returned error.\<close>

definition handle_data :: "nat \<Rightarrow> metadataResponseHeader \<Rightarrow> byte list \<Rightarrow> nat \<Rightarrow> pieces_state \<Rightarrow> pieces_state rres" where
  "handle_data sz h payload p s =
     (let start = piece_start p; len = piece_length sz p; bs = ps_bytes s in
      if TotalSize h \<noteq> int sz
      then Inl (RErr (plain_err (''ut_metadata total_size '' @ int_str (TotalSize h)
             @ '' does not match handshake size '' @ nat_str sz)))
      else if length payload \<noteq> len
      then Inl (RErr (plain_err (''ut_metadata piece '' @ nat_str p @ '' has length ''
             @ nat_str (length payload) @ '', expected '' @ nat_str len)))
      else if p \<ge> length (ps_seen s) \<or> start + len > length bs
      then Inl (RPanic ''index out of range'')
      else if ps_seen s ! p then
        (if take len (drop start bs) \<noteq> payload
         then Inl (RErr (plain_err (''ut_metadata piece '' @ nat_str p @ '' conflicts with an earlier copy'')))
         else Inr s)
      else Inr (s\<lparr>ps_bytes := take start bs @ go_copy (take len (drop start bs)) payload @ drop (start + len) bs,
                  ps_seen := (ps_seen s)[p := True],
                  ps_received := ps_received s + 1\<rparr>))"

definition handle_um ::
  "(byte list \<Rightarrow> string + (metadataResponseHeader \<times> byte list)) \<Rightarrow> nat \<Rightarrow> byte list \<Rightarrow> pieces_state \<Rightarrow> pieces_state rres" where
  "handle_um dec_hdr sz m s =
     (case dec_hdr (drop 2 m) of
        Inl e \<Rightarrow> Inl (RErr (plain_err (''decode ut_metadata header: '' @ e)))
      | Inr (h, payload) \<Rightarrow>
          if MsgType h < 0 then Inl (RErr (plain_err ''ut_metadata header is missing msg_type''))
          else if Piece h < 0 \<or> Piece h \<ge> int (metadataPieceCount sz)
          then Inl (RErr (plain_err (''ut_metadata piece index '' @ int_str (Piece h)
                  @ '' out of range [0,'' @ nat_str (metadataPieceCount sz) @ '')'')))
          else if MsgType h = 0 then
            (if payload \<noteq> [] then Inl (RErr (plain_err ''ut_metadata request contains trailing payload''))
             else Inr s)
          else if MsgType h = 1 then handle_data sz h payload (nat (Piece h)) s
          else if MsgType h = 2 then
            (if payload \<noteq> [] then Inl (RErr (plain_err ''ut_metadata reject contains trailing payload''))
             else Inl (RErr (plain_err (''remote peer rejected metadata piece '' @ int_str (Piece h)))))
          else Inl (RErr (plain_err (''unknown ut_metadata msg_type '' @ int_str (MsgType h)))))"

function pieces_loop ::
  "(byte list \<Rightarrow> string + (metadataResponseHeader \<times> byte list)) \<Rightarrow> nat \<Rightarrow> pieces_state \<Rightarrow> conn \<Rightarrow> (byte list \<times> conn) rres" where
  "pieces_loop dec_hdr sz s c =
     (if ps_received s < metadataPieceCount sz then
        (case readUmMessage c of
           Inl e \<Rightarrow> Inl e
         | Inr (m, c') \<Rightarrow>
             (case handle_um dec_hdr sz m s of
                Inl e \<Rightarrow> Inl e
              | Inr s' \<Rightarrow> pieces_loop dec_hdr sz s' c'))
      else Inr (ps_bytes s, c))"
  by pat_completeness auto
termination
  by (relation "measure (\<lambda>(_, _, _, c). length (conn_in c))") (auto dest: readUmMessage_ok)

declare pieces_loop.simps [simp del]

definition pieces_init :: "nat \<Rightarrow> pieces_state" where
  "pieces_init sz =
     \<lparr>ps_bytes = replicate sz 0, ps_seen = replicate (metadataPieceCount sz) False, ps_received = 0\<rparr>"

definition readAllPieces ::
  "(byte list \<Rightarrow> string + (metadataResponseHeader \<times> byte list)) \<Rightarrow> nat \<Rightarrow> conn \<Rightarrow> (byte list \<times> conn) rres" where
  "readAllPieces dec_hdr sz c =
     (if sz = 0 \<or> sz \<ge> maxMetadataSize then Inl (RErr (plain_err (''invalid metadata size: '' @ nat_str sz)))
      else pieces_loop dec_hdr sz (pieces_init sz) c)"

section \<open>The whole request\<close>

text \<open>The third-party coders a request uses.\<close>

record coders =
  proto :: "byte list"
  dec_root :: "byte list \<Rightarrow> string + (int \<times> int)"
  enc_req :: "nat \<Rightarrow> byte list"
  dec_hdr :: "byte list \<Rightarrow> string + (metadataResponseHeader \<times> byte list)"
  HashBytes :: "byte list \<Rightarrow> ID"
  unmarshal_info :: "byte list \<Rightarrow> string + Info"

record Response =
  resp_hs :: HandshakeInfo
  resp_Info :: Info

fun parse_err_Error :: "parse_err \<Rightarrow> string" where
  "parse_err_Error PTooLarge = verr_Error ErrMetaInfoTooLarge"
| "parse_err_Error PWrongHash = ''info bytes have wrong hash''"
| "parse_err_Error (PUnmarshal e) = ''error unmarshaling info bytes: '' @ e"
| "parse_err_Error (PInvalid e) = verr_Error e"

text \<open>\<open>dial\<close> is the outcome of \<open>connect\<close>: the established connection or its error.\<close>

definition requester_Request :: "coders \<Rightarrow> ID \<Rightarrow> neterr + conn \<Rightarrow> ID \<Rightarrow> Response rres" where
  "requester_Request k clientID dial infoHash =
     (case dial of
        Inl e \<Rightarrow> Inl (RErr e)
      | Inr c0 \<Rightarrow>
          rbind (btHandshake (proto k) infoHash clientID c0) (\<lambda>(hs, c1).
          rbind (exHandshake (dec_root k) c1) (\<lambda>((sz, ut), c2).
          rbind (requestAllPieces (enc_req k) sz ut c2) (\<lambda>(_, c3).
          rbind (readAllPieces (dec_hdr k) sz c3) (\<lambda>(pieces, c4).
          case ParseMetaInfoBytes (HashBytes k) (unmarshal_info k) infoHash pieces of
            Inl e \<Rightarrow> Inl (RErr (plain_err (parse_err_Error e)))
          | Inr info \<Rightarrow> Inr \<lparr>resp_hs = hs, resp_Info = info\<rparr>)))))"

section \<open>Piece arithmetic\<close>

lemma piece_count_bound:
  assumes "p < metadataPieceCount sz"
  shows "piece_start p + piece_length sz p \<le> sz" and "p * metadataPieceSize < sz"
proof -
  define P where "P = metadataPieceSize"
  have P: "0 < P" by (simp add: P_def metadataPieceSize_def)
  define q where "q = sz div P"
  have sz: "sz = q * P + sz mod P" by (simp add: q_def)
  have n: "metadataPieceCount sz = (if sz mod P \<noteq> 0 then q + 1 else q)"
    by (simp add: metadataPieceCount_def Let_def q_def P_def)
  have *: "p * P < sz \<and> (p \<noteq> metadataPieceCount sz - 1 \<longrightarrow> p * P + P \<le> sz)"
  proof (cases "p < q")
    case True
    then have "(p + 1) * P \<le> q * P" by (intro mult_le_mono1) simp
    with sz P show ?thesis by simp
  next
    case False
    with assms n have "p = q" "sz mod P \<noteq> 0" by (auto split: if_splits)
    with sz n show ?thesis by simp
  qed
  then show "p * metadataPieceSize < sz" by (simp add: P_def)
  from * show "piece_start p + piece_length sz p \<le> sz"
    by (auto simp: piece_start_def piece_length_def P_def)
qed

lemma piece_of_index:
  assumes "i < sz"
  shows "i div metadataPieceSize < metadataPieceCount sz"
    and "p < metadataPieceCount sz \<Longrightarrow>
      i div metadataPieceSize = p \<longleftrightarrow> piece_start p \<le> i \<and> i < piece_start p + piece_length sz p"
proof -
  define P where "P = metadataPieceSize"
  have P: "0 < P" by (simp add: P_def metadataPieceSize_def)
  define q where "q = sz div P"
  have sz: "sz = q * P + sz mod P" by (simp add: q_def)
  have n: "metadataPieceCount sz = (if sz mod P \<noteq> 0 then q + 1 else q)"
    by (simp add: metadataPieceCount_def Let_def q_def P_def)
  show "i div metadataPieceSize < metadataPieceCount sz"
  proof (cases "sz mod P = 0")
    case True
    with sz assms have "i < q * P" by simp
    with P n True show ?thesis by (simp add: less_mult_imp_div_less P_def)
  next
    case False
    have "i div P \<le> q" using assms by (simp add: q_def div_le_mono)
    with n False show ?thesis by (simp add: P_def)
  qed
  assume p: "p < metadataPieceCount sz"
  have "i div P = p \<longleftrightarrow> p * P \<le> i \<and> i < p * P + P"
  proof
    assume "i div P = p"
    with P show "p * P \<le> i \<and> i < p * P + P"
      by (metis div_times_less_eq_dividend dividend_less_div_times add.commute)
  next
    assume "p * P \<le> i \<and> i < p * P + P"
    then show "i div P = p" by (intro div_nat_eqI) (simp_all add: algebra_simps)
  qed
  moreover have "i < p * P + P" if "p = metadataPieceCount sz - 1"
  proof (cases "sz mod P = 0")
    case True
    with n p that have "q = p + 1" by simp
    with sz True assms show ?thesis by simp
  next
    case False
    with n that have "p = q" by simp
    moreover have "sz mod P < P" using P by simp
    ultimately have "sz < p * P + P" using sz by (metis add_less_cancel_left)
    with assms show ?thesis by simp
  qed
  moreover have "p * P < sz" using piece_count_bound(2) [OF p] by (simp add: P_def)
  ultimately show "i div metadataPieceSize = p \<longleftrightarrow> piece_start p \<le> i \<and> i < piece_start p + piece_length sz p"
    using assms by (auto simp: piece_start_def piece_length_def P_def [symmetric])
qed

section \<open>Safety of the piece reader\<close>

definition ps_wf :: "nat \<Rightarrow> pieces_state \<Rightarrow> bool" where
  "ps_wf sz s \<longleftrightarrow> length (ps_bytes s) = sz \<and> length (ps_seen s) = metadataPieceCount sz"

lemma pieces_init_wf: "ps_wf sz (pieces_init sz)"
  by (simp add: ps_wf_def pieces_init_def)

lemma handle_data_safe:
  assumes "ps_wf sz s" and "p < metadataPieceCount sz"
  shows "no_panic (handle_data sz h payload p s)"
    and "handle_data sz h payload p s = Inr s' \<Longrightarrow> ps_wf sz s'"
  using assms piece_count_bound(1) [OF assms(2)]
  by (auto simp: handle_data_def Let_def ps_wf_def split: if_splits)

lemma handle_um_safe:
  assumes "ps_wf sz s"
  shows "no_panic (handle_um dec sz m s)"
    and "handle_um dec sz m s = Inr s' \<Longrightarrow> ps_wf sz s'"
proof -
  have p: "nat (Piece h) < metadataPieceCount sz"
    if "\<not> Piece h < 0" "\<not> int (metadataPieceCount sz) \<le> Piece h" for h using that by linarith
  show "no_panic (handle_um dec sz m s)"
    using handle_data_safe(1) [OF assms p] by (auto simp: handle_um_def split: sum.splits)
  show "ps_wf sz s'" if "handle_um dec sz m s = Inr s'"
    using that assms handle_data_safe(2) [OF assms p]
    by (auto simp: handle_um_def split: sum.splits if_splits)
qed

lemma readMessage_no_panic: "no_panic (readMessage c)"
  by (auto simp: readMessage_def split: sum.splits)

lemma readExMessage_no_panic: "no_panic (readExMessage c)"
proof (induction "length (conn_in c)" arbitrary: c rule: less_induct)
  case less
  show ?case
  proof (cases "readMessage c")
    case (Inl e)
    with readMessage_no_panic [of c] show ?thesis
      by (subst readExMessage.simps) (simp add: no_panic_def)
  next
    case (Inr r)
    obtain m c1 where r: "readMessage c = Inr (m, c1)" using Inr by (cases r) auto
    from r less.hyps [OF readMessage_consumes [OF r]] show ?thesis
      by (subst readExMessage.simps) simp
  qed
qed

lemma readUmMessage_no_panic: "no_panic (readUmMessage c)"
proof (induction "length (conn_in c)" arbitrary: c rule: less_induct)
  case less
  show ?case
  proof (cases "readExMessage c")
    case (Inl e)
    with readExMessage_no_panic [of c] show ?thesis
      by (subst readUmMessage.simps) (simp add: no_panic_def)
  next
    case (Inr r)
    obtain m c1 where r: "readExMessage c = Inr (m, c1)" using Inr by (cases r) auto
    from readExMessage_ok [OF r] have "length (conn_in c1) < length (conn_in c)" by simp
    from r less.hyps [OF this] show ?thesis
      by (subst readUmMessage.simps) simp
  qed
qed

lemma pieces_loop_safe:
  "ps_wf sz s \<Longrightarrow> no_panic (pieces_loop dec sz s c) \<and>
     (\<forall>bs c'. pieces_loop dec sz s c = Inr (bs, c') \<longrightarrow> length bs = sz)"
proof (induction "length (conn_in c)" arbitrary: s c rule: less_induct)
  case less
  show ?case
  proof (cases "ps_received s < metadataPieceCount sz")
    case False
    with less.prems show ?thesis by (simp add: pieces_loop.simps ps_wf_def)
  next
    case True
    note step = pieces_loop.simps [of dec sz s c]
    show ?thesis
    proof (cases "readUmMessage c")
      case (Inl e)
      with True step readUmMessage_no_panic [of c] show ?thesis by (simp add: no_panic_def)
    next
      case (Inr r)
      obtain m c1 where r: "r = (m, c1)" by (cases r)
      with Inr have um: "readUmMessage c = Inr (m, c1)" by simp
      show ?thesis
      proof (cases "handle_um dec sz m s")
        case (Inl e)
        with True step um handle_um_safe(1) [OF less.prems, of dec m] show ?thesis
          by (simp add: no_panic_def)
      next
        case (Inr s1)
        with True step um have "pieces_loop dec sz s c = pieces_loop dec sz s1 c1" by simp
        with less.hyps [of c1 s1] readUmMessage_ok [OF um] handle_um_safe(2) [OF less.prems Inr]
        show ?thesis by simp
      qed
    qed
  qed
qed

lemma readAllPieces_safe:
  "no_panic (readAllPieces dec sz c)"
  "readAllPieces dec sz c = Inr (bs, c') \<Longrightarrow> length bs = sz \<and> 0 < sz \<and> sz < maxMetadataSize"
  using pieces_loop_safe [OF pieces_init_wf, of dec sz c]
  by (auto simp: readAllPieces_def split: if_splits)

lemma exHandshake_no_panic: "no_panic (exHandshake dec c)"
proof -
  obtain w c1 where w: "conn_Write ext_handshake_bytes c = (w, c1)" by (cases "conn_Write ext_handshake_bytes c")
  show ?thesis
    unfolding exHandshake_def w Let_def prod.case
    by (rule no_panic_rbind) (auto simp: readExMessage_no_panic split: prod.splits sum.splits)
qed

lemma request_pieces_no_panic: "no_panic (request_pieces enc ut ps c)"
  by (induction ps arbitrary: c) (auto split: prod.splits sum.splits)

lemma read_handshake_no_panic: "no_panic (read_handshake pr h c)"
proof (cases "ReadFull 68 c")
  case (Inr r)
  then show ?thesis
    by (auto simp: read_handshake_def Let_def pex_GetBit_def ExtensionBitLtep_def split: prod.splits)
qed (simp add: read_handshake_def)

lemma length_myExBits [simp]: "length myExBits = 8"
  by (simp add: myExBits_def NewPeerExtensionBits_def WithBit_def ExtensionBitDht_def
      ExtensionBitLtep_def Let_def)

lemma conn_Write_length: "conn_Write b c = (Inr n, c') \<Longrightarrow> n = length b"
  by (auto simp: conn_Write_def split: option.splits nat.splits)

lemma btHandshake_no_panic:
  assumes "length pr = 20" "wf_ID h" "wf_ID cid"
  shows "no_panic (btHandshake pr h cid c)"
proof -
  have "length (handshake_bytes pr h cid) = 68"
    using assms by (simp add: handshake_bytes_def wf_ID_def)
  then show ?thesis
    by (auto simp: btHandshake_def read_handshake_no_panic split: prod.splits sum.splits
        dest: conn_Write_length)
qed

lemma requester_Request_sound:
  assumes "requester_Request k cid dial h = Inr r"
  obtains pieces where "length pieces < maxMetadataSize" and "HashBytes k pieces = h"
    and "unmarshal_info k pieces = Inr (resp_Info r)" and "validateInfo (resp_Info r) = None"
proof -
  from assms obtain hs c1 sz ut c2 c3 pieces c4
    where read: "readAllPieces (dec_hdr k) sz c3 = Inr (pieces, c4)"
      and parse: "ParseMetaInfoBytes (HashBytes k) (unmarshal_info k) h pieces = Inr (resp_Info r)"
    by (auto simp: requester_Request_def rbind_def split: sum.splits prod.splits)
  show thesis
    using readAllPieces_safe(2) [OF read] parse by (intro that) (auto simp: ParseMetaInfoBytes_ok)
qed

lemma requester_Request_no_panic:
  assumes "length (proto k) = 20" "wf_ID h" "wf_ID cid"
  shows "no_panic (requester_Request k cid dial h)"
proof (cases dial)
  case (Inr c0)
  show ?thesis
    unfolding requester_Request_def Inr sum.case
    by (intro no_panic_rbind; clarsimp simp: btHandshake_no_panic [OF assms] exHandshake_no_panic
        requestAllPieces_def request_pieces_no_panic readAllPieces_safe(1) split: sum.splits)
      (intro no_panic_rbind; clarsimp simp: exHandshake_no_panic
        requestAllPieces_def request_pieces_no_panic readAllPieces_safe(1) split: sum.splits)+
qed (simp add: requester_Request_def)

section \<open>An honest peer is read back exactly\<close>

lemma be32_uintToBigEndian4: "n < 2 ^ 32 \<Longrightarrow> be32 (uintToBigEndian4 n) = n"
proof -
  assume n: "n < 2 ^ 32"
  have byte: "unat (of_nat (m mod 256) :: byte) = m mod 256" for m
    by (simp add: unat_of_nat take_bit_eq_mod)
  have top: "n div 2 ^ 24 mod 256 = n div 2 ^ 24" using n by (simp add: div_less_iff_less_mult)
  have "n div 2 ^ 16 = n div 2 ^ 24 * 256 + n div 2 ^ 16 mod 256"
    using div_mult_mod_eq [of "n div 2 ^ 16" 256] by (simp add: div_mult2_eq [symmetric])
  moreover have "n div 2 ^ 8 = n div 2 ^ 16 * 256 + n div 2 ^ 8 mod 256"
    using div_mult_mod_eq [of "n div 2 ^ 8" 256] by (simp add: div_mult2_eq [symmetric])
  moreover have "n = n div 2 ^ 8 * 256 + n mod 256" by simp
  ultimately show ?thesis
    unfolding be32_def uintToBigEndian4_def list.map foldl.simps byte unfolding top
    by (metis add_0 mult_zero_left)
qed

text \<open>A length-prefixed message on the wire.\<close>

definition frame :: "byte list \<Rightarrow> byte list" where
  "frame m = uintToBigEndian4 (length m) @ m"

lemma length_uintToBigEndian4 [simp]: "length (uintToBigEndian4 n) = 4"
  by (simp add: uintToBigEndian4_def)

lemma readMessage_frame:
  assumes "length m \<le> maxMetadataSize"
  shows "readMessage (c\<lparr>conn_in := frame m @ rest\<rparr>) = Inr (m, c\<lparr>conn_in := rest\<rparr>)"
proof -
  have "length m < 2 ^ 32" using assms by (simp add: maxMetadataSize_def)
  with assms show ?thesis
    by (simp add: readMessage_def ReadFull_def frame_def be32_uintToBigEndian4)
qed

lemma readUmMessage_frame:
  assumes "length m + 2 \<le> maxMetadataSize"
  shows "readUmMessage (c\<lparr>conn_in := frame (20 # 1 # m) @ rest\<rparr>) = Inr (20 # 1 # m, c\<lparr>conn_in := rest\<rparr>)"
proof -
  have "readMessage (c\<lparr>conn_in := frame (20 # 1 # m) @ rest\<rparr>) = Inr (20 # 1 # m, c\<lparr>conn_in := rest\<rparr>)"
    by (rule readMessage_frame) (use assms in simp)
  then show ?thesis by (simp add: readUmMessage.simps readExMessage.simps)
qed

text \<open>Piece \<open>p\<close> of the metadata, and the data message that carries it.\<close>

definition md_piece :: "byte list \<Rightarrow> nat \<Rightarrow> byte list" where
  "md_piece md p = take (piece_length (length md) p) (drop (piece_start p) md)"

definition data_msg :: "(nat \<Rightarrow> byte list) \<Rightarrow> byte list \<Rightarrow> nat \<Rightarrow> byte list" where
  "data_msg enc_hdr md p = frame (20 # 1 # enc_hdr p @ md_piece md p)"

lemma length_md_piece:
  "p < metadataPieceCount (length md) \<Longrightarrow> length (md_piece md p) = piece_length (length md) p"
  using piece_count_bound(1) [of p "length md"] by (simp add: md_piece_def)

text \<open>The reader's state agrees with the metadata on the pieces it has seen.\<close>

definition ps_good :: "byte list \<Rightarrow> pieces_state \<Rightarrow> bool" where
  "ps_good md s \<longleftrightarrow> ps_wf (length md) s \<and>
     ps_received s = card {p. p < metadataPieceCount (length md) \<and> ps_seen s ! p} \<and>
     (\<forall>i < length md. ps_seen s ! (i div metadataPieceSize) \<longrightarrow> ps_bytes s ! i = md ! i)"

definition seen_set :: "byte list \<Rightarrow> pieces_state \<Rightarrow> nat set" where
  "seen_set md s = {p. p < metadataPieceCount (length md) \<and> ps_seen s ! p}"

lemma pieces_init_good: "ps_good md (pieces_init (length md))"
proof -
  have "{p. p < n \<and> replicate n False ! p} = {}" for n by auto
  then show ?thesis
    using piece_of_index(1) [of _ "length md"]
    by (auto simp: ps_good_def pieces_init_wf) (simp_all add: pieces_init_def)
qed

lemma overwrite_nth:
  assumes "st + length pl \<le> length bs" "i < length bs"
  shows "(take st bs @ pl @ drop (st + length pl) bs) ! i =
     (if st \<le> i \<and> i < st + length pl then pl ! (i - st) else bs ! i)"
  using assms by (auto simp: nth_append min_def)

lemma handle_data_good:
  assumes good: "ps_good md s" and p: "p < metadataPieceCount (length md)"
    and h: "TotalSize h = int (length md)"
  obtains s' where "handle_data (length md) h (md_piece md p) p s = Inr s'" "ps_good md s'"
    "seen_set md s' = insert p (seen_set md s)"
proof -
  let ?sz = "length md" and ?pl = "md_piece md p"
  let ?st = "piece_start p" and ?len = "piece_length (length md) p"
  have wf: "length (ps_bytes s) = ?sz" "length (ps_seen s) = metadataPieceCount ?sz"
    using good by (auto simp: ps_good_def ps_wf_def)
  note bound = piece_count_bound(1) [OF p] and len = length_md_piece [OF p]
  have idx: "i div metadataPieceSize = p \<longleftrightarrow> ?st \<le> i \<and> i < ?st + ?len" if "i < ?sz" for i
    using piece_of_index(2) [OF that p] .
  show thesis
  proof (cases "ps_seen s ! p")
    case True
    have "take ?len (drop ?st (ps_bytes s)) = ?pl"
    proof (rule nth_equalityI)
      fix j assume "j < length (take ?len (drop ?st (ps_bytes s)))"
      then have j: "j < ?len" by simp
      then have "?st + j < ?sz" using bound by simp
      moreover from this j idx [of "?st + j"] have "(?st + j) div metadataPieceSize = p" by simp
      ultimately have "ps_bytes s ! (?st + j) = md ! (?st + j)"
        using good True by (simp add: ps_good_def)
      then show "take ?len (drop ?st (ps_bytes s)) ! j = ?pl ! j"
        using j bound wf(1) by (simp add: md_piece_def)
    qed (use bound wf len in simp)
    with True p wf bound len h have "handle_data ?sz h ?pl p s = Inr s"
      by (simp add: handle_data_def Let_def)
    moreover have "seen_set md s = insert p (seen_set md s)" using True p by (auto simp: seen_set_def)
    ultimately show thesis using that good by blast
  next
    case False
    let ?bs = "take ?st (ps_bytes s) @ ?pl @ drop (?st + ?len) (ps_bytes s)"
    let ?s' = "s\<lparr>ps_bytes := ?bs, ps_seen := (ps_seen s)[p := True], ps_received := ps_received s + 1\<rparr>"
    have "handle_data ?sz h ?pl p s = Inr ?s'"
      using False p wf bound len h by (simp add: handle_data_def Let_def go_copy_full)
    moreover have seen: "seen_set md ?s' = insert p (seen_set md s)"
      using p wf by (auto simp: seen_set_def nth_list_update)
    moreover have "ps_good md ?s'"
    proof -
      have "finite (seen_set md s)" "p \<notin> seen_set md s" using False by (simp_all add: seen_set_def)
      then have "card (seen_set md ?s') = Suc (card (seen_set md s))" unfolding seen by simp
      moreover have "?bs ! i = md ! i" if i: "i < ?sz" "(ps_seen s)[p := True] ! (i div metadataPieceSize)" for i
      proof (cases "i div metadataPieceSize = p")
        case True
        with idx [OF i(1)] have j: "?st \<le> i" "i < ?st + ?len" by simp_all
        have "?bs ! i = ?pl ! (i - ?st)"
          using overwrite_nth [of ?st ?pl "ps_bytes s" i] bound len wf(1) i(1) j by simp
        also have "\<dots> = md ! i" using j bound by (simp add: md_piece_def)
        finally show ?thesis .
      next
        case ne: False
        with idx [OF i(1)] have "\<not> (?st \<le> i \<and> i < ?st + ?len)" by simp
        then have "?bs ! i = ps_bytes s ! i"
          using overwrite_nth [of ?st ?pl "ps_bytes s" i] bound len wf(1) i(1) by auto
        also have "\<dots> = md ! i" using good i ne by (simp add: ps_good_def)
        finally show ?thesis .
      qed
      ultimately show ?thesis
        using good wf bound len by (simp add: ps_good_def ps_wf_def seen_set_def)
    qed
    ultimately show thesis using that by blast
  qed
qed

lemma all_seen_complete:
  assumes good: "ps_good md s" and all: "\<not> ps_received s < metadataPieceCount (length md)"
  shows "ps_bytes s = md"
proof (rule nth_equalityI)
  let ?n = "metadataPieceCount (length md)"
  have sub: "seen_set md s \<subseteq> {..<?n}" by (auto simp: seen_set_def)
  moreover have "card {..<?n} \<le> card (seen_set md s)"
    using good all by (simp add: ps_good_def seen_set_def)
  ultimately have seen: "seen_set md s = {..<?n}" by (intro card_seteq) auto
  fix i assume "i < length (ps_bytes s)"
  then have i: "i < length md" using good by (simp add: ps_good_def ps_wf_def)
  have "i div metadataPieceSize \<in> seen_set md s" using seen piece_of_index(1) [OF i] by simp
  then show "ps_bytes s ! i = md ! i" using good i by (simp add: ps_good_def seen_set_def)
qed (use good in \<open>simp add: ps_good_def ps_wf_def\<close>)

lemma pieces_loop_honest:
  assumes hdr: "\<And>p. p < metadataPieceCount (length md) \<Longrightarrow>
      length (enc_hdr p) \<le> 1024 \<and>
      dec (enc_hdr p @ md_piece md p) = Inr (\<lparr>MsgType = 1, Piece = int p, TotalSize = int (length md)\<rparr>, md_piece md p)"
    and md: "length md < maxMetadataSize"
  shows "ps_good md s \<Longrightarrow> set order \<subseteq> {..<metadataPieceCount (length md)} \<Longrightarrow>
     {..<metadataPieceCount (length md)} \<subseteq> seen_set md s \<union> set order \<Longrightarrow>
     \<exists>c'. pieces_loop dec (length md) s (c\<lparr>conn_in := concat (map (data_msg enc_hdr md) order) @ rest\<rparr>)
           = Inr (md, c')"
proof (induction order arbitrary: s)
  case Nil
  then have "seen_set md s = {..<metadataPieceCount (length md)}" by (auto simp: seen_set_def)
  then have "\<not> ps_received s < metadataPieceCount (length md)"
    using Nil(1) by (simp add: ps_good_def seen_set_def [symmetric])
  with all_seen_complete [OF Nil(1)] show ?case by (simp add: pieces_loop.simps)
next
  case (Cons p order)
  let ?n = "metadataPieceCount (length md)"
  show ?case
  proof (cases "ps_received s < ?n")
    case False
    with all_seen_complete [OF Cons(2)] show ?thesis by (simp add: pieces_loop.simps)
  next
    case True
    let ?m = "20 # 1 # enc_hdr p @ md_piece md p"
    let ?rest = "concat (map (data_msg enc_hdr md) order) @ rest"
    have p: "p < ?n" using Cons(3) by simp
    have "length (md_piece md p) \<le> metadataPieceSize"
    proof -
      have "piece_length (length md) p \<le> metadataPieceSize"
      proof (rule ccontr)
        assume big: "\<not> ?thesis"
        let ?i = "piece_start p + metadataPieceSize"
        have "?i < length md" using big piece_count_bound(1) [OF p] by simp
        moreover from this big have "?i div metadataPieceSize = p" using piece_of_index(2) [of ?i "length md" p] p by simp
        ultimately show False by (simp add: piece_start_def metadataPieceSize_def)
      qed
      then show ?thesis by (simp add: length_md_piece [OF p])
    qed
    then have "length (enc_hdr p @ md_piece md p) + 2 \<le> maxMetadataSize"
      using hdr [OF p] by (simp add: metadataPieceSize_def maxMetadataSize_def)
    then have um: "readUmMessage (c\<lparr>conn_in := concat (map (data_msg enc_hdr md) (p # order)) @ rest\<rparr>)
        = Inr (?m, c\<lparr>conn_in := ?rest\<rparr>)"
      using readUmMessage_frame [where m = "enc_hdr p @ md_piece md p" and c = c and rest = ?rest] by (simp add: data_msg_def)
    let ?h = "\<lparr>MsgType = 1, Piece = int p, TotalSize = int (length md)\<rparr>"
    obtain s' where s': "handle_data (length md) ?h (md_piece md p) p s = Inr s'" "ps_good md s'"
      "seen_set md s' = insert p (seen_set md s)"
      using handle_data_good [OF Cons(2) p, of ?h] by auto
    have "handle_um dec (length md) ?m s = Inr s'"
      using hdr [OF p] p s'(1) by (simp add: handle_um_def)
    with True um have "pieces_loop dec (length md) s
        (c\<lparr>conn_in := concat (map (data_msg enc_hdr md) (p # order)) @ rest\<rparr>)
      = pieces_loop dec (length md) s' (c\<lparr>conn_in := ?rest\<rparr>)"
      by (subst pieces_loop.simps) simp
    with Cons.IH [OF s'(2)] Cons(3,4) s'(3) show ?thesis by auto
  qed
qed

definition honest_stream :: "coders \<Rightarrow> byte list \<Rightarrow> ID \<Rightarrow> ID \<Rightarrow> byte list \<Rightarrow> (nat \<Rightarrow> byte list) \<Rightarrow> byte list \<Rightarrow> nat list \<Rightarrow> byte list" where
  "honest_stream k bits h pid root hdr md order =
     proto k @ bits @ h @ pid @ frame (20 # 0 # root) @ concat (map (data_msg hdr md) order)"

lemma conn_Write_unlimited:
  "conn_writes c = None \<Longrightarrow> conn_Write b c = (Inr (length b), c\<lparr>conn_out := conn_out c @ b\<rparr>)"
  by (simp add: conn_Write_def)

lemma request_pieces_unlimited:
  "conn_writes c = None \<Longrightarrow>
     \<exists>out. request_pieces enc ut ps c = Inr ((), c\<lparr>conn_out := out\<rparr>)"
proof (induction ps arbitrary: c)
  case Nil
  then show ?case by (intro exI [of _ "conn_out c"]) simp
next
  case (Cons p ps)
  then show ?case
    using Cons.IH [of "c\<lparr>conn_out := conn_out c @ piece_request enc ut p\<rparr>"]
    by (simp add: conn_Write_unlimited)
qed

lemma readExMessage_frame:
  assumes "length m + 2 \<le> maxMetadataSize"
  shows "readExMessage (c\<lparr>conn_in := frame (20 # x # m) @ rest\<rparr>) = Inr (20 # x # m, c\<lparr>conn_in := rest\<rparr>)"
proof -
  have "readMessage (c\<lparr>conn_in := frame (20 # x # m) @ rest\<rparr>) = Inr (20 # x # m, c\<lparr>conn_in := rest\<rparr>)"
    by (rule readMessage_frame) (use assms in simp)
  then show ?thesis by (simp add: readExMessage.simps)
qed

lemma btHandshake_honest:
  assumes "length pr = 20" "wf_ID h" "wf_ID cid" "wf_ID pid" "length bits = 8"
    and "pex_GetBit bits ExtensionBitLtep = Inr True" and "conn_writes c = None"
    and "conn_in c = pr @ bits @ h @ pid @ rest"
  shows "btHandshake pr h cid c = Inr (\<lparr>hs_PeerID = pid, hs_Bits = bits\<rparr>,
     c\<lparr>conn_out := conn_out c @ handshake_bytes pr h cid, conn_in := rest\<rparr>)"
  using assms
  by (simp add: btHandshake_def conn_Write_unlimited handshake_bytes_def wf_ID_def read_handshake_def
      ReadFull_def Let_def)

text \<open>
  A peer that answers: its handshake carries the extension bit and the hash, its extension handshake the
  size of the metadata, and every piece comes at least once.
\<close>

definition honest_peer :: "coders \<Rightarrow> ID \<Rightarrow> ID \<Rightarrow> byte list \<Rightarrow> byte list \<Rightarrow> conn \<Rightarrow> bool" where
  "honest_peer k h pid bits md c \<longleftrightarrow>
     wf_ID pid \<and> length bits = 8 \<and> pex_GetBit bits ExtensionBitLtep = Inr True \<and>
     0 < length md \<and> length md < maxMetadataSize \<and> conn_writes c = None \<and>
     (\<exists>root ut hdr order rest.
        length root \<le> 1024 \<and> dec_root k root = Inr (int (length md), ut) \<and> 0 < ut \<and> ut < 255 \<and>
        (\<forall>p < metadataPieceCount (length md). length (hdr p) \<le> 1024 \<and>
           dec_hdr k (hdr p @ md_piece md p)
             = Inr (\<lparr>MsgType = 1, Piece = int p, TotalSize = int (length md)\<rparr>, md_piece md p)) \<and>
        set order = {..<metadataPieceCount (length md)} \<and>
        conn_in c = honest_stream k bits h pid root hdr md order @ rest)"

lemma honest_peerI:
  assumes "wf_ID pid" "length bits = 8" "pex_GetBit bits ExtensionBitLtep = Inr True" "0 < length md" "length md < maxMetadataSize"
    and "length root \<le> 1024" "dec_root k root = Inr (int (length md), ut)" "0 < ut" "ut < 255"
    and "\<forall>p < metadataPieceCount (length md). length (hdr p) \<le> 1024 \<and>
      dec_hdr k (hdr p @ md_piece md p) = Inr (\<lparr>MsgType = 1, Piece = int p, TotalSize = int (length md)\<rparr>, md_piece md p)"
    and "set order = {..<metadataPieceCount (length md)}"
    and "conn_writes c = None" "conn_in c = honest_stream k bits h pid root hdr md order @ rest"
  shows "honest_peer k h pid bits md c"
  unfolding honest_peer_def using assms by blast

lemma honest_peer_answers:
  assumes ids: "length (proto k) = 20" "wf_ID h" "wf_ID cid" and peer: "honest_peer k h pid bits md c"
    and info: "HashBytes k md = h" "unmarshal_info k md = Inr info" "validateInfo info = None"
  shows "requester_Request k cid (Inr c) h
     = Inr \<lparr>resp_hs = \<lparr>hs_PeerID = pid, hs_Bits = bits\<rparr>, resp_Info = info\<rparr>"
proof -
  obtain root ut hdr order rest where root: "length root \<le> 1024" "dec_root k root = Inr (int (length md), ut)" "0 < ut" "ut < 255"
    and all: "\<forall>p < metadataPieceCount (length md). length (hdr p) \<le> 1024 \<and>
      dec_hdr k (hdr p @ md_piece md p)
        = Inr (\<lparr>MsgType = 1, Piece = int p, TotalSize = int (length md)\<rparr>, md_piece md p)"
    and order: "set order = {..<metadataPieceCount (length md)}"
    and c: "conn_writes c = None" "conn_in c = honest_stream k bits h pid root hdr md order @ rest"
    using peer unfolding honest_peer_def by blast
  note hdr = all [rule_format]
  have pid: "wf_ID pid" and bits: "length bits = 8" "pex_GetBit bits ExtensionBitLtep = Inr True"
    and md: "0 < length md" "length md < maxMetadataSize"
    using peer by (simp_all add: honest_peer_def)
  note ids = ids pid
  let ?pieces = "concat (map (data_msg hdr md) order) @ rest"
  let ?c1 = "c\<lparr>conn_out := conn_out c @ handshake_bytes (proto k) h cid, conn_in := frame (20 # 0 # root) @ ?pieces\<rparr>"
  have hs: "btHandshake (proto k) h cid c = Inr (\<lparr>hs_PeerID = pid, hs_Bits = bits\<rparr>, ?c1)"
    by (rule btHandshake_honest) (use ids bits c in \<open>simp_all add: honest_stream_def\<close>)
  let ?out = "conn_out ?c1 @ ext_handshake_bytes"
  let ?c2 = "c\<lparr>conn_out := ?out, conn_in := ?pieces\<rparr>"
  have "readExMessage ((c\<lparr>conn_out := ?out\<rparr>)\<lparr>conn_in := frame (20 # 0 # root) @ ?pieces\<rparr>)
      = Inr (20 # 0 # root, ?c2)"
    using readExMessage_frame [where m = root and x = 0 and c = "c\<lparr>conn_out := ?out\<rparr>" and rest = ?pieces] root(1)
    by (simp add: maxMetadataSize_def)
  then have ex: "exHandshake (dec_root k) ?c1 = Inr ((length md, of_int ut), ?c2)"
    using c(1) root md by (simp add: exHandshake_def conn_Write_unlimited Let_def)
  obtain out3 where req: "requestAllPieces (enc_req k) (length md) (of_int ut) ?c2 = Inr ((), ?c2\<lparr>conn_out := out3\<rparr>)"
    using request_pieces_unlimited [of ?c2 "enc_req k" "of_int ut" "[0..<metadataPieceCount (length md)]"] c(1)
    by (auto simp: requestAllPieces_def)
  obtain c4 where "pieces_loop (dec_hdr k) (length md) (pieces_init (length md))
      ((c\<lparr>conn_out := out3\<rparr>)\<lparr>conn_in := ?pieces\<rparr>) = Inr (md, c4)"
    using pieces_loop_honest [OF hdr md(2) pieces_init_good, where order = order
        and c = "c\<lparr>conn_out := out3\<rparr>" and rest = rest] order
    by auto
  then have "readAllPieces (dec_hdr k) (length md) (?c2\<lparr>conn_out := out3\<rparr>) = Inr (md, c4)"
    using md by (simp add: readAllPieces_def)
  moreover have "ParseMetaInfoBytes (HashBytes k) (unmarshal_info k) h md = Inr info"
    using info md(2) by (simp add: ParseMetaInfoBytes_ok MaxMetaInfoBytes_def maxMetadataSize_def)
  ultimately show ?thesis
    by (simp only: requester_Request_def sum.case hs rbind_simps prod.case ex req)
qed


definition demo_info :: Info where
  "demo_info = \<lparr>info_Name = ''ubuntu.iso'', info_PieceLength = 16384, info_Files = [], info_Pieces = [],
     info_Private = None\<rparr>"

lemma demo_info_valid: "validateInfo demo_info = None"
proof -
  have "validateName ''ubuntu.iso'' = None"
    by (simp add: validateName_None name_ok_def ValidString_all_ascii clean_name_byte_def)
  then show ?thesis by (simp add: validateInfo_def demo_info_def MinPieceLen_def MaxPieceLen_def MaxFilesCount_def)
qed

definition demo_coders :: coders where
  "demo_coders = \<lparr>proto = replicate 20 19, dec_root = (\<lambda>_. Inr (3, 1)), enc_req = (\<lambda>p. []),
     dec_hdr = (\<lambda>b. Inr (\<lparr>MsgType = 1, Piece = 0, TotalSize = 3\<rparr>, b)),
     HashBytes = (\<lambda>b. replicate 20 (of_nat (length b))), unmarshal_info = (\<lambda>_. Inr demo_info)\<rparr>"

definition demo_conn :: "byte list \<Rightarrow> conn" where
  "demo_conn bs = \<lparr>conn_in = bs, conn_end = plain_err ''EOF'', conn_out = [], conn_writes = None,
     conn_werr = plain_err ''EOF''\<rparr>"

lemma demo_count: "metadataPieceCount (length [1, 2, 3 :: byte]) = 1"
  by (simp add: metadataPieceCount_def metadataPieceSize_def)

lemma demo_bits: "pex_GetBit myExBits ExtensionBitLtep = Inr True"
  by (simp add: myExBits_def NewPeerExtensionBits_def WithBit_def pex_GetBit_def ExtensionBitDht_def
      ExtensionBitLtep_def Let_def)

definition demo_honest :: conn where
  "demo_honest = demo_conn (honest_stream demo_coders myExBits (replicate 20 3) ID_zero [] (\<lambda>_. []) [1, 2, 3] [0, 0])"

lemma demo_honest_peer: "honest_peer demo_coders (replicate 20 3) ID_zero myExBits [1, 2, 3] demo_honest"
proof (rule honest_peerI [where ut = 1 and rest = "[]" and root = "[]" and hdr = "\<lambda>_. []" and order = "[0, 0]"])
  show "wf_ID ID_zero" by (simp add: wf_ID_def ID_zero_def)
  show "pex_GetBit myExBits ExtensionBitLtep = Inr True" by (rule demo_bits)
  show "\<forall>p < metadataPieceCount (length [1, 2, 3 :: byte]). length ([] :: byte list) \<le> 1024 \<and>
      dec_hdr demo_coders ([] @ md_piece [1, 2, 3] p)
        = Inr (\<lparr>MsgType = 1, Piece = int p, TotalSize = int (length [1, 2, 3 :: byte])\<rparr>, md_piece [1, 2, 3] p)"
    unfolding demo_count by (simp add: demo_coders_def)
  show "set [0, 0] = {..<metadataPieceCount (length [1, 2, 3 :: byte])}" unfolding demo_count by auto
  show "dec_root demo_coders [] = Inr (int (length [1, 2, 3 :: byte]), 1)" by (simp add: demo_coders_def)
  show "length [1, 2, 3 :: byte] < maxMetadataSize" by (simp add: maxMetadataSize_def)
qed (simp_all only: demo_honest_def demo_conn_def conn.simps length_myExBits, simp_all)

lemma demo_md: "length (proto demo_coders) = 20" "HashBytes demo_coders [1, 2, 3] = replicate 20 3"
  "unmarshal_info demo_coders [1, 2, 3] = Inr demo_info" "wf_ID (replicate 20 3)" "wf_ID ID_zero"
  by (simp_all add: demo_coders_def wf_ID_def ID_zero_def)




end
