(* ===== verification/PeerRep.thy ===== *)
theory PeerRep
  imports MetainfoRequester
begin

text \<open>
  Peer reputation: the backoff cache of \<open>protocol/metainfo/peerrep\<close> and the decorators of
  \<open>protocol/metainfo/metainforequester\<close> stacked on the requester (the reputation wrapper with its
  error classification, the rate limiter, the metrics collector). The LRU library is third-party:
  the entries it holds are a map, and the key it evicts when an entry is added is an argument of
  the operation.
\<close>

section \<open>Error classes and configuration\<close>

datatype ErrorClass =
    ClassUnknown | ClassDialTimeout | ClassNetworkError | ClassHandshakeFail | ClassNoUtMetadata
  | ClassMetadataTimeout | ClassKRPCError | ClassConnectionRefused | ClassPeerClosed | ClassHashMismatch

fun ErrorClass_String :: "ErrorClass \<Rightarrow> string" where
  "ErrorClass_String ClassDialTimeout = ''dial_timeout''"
| "ErrorClass_String ClassNetworkError = ''network_error''"
| "ErrorClass_String ClassHandshakeFail = ''handshake_fail''"
| "ErrorClass_String ClassNoUtMetadata = ''no_ut_metadata''"
| "ErrorClass_String ClassMetadataTimeout = ''metadata_timeout''"
| "ErrorClass_String ClassKRPCError = ''krpc_error''"
| "ErrorClass_String ClassConnectionRefused = ''connection_refused''"
| "ErrorClass_String ClassPeerClosed = ''peer_closed''"
| "ErrorClass_String ClassHashMismatch = ''hash_mismatch''"
| "ErrorClass_String ClassUnknown = ''unknown''"

record rep_Config =
  rep_Enabled :: bool
  rep_Enforce :: bool
  rep_MaxEntries :: int
  rep_TTL :: int
  DialTimeoutBackoff :: "int list"
  ConnectionRefusedBackoff :: "int list"
  NetworkErrorBackoff :: "int list"
  PeerClosedBackoff :: "int list"
  HandshakeFailBackoff :: "int list"
  HashMismatchBackoff :: "int list"
  NoUtMetadataBackoff :: "int list"
  MetadataTimeoutBackoff :: "int list"
  KRPCErrorBackoff :: "int list"

definition defaultMaxEntries :: int where "defaultMaxEntries = 100000"
definition defaultTTL :: int where "defaultTTL = 24 * Hour"

definition rep_NewDefaultConfig :: rep_Config where
  "rep_NewDefaultConfig = \<lparr>
     rep_Enabled = False, rep_Enforce = False,
     rep_MaxEntries = defaultMaxEntries, rep_TTL = defaultTTL,
     DialTimeoutBackoff = [10 * Minute, 30 * Minute, 2 * Hour],
     ConnectionRefusedBackoff = [30 * Minute, 2 * Hour, 6 * Hour],
     NetworkErrorBackoff = [10 * Minute, 30 * Minute, 2 * Hour],
     PeerClosedBackoff = [15 * Minute, 1 * Hour, 4 * Hour],
     HandshakeFailBackoff = [1 * Hour, 6 * Hour, 24 * Hour],
     HashMismatchBackoff = [6 * Hour, 24 * Hour],
     NoUtMetadataBackoff = [6 * Hour, 24 * Hour],
     MetadataTimeoutBackoff = [15 * Minute, 1 * Hour, 6 * Hour],
     KRPCErrorBackoff = [1 * Hour, 6 * Hour, 24 * Hour]\<rparr>"

fun class_schedule :: "rep_Config \<Rightarrow> ErrorClass \<Rightarrow> int list" where
  "class_schedule cfg ClassDialTimeout = DialTimeoutBackoff cfg"
| "class_schedule cfg ClassConnectionRefused = ConnectionRefusedBackoff cfg"
| "class_schedule cfg ClassNetworkError = NetworkErrorBackoff cfg"
| "class_schedule cfg ClassPeerClosed = PeerClosedBackoff cfg"
| "class_schedule cfg ClassHandshakeFail = HandshakeFailBackoff cfg"
| "class_schedule cfg ClassHashMismatch = HashMismatchBackoff cfg"
| "class_schedule cfg ClassNoUtMetadata = NoUtMetadataBackoff cfg"
| "class_schedule cfg ClassMetadataTimeout = MetadataTimeoutBackoff cfg"
| "class_schedule cfg ClassKRPCError = KRPCErrorBackoff cfg"
| "class_schedule cfg ClassUnknown = []"

definition scheduleFor :: "rep_Config \<Rightarrow> ErrorClass \<Rightarrow> int list" where
  "scheduleFor cfg cl =
     (let sched = class_schedule cfg cl in if sched \<noteq> [] then sched else NetworkErrorBackoff cfg)"

section \<open>The store\<close>

record peerState =
  consecutiveFailures :: nat
  lastClass :: ErrorClass
  suppressedUntil :: time
  expiresAt :: time

record rep_Store =
  rep_cfg :: rep_Config
  rep_lru :: "addr_port \<rightharpoonup> peerState"

definition rep_NewStore :: "rep_Config \<Rightarrow> rep_Store" where
  "rep_NewStore cfg =
     (let cfg1 = (if rep_MaxEntries cfg \<le> 0 then cfg\<lparr>rep_MaxEntries := defaultMaxEntries\<rparr> else cfg);
          cfg2 = (if rep_TTL cfg1 \<le> 0 then cfg1\<lparr>rep_TTL := defaultTTL\<rparr> else cfg1)
      in \<lparr>rep_cfg = cfg2, rep_lru = Map.empty\<rparr>)"

definition rep_peek :: "time \<Rightarrow> addr_port \<Rightarrow> rep_Store \<Rightarrow> rep_Store \<times> peerState option" where
  "rep_peek now key s =
     (case rep_lru s key of
        None \<Rightarrow> (s, None)
      | Some v \<Rightarrow>
          if now > expiresAt v then (s\<lparr>rep_lru := (rep_lru s)(key := None)\<rparr>, None)
          else (s, Some v))"

definition lru_Add :: "addr_port option \<Rightarrow> addr_port \<Rightarrow> peerState \<Rightarrow> (addr_port \<rightharpoonup> peerState) \<Rightarrow> (addr_port \<rightharpoonup> peerState)" where
  "lru_Add ev key st m = ((case ev of None \<Rightarrow> m | Some k \<Rightarrow> m(k := None))(key \<mapsto> st))"

definition fresh_state :: "time \<Rightarrow> rep_Config \<Rightarrow> peerState" where
  "fresh_state now cfg = \<lparr>consecutiveFailures = 0, lastClass = ClassUnknown, suppressedUntil = 0,
     expiresAt = now + rep_TTL cfg\<rparr>"

definition rep_upsert :: "time \<Rightarrow> addr_port option \<Rightarrow> addr_port \<Rightarrow> rep_Store \<Rightarrow> rep_Store \<times> peerState" where
  "rep_upsert now ev key s =
     (let fresh = fresh_state now (rep_cfg s) in
      case rep_lru s key of
        Some v \<Rightarrow>
          if \<not> now > expiresAt v then (s, v)
          else (s\<lparr>rep_lru := lru_Add ev key fresh ((rep_lru s)(key := None))\<rparr>, fresh)
      | None \<Rightarrow> (s\<lparr>rep_lru := lru_Add ev key fresh (rep_lru s)\<rparr>, fresh))"

text \<open>The returned entry is a pointer: what the caller does to it is a write to the store.\<close>

definition rep_write :: "addr_port \<Rightarrow> peerState \<Rightarrow> rep_Store \<Rightarrow> rep_Store" where
  "rep_write key st s = s\<lparr>rep_lru := (rep_lru s)(key \<mapsto> st)\<rparr>"

section \<open>Decisions\<close>

record rep_Decision =
  Allow :: bool
  WouldSkip :: bool
  LastClass :: ErrorClass

definition rep_Decide :: "time \<Rightarrow> addr_port \<Rightarrow> rep_Store \<Rightarrow> rep_Store \<times> rep_Decision" where
  "rep_Decide now peer s =
     (let allow = \<lparr>Allow = True, WouldSkip = False, LastClass = ClassUnknown\<rparr> in
      if \<not> rep_Enabled (rep_cfg s) then (s, allow)
      else let (s1, st) = rep_peek now peer s in
        case st of
          None \<Rightarrow> (s1, allow)
        | Some v \<Rightarrow>
            if suppressedUntil v = 0 then (s1, allow)
            else if now < suppressedUntil v
            then (s1, \<lparr>Allow = \<not> rep_Enforce (rep_cfg s), WouldSkip = True, LastClass = lastClass v\<rparr>)
            else (rep_write peer (v\<lparr>suppressedUntil := 0\<rparr>) s1,
                  \<lparr>Allow = True, WouldSkip = False, LastClass = lastClass v\<rparr>))"

definition RecordSuccess :: "time \<Rightarrow> addr_port option \<Rightarrow> addr_port \<Rightarrow> rep_Store \<Rightarrow> rep_Store" where
  "RecordSuccess now ev peer s =
     (if \<not> rep_Enabled (rep_cfg s) then s
      else let (s1, st) = rep_upsert now ev peer s in
        rep_write peer (st\<lparr>consecutiveFailures := 0, suppressedUntil := 0\<rparr>) s1)"

definition RecordFailure :: "time \<Rightarrow> addr_port option \<Rightarrow> addr_port \<Rightarrow> ErrorClass \<Rightarrow> rep_Store \<Rightarrow> rep_Store" where
  "RecordFailure now ev peer cl s =
     (if \<not> rep_Enabled (rep_cfg s) then s
      else let (s1, st0) = rep_upsert now ev peer s;
               st1 = (if cl \<noteq> lastClass st0 then st0\<lparr>consecutiveFailures := 0, lastClass := cl\<rparr> else st0);
               st2 = st1\<lparr>consecutiveFailures := consecutiveFailures st1 + 1\<rparr>;
               schedule = scheduleFor (rep_cfg s) cl
           in if schedule = [] then rep_write peer (st2\<lparr>suppressedUntil := 0\<rparr>) s1
              else let idx0 = consecutiveFailures st2 - 1;
                       idx = (if idx0 \<ge> length schedule then length schedule - 1 else idx0)
                   in rep_write peer (st2\<lparr>suppressedUntil := now + schedule ! idx\<rparr>) s1)"

section \<open>Error classification\<close>

text \<open>\<open>indexOf\<close>: the first offset at which the substring occurs, \<open>None\<close> for \<open>-1\<close>.\<close>

fun indexOf_loop :: "string \<Rightarrow> string \<Rightarrow> nat \<Rightarrow> nat option" where
  "indexOf_loop [] sub i = (if sub = [] then Some i else None)"
| "indexOf_loop (c # s) sub i =
     (if take (length sub) (c # s) = sub then Some i else indexOf_loop s sub (i + 1))"

definition indexOf :: "string \<Rightarrow> string \<Rightarrow> nat option" where
  "indexOf s sub =
     (if length sub = 0 then Some 0
      else if length sub > length s then None
      else indexOf_loop s sub 0)"

definition containsAny :: "string \<Rightarrow> string list \<Rightarrow> bool" where
  "containsAny s subs = list_ex (\<lambda>sub. indexOf s sub \<noteq> None) subs"

definition classifyForPeerRep :: "neterr \<Rightarrow> ErrorClass" where
  "classifyForPeerRep e =
     (let msg = err_msg e in
      if err_deadline e then ClassDialTimeout
      else if err_canceled e then ClassUnknown
      else if containsAny msg [''info hash mismatch'', ''wrong info hash'', ''info_hash mismatch''] then ClassHashMismatch
      else if containsAny msg [''connection refused''] then ClassConnectionRefused
      else if containsAny msg [''connection reset by peer'', ''broken pipe'', ''unexpected EOF'',
                ''use of closed network connection'', ''connection closed''] then ClassPeerClosed
      else if containsAny msg [''no ut_metadata'', ''extension not supported'', ''no extension''] then ClassNoUtMetadata
      else if containsAny msg [''no route to host'', ''network unreachable'', ''host unreachable''] then ClassNetworkError
      else if err_timeout e then
        (if containsAny msg [''metadata'', ''ut_metadata'', ''ext'', ''extended''] then ClassMetadataTimeout
         else ClassDialTimeout)
      else if err_op e then ClassNetworkError
      else if containsAny msg [''handshake'', ''bt handshake''] then ClassHandshakeFail
      else if containsAny msg [''metadata'', ''piece'', ''ut_metadata''] then ClassMetadataTimeout
      else if containsAny msg [''EOF''] then ClassPeerClosed
      else ClassUnknown)"

section \<open>The decorated requester\<close>

definition ErrPeerRepSuppressed :: neterr where
  "ErrPeerRepSuppressed = plain_err ''peerrep: peer suppressed by reputation cache''"

record rep_metrics =
  wouldSkipTotal :: "string \<Rightarrow> nat"
  skippedTotal :: "string \<Rightarrow> nat"
  observedTotal :: "string \<Rightarrow> nat"

definition inc :: "string \<Rightarrow> (string \<Rightarrow> nat) \<Rightarrow> (string \<Rightarrow> nat)" where
  "inc l m = m(l := m l + 1)"

text \<open>
  The wrapped requester is asked at most once: \<open>inner\<close> is its answer, the last component of the
  result tells whether it was asked. \<open>now\<close> and \<open>now'\<close> are the times before and after the request.
\<close>

definition peerRepWrapper_Request ::
  "time \<Rightarrow> time \<Rightarrow> addr_port option \<Rightarrow> addr_port \<Rightarrow> neterr + Response \<Rightarrow> rep_Store \<Rightarrow> rep_metrics \<Rightarrow>
     (neterr + Response) \<times> rep_Store \<times> rep_metrics \<times> bool" where
  "peerRepWrapper_Request now now' ev addr inner s m =
     (let (s1, dec) = rep_Decide now addr s;
          lbl = ErrorClass_String (LastClass dec);
          m1 = (if WouldSkip dec then m\<lparr>wouldSkipTotal := inc lbl (wouldSkipTotal m)\<rparr> else m)
      in if \<not> Allow dec then
           (Inl ErrPeerRepSuppressed, s1, m1\<lparr>skippedTotal := inc lbl (skippedTotal m1)\<rparr>, False)
         else case inner of
           Inr resp \<Rightarrow>
             (Inr resp, RecordSuccess now' ev addr s1,
              m1\<lparr>observedTotal := inc ''success'' (observedTotal m1)\<rparr>, True)
         | Inl e \<Rightarrow>
             let cl = classifyForPeerRep e in
             (Inl e, RecordFailure now' ev addr cl s1,
              m1\<lparr>observedTotal := inc (ErrorClass_String cl) (observedTotal m1)\<rparr>, True))"

text \<open>The rate limiter in front of the requester: \<open>limitErr\<close> is what waiting for a token returns.\<close>

definition requestLimiter_Request :: "neterr option \<Rightarrow> neterr + Response \<Rightarrow> neterr + Response" where
  "requestLimiter_Request limitErr inner = (case limitErr of Some e \<Rightarrow> Inl e | None \<Rightarrow> inner)"

record req_metrics =
  requestSuccessTotal :: nat
  requestErrorTotal :: nat
  requestConcurrency :: int

text \<open>The collector around a request that returns or panics: the gauge is decremented by a deferred call.\<close>

definition prometheusCollector_Request :: "Response rres \<Rightarrow> req_metrics \<Rightarrow> req_metrics" where
  "prometheusCollector_Request inner m =
     (let m1 = m\<lparr>requestConcurrency := requestConcurrency m + 1\<rparr>;
          m2 = (case inner of
                  Inr _ \<Rightarrow> m1\<lparr>requestSuccessTotal := requestSuccessTotal m1 + 1\<rparr>
                | Inl (RErr _) \<Rightarrow> m1\<lparr>requestErrorTotal := requestErrorTotal m1 + 1\<rparr>
                | Inl (RPanic _) \<Rightarrow> m1)
      in m2\<lparr>requestConcurrency := requestConcurrency m2 - 1\<rparr>)"

text \<open>
  The chain the factory builds: the reputation wrapper around the rate limiter around the collector around
  the requester. \<open>W\<close> is what the outside does during each call in turn. The log of the addresses that are
  dialled is not in the code. \<open>requester_Request_no_panic\<close> shows that the branch for a panic is not taken.
\<close>

record req_env =
  re_start :: time
  re_end :: time
  re_evicted :: "addr_port option"
  re_limit :: "neterr option"
  re_dial :: "neterr + conn"

record req_state =
  rq_store :: rep_Store
  rq_rep :: rep_metrics
  rq_metrics :: req_metrics
  rq_calls :: nat
  rq_log :: "(ID \<times> addr_port) list"

fun returned :: "Response rres \<Rightarrow> neterr + Response" where
  "returned (Inr r) = Inr r"
| "returned (Inl (RErr e)) = Inl e"
| "returned (Inl (RPanic p)) = Inl (plain_err p)"

definition chain_Request ::
  "coders \<Rightarrow> ID \<Rightarrow> (nat \<Rightarrow> req_env) \<Rightarrow> ID \<Rightarrow> addr_port \<Rightarrow> req_state \<Rightarrow> (neterr + Response) \<times> req_state" where
  "chain_Request k clientID W infoHash addr s =
     (let e = W (rq_calls s);
          raw = requester_Request k clientID (re_dial e) infoHash;
          (res, store, rep, asked) =
            peerRepWrapper_Request (re_start e) (re_end e) (re_evicted e) addr
              (requestLimiter_Request (re_limit e) (returned raw)) (rq_store s) (rq_rep s);
          dialled = (asked \<and> re_limit e = None)
      in (res, s\<lparr>rq_store := store, rq_rep := rep, rq_calls := rq_calls s + 1,
           rq_metrics := if dialled then prometheusCollector_Request raw (rq_metrics s) else rq_metrics s,
           rq_log := rq_log s @ (if dialled then [(infoHash, addr)] else [])\<rparr>))"

lemma returned_Inr [simp]: "returned m = Inr r \<longleftrightarrow> m = Inr r"
  by (cases m rule: returned.cases) auto

lemma chain_Request_ok:
  assumes "chain_Request k cid W h addr s = (Inr r, s')"
  obtains dial where "requester_Request k cid dial h = Inr r"
  using assms
  by (auto simp: chain_Request_def peerRepWrapper_Request_def requestLimiter_Request_def Let_def case_prod_beta
      split: if_splits sum.splits option.splits)

lemma chain_Request_log:
  assumes "chain_Request k cid W h addr s = (r, s')"
  shows "rq_log s' = rq_log s \<or> rq_log s' = rq_log s @ [(h, addr)]"
  using assms by (cases "re_limit (W (rq_calls s)) = None") (auto simp: chain_Request_def Let_def case_prod_beta)

section \<open>Backoff\<close>

text \<open>The state of a peer after a failure, as one equation.\<close>

definition failed_state :: "time \<Rightarrow> ErrorClass \<Rightarrow> rep_Config \<Rightarrow> peerState \<Rightarrow> peerState" where
  "failed_state now cl cfg st =
     (let n = (if cl = lastClass st then consecutiveFailures st else 0); sched = scheduleFor cfg cl in
      st\<lparr>lastClass := cl, consecutiveFailures := n + 1,
         suppressedUntil := if sched = [] then 0 else now + sched ! min n (length sched - 1)\<rparr>)"

definition live_state :: "time \<Rightarrow> addr_port \<Rightarrow> rep_Store \<Rightarrow> peerState" where
  "live_state now peer s =
     (case rep_lru s peer of
        Some v \<Rightarrow> if now > expiresAt v then fresh_state now (rep_cfg s) else v
      | None \<Rightarrow> fresh_state now (rep_cfg s))"

lemma rep_upsert_state: "snd (rep_upsert now ev peer s) = live_state now peer s"
  by (auto simp: rep_upsert_def live_state_def Let_def split: option.splits)

lemma rep_upsert_cfg [simp]: "rep_cfg (fst (rep_upsert now ev peer s)) = rep_cfg s"
  by (auto simp: rep_upsert_def Let_def split: option.splits)

lemma schedule_index:
  "sched \<noteq> [] \<Longrightarrow> (if length sched \<le> n then length sched - 1 else n) = min n (length sched - 1)"
  by (cases sched) auto

lemma RecordFailure_state:
  assumes "rep_Enabled (rep_cfg s)"
  shows "rep_lru (RecordFailure now ev peer cl s) peer = Some (failed_state now cl (rep_cfg s) (live_state now peer s))"
    and "rep_cfg (RecordFailure now ev peer cl s) = rep_cfg s"
proof -
  obtain s1 st where u: "rep_upsert now ev peer s = (s1, st)" by (cases "rep_upsert now ev peer s")
  have st: "st = live_state now peer s" using rep_upsert_state [of now ev peer s] u by simp
  have cfg: "rep_cfg s1 = rep_cfg s" using rep_upsert_cfg [of now ev peer s] u by simp
  show "rep_lru (RecordFailure now ev peer cl s) peer = Some (failed_state now cl (rep_cfg s) (live_state now peer s))"
    using assms u unfolding st [symmetric]
    by (simp add: RecordFailure_def Let_def rep_write_def failed_state_def schedule_index del: One_nat_def)
  show "rep_cfg (RecordFailure now ev peer cl s) = rep_cfg s"
    using assms u cfg by (simp add: RecordFailure_def Let_def rep_write_def)
qed

lemma RecordSuccess_state:
  assumes "rep_Enabled (rep_cfg s)"
  shows "rep_lru (RecordSuccess now ev peer s) peer =
     Some ((live_state now peer s)\<lparr>consecutiveFailures := 0, suppressedUntil := 0\<rparr>)"
  using assms rep_upsert_state [of now ev peer s]
  by (cases "rep_upsert now ev peer s") (simp add: RecordSuccess_def rep_write_def)

lemma rep_Decide_live:
  assumes "rep_Enabled (rep_cfg s)" "rep_lru s peer = Some v" "now \<le> expiresAt v" "suppressedUntil v \<noteq> 0"
  shows "snd (rep_Decide now peer s) =
     (if now < suppressedUntil v
      then \<lparr>Allow = \<not> rep_Enforce (rep_cfg s), WouldSkip = True, LastClass = lastClass v\<rparr>
      else \<lparr>Allow = True, WouldSkip = False, LastClass = lastClass v\<rparr>)"
  using assms by (simp add: rep_Decide_def rep_peek_def Let_def)

text \<open>Recording a run of failures of one class: each element is a time and the LRU's eviction then.\<close>

definition fail_run :: "addr_port \<Rightarrow> ErrorClass \<Rightarrow> (time \<times> addr_port option) list \<Rightarrow> rep_Store \<Rightarrow> rep_Store" where
  "fail_run peer cl ts s = foldl (\<lambda>s (t, ev). RecordFailure t ev peer cl s) s ts"

lemma fail_run_state:
  assumes en: "rep_Enabled (rep_cfg s)" and none: "rep_lru s peer = None" and sched: "scheduleFor (rep_cfg s) cl \<noteq> []"
  shows "\<lbrakk>ts \<noteq> []; \<forall>t \<in> fst ` set ts. t \<le> fst (hd ts) + rep_TTL (rep_cfg s)\<rbrakk> \<Longrightarrow>
     rep_cfg (fail_run peer cl ts s) = rep_cfg s \<and>
     rep_lru (fail_run peer cl ts s) peer = Some \<lparr>consecutiveFailures = length ts, lastClass = cl,
       suppressedUntil = fst (last ts) + scheduleFor (rep_cfg s) cl ! min (length ts - 1) (length (scheduleFor (rep_cfg s) cl) - 1),
       expiresAt = fst (hd ts) + rep_TTL (rep_cfg s)\<rparr>"
proof (induction ts rule: rev_induct)
  case (snoc x ts)
  obtain t ev where x: "x = (t, ev)" by (cases x)
  have run: "fail_run peer cl (ts @ [x]) s = RecordFailure t ev peer cl (fail_run peer cl ts s)"
    by (simp add: fail_run_def x)
  show ?case
  proof (cases "ts = []")
    case True
    then have "fail_run peer cl ts s = s" by (simp add: fail_run_def)
    with run True x RecordFailure_state [OF en, of t ev peer cl] none sched show ?thesis
      by (simp add: live_state_def fresh_state_def failed_state_def Let_def)
  next
    case False
    with snoc have IH: "rep_cfg (fail_run peer cl ts s) = rep_cfg s"
      "rep_lru (fail_run peer cl ts s) peer = Some \<lparr>consecutiveFailures = length ts, lastClass = cl,
       suppressedUntil = fst (last ts) + scheduleFor (rep_cfg s) cl ! min (length ts - 1) (length (scheduleFor (rep_cfg s) cl) - 1),
       expiresAt = fst (hd ts) + rep_TTL (rep_cfg s)\<rparr>" by simp_all
    have "t \<le> fst (hd ts) + rep_TTL (rep_cfg s)" using snoc(3) False x by simp
    with RecordFailure_state [of "fail_run peer cl ts s" t ev peer cl] IH en sched run False x
    show ?thesis by (simp add: live_state_def failed_state_def Let_def)
  qed
qed simp


definition demo_peer :: addr_port where
  "demo_peer = AddrPortFrom (Addr4 [10, 0, 0, 1]) 6881"


text \<open>
  A decision after the backoff has elapsed clears the deadline and keeps the failure count, so the
  next failure of the same class continues along the schedule instead of starting over.
\<close>

theorem elapsed_backoff_keeps_count:
  assumes "rep_Enabled (rep_cfg s)" "rep_lru s peer = Some v" "now \<le> expiresAt v"
    and "suppressedUntil v \<noteq> 0" "suppressedUntil v \<le> now"
    and "now' \<le> expiresAt v" "scheduleFor (rep_cfg s) (lastClass v) \<noteq> []"
  shows "rep_lru (RecordFailure now' ev peer (lastClass v) (fst (rep_Decide now peer s))) peer =
    Some (v\<lparr>consecutiveFailures := consecutiveFailures v + 1,
      suppressedUntil := now' + scheduleFor (rep_cfg s) (lastClass v) !
        min (consecutiveFailures v) (length (scheduleFor (rep_cfg s) (lastClass v)) - 1)\<rparr>)"
proof -
  let ?s = "rep_write peer (v\<lparr>suppressedUntil := 0\<rparr>) s"
  have "fst (rep_Decide now peer s) = ?s"
    using assms by (simp add: rep_Decide_def rep_peek_def Let_def)
  moreover have "rep_cfg ?s = rep_cfg s" "live_state now' peer ?s = v\<lparr>suppressedUntil := 0\<rparr>"
    using assms(6) by (simp_all add: rep_write_def live_state_def)
  ultimately show ?thesis
    using RecordFailure_state(1) [of ?s now' ev peer "lastClass v"] assms(1,7)
    by (simp add: failed_state_def Let_def)
qed

text \<open>
  The decorated requester: a peer in backoff is never contacted when the store enforces, and
  reports the suppression error; when it does not enforce (shadow mode) or the cache is off,
  every request reaches the wrapped requester and its answer is returned unchanged.\<close>

theorem peerRepWrapper_contact:
  assumes "peerRepWrapper_Request now now' ev addr inner s m = (res, s', m', asked)"
  shows "asked \<longleftrightarrow> \<not> (rep_Enforce (rep_cfg s) \<and> WouldSkip (snd (rep_Decide now addr s)))"
    and "asked \<Longrightarrow> res = inner" and "\<not> asked \<Longrightarrow> res = Inl ErrPeerRepSuppressed"
proof -
  obtain s1 dec where d: "rep_Decide now addr s = (s1, dec)" by (cases "rep_Decide now addr s")
  have "Allow dec \<longleftrightarrow> \<not> (rep_Enforce (rep_cfg s) \<and> WouldSkip dec)"
    using d by (auto simp: rep_Decide_def rep_peek_def Let_def split: if_splits option.splits prod.splits)
  then show "asked \<longleftrightarrow> \<not> (rep_Enforce (rep_cfg s) \<and> WouldSkip (snd (rep_Decide now addr s)))"
    and "asked \<Longrightarrow> res = inner" and "\<not> asked \<Longrightarrow> res = Inl ErrPeerRepSuppressed"
    using assms d by (auto simp: peerRepWrapper_Request_def Let_def split: if_splits sum.splits)
qed

section \<open>The requester's own errors as the wrapper classifies them\<close>

lemma classify_infohash_mismatch: "classifyForPeerRep (plain_err ''infohash mismatch'') = ClassUnknown"
  by code_simp

lemma classify_no_extension:
  "classifyForPeerRep (plain_err ''peer does not support the extension protocol'') = ClassUnknown"
  by code_simp

lemma classify_wrong_hash: "classifyForPeerRep (plain_err ''info bytes have wrong hash'') = ClassUnknown"
  by code_simp

text \<open>A peer whose handshake is complete but answers for another infohash, or lacks the extension
  protocol, is recorded under the class \<open>unknown\<close>: the texts the requester produces for these two
  failures match none of the patterns meant for \<open>ClassHashMismatch\<close> and \<open>ClassNoUtMetadata\<close>, so
  the long schedules configured for them never apply to it.\<close>

theorem handshake_failures_unclassified:
  assumes "length pr = 20" "wf_ID h" "wf_ID cid" "wf_ID rh" "wf_ID pid" "length bits = 8"
    and "pex_GetBit bits ExtensionBitLtep = Inr ltep" and "\<not> ltep \<or> rh \<noteq> h"
    and "conn_writes c = None" and "conn_in c = pr @ bits @ rh @ pid @ rest"
  shows "\<exists>e. btHandshake pr h cid c = Inl (RErr e) \<and> classifyForPeerRep e = ClassUnknown \<and>
     scheduleFor cfg (classifyForPeerRep e) = NetworkErrorBackoff cfg"
proof -
  let ?e = "if \<not> ltep then ''peer does not support the extension protocol'' else ''infohash mismatch''"
  have "btHandshake pr h cid c = Inl (RErr (plain_err ?e))"
    using assms
    by (auto simp: btHandshake_def conn_Write_unlimited handshake_bytes_def wf_ID_def read_handshake_def
        ReadFull_def Let_def)
  moreover have "classifyForPeerRep (plain_err ?e) = ClassUnknown"
    by (simp add: classify_infohash_mismatch classify_no_extension)
  ultimately show ?thesis by (simp add: scheduleFor_def Let_def)
qed

theorem handshake_failures_unclassified_witness:
  "\<exists>e. btHandshake (replicate 20 19) ID_zero ID_zero
        (demo_conn (replicate 20 19 @ myExBits @ replicate 20 7 @ ID_zero)) = Inl (RErr e) \<and>
     classifyForPeerRep e = ClassUnknown"
  using handshake_failures_unclassified [of "replicate 20 19" ID_zero ID_zero "replicate 20 7" ID_zero myExBits
      True "demo_conn (replicate 20 19 @ myExBits @ replicate 20 7 @ ID_zero)" "[]" rep_NewDefaultConfig]
  by (auto simp: wf_ID_def ID_zero_def demo_bits demo_conn_def)

end
