(* ===== verification/GoRegexp.thy ===== *)
theory GoRegexp
  imports GoStrings
begin

text \<open>
  The part of Go's \<open>regexp\<close> that the name detectors use. A pattern is a syntax tree over classes of
  runes, the anchors and the ASCII word boundary; a text is the list of its runes. \<open>rx_ends\<close> is the
  leftmost-first matcher: from a position it lists the positions where a match can end, in the order
  in which a backtracking search prefers them, together with the captured groups. \<open>rx_rel\<close> is the
  meaning of a pattern as a relation between two positions, and \<open>rx_ends_iff\<close> shows that the matcher
  computes exactly this relation.
\<close>

section \<open>Patterns\<close>

text \<open>
  \<open>RClass ci neg rs\<close> is a class of runes given by ranges; \<open>ci\<close> is whether it stands under \<open>(?i)\<close> and
  \<open>neg\<close> whether it is complemented, which happens after case folding.
\<close>

datatype rx =
    REmpty
  | RClass bool bool "(nat \<times> nat) list"
  | RBegin
  | REnd
  | RWordB
  | RCat rx rx
  | RAlt rx rx
  | ROpt rx
  | RStar rx
  | RCap nat rx

text \<open>
  Simple case folding as far as it touches ASCII: the letters of the two cases, the Kelvin sign for
  \<open>k\<close> and the long s for \<open>s\<close>.
\<close>

definition fold_orbit :: "nat \<Rightarrow> nat list" where
  "fold_orbit r =
     (if 65 \<le> r \<and> r \<le> 90 then [r, r + 32]
      else if 97 \<le> r \<and> r \<le> 122 then [r, r - 32]
      else if r = 0x212A then [r, 75, 107]
      else if r = 0x17F then [r, 83, 115]
      else [r])"

definition in_ranges :: "(nat \<times> nat) list \<Rightarrow> nat \<Rightarrow> bool" where
  "in_ranges rs r = list_ex (\<lambda>(lo, hi). lo \<le> r \<and> r \<le> hi) rs"

definition in_class :: "bool \<Rightarrow> bool \<Rightarrow> (nat \<times> nat) list \<Rightarrow> nat \<Rightarrow> bool" where
  "in_class ci neg rs r =
     ((if ci then list_ex (in_ranges rs) (fold_orbit r) else in_ranges rs r) \<noteq> neg)"

text \<open>The class \<open>\w\<close> of the word boundary; outside the text there is no word rune.\<close>

definition word_rune :: "nat \<Rightarrow> bool" where
  "word_rune r \<longleftrightarrow> (48 \<le> r \<and> r \<le> 57) \<or> (65 \<le> r \<and> r \<le> 90) \<or> (97 \<le> r \<and> r \<le> 122) \<or> r = 95"

definition word_at :: "nat list \<Rightarrow> nat \<Rightarrow> bool" where
  "word_at tx i \<longleftrightarrow> i < length tx \<and> word_rune (tx ! i)"

definition word_boundary :: "nat list \<Rightarrow> nat \<Rightarrow> bool" where
  "word_boundary tx i \<longleftrightarrow> (0 < i \<and> word_at tx (i - 1)) \<noteq> word_at tx i"

subsection \<open>Abbreviations of the pattern syntax\<close>

definition RPlus :: "rx \<Rightarrow> rx" where
  "RPlus r = RCat r (RStar r)"

fun RCats :: "rx list \<Rightarrow> rx" where
  "RCats [] = REmpty"
| "RCats [r] = r"
| "RCats (r # rs) = RCat r (RCats rs)"

fun RAlts :: "rx list \<Rightarrow> rx" where
  "RAlts [] = RClass False False []"
| "RAlts [r] = r"
| "RAlts (r # rs) = RAlt r (RAlts rs)"

text \<open>\<open>r{m,m+n}\<close>: the optional copies are nested, as in \<open>x(x(x)?)?\<close>.\<close>

fun RUpTo :: "nat \<Rightarrow> rx \<Rightarrow> rx" where
  "RUpTo 0 r = REmpty"
| "RUpTo (Suc n) r = ROpt (RCat r (RUpTo n r))"

definition RRepeat :: "nat \<Rightarrow> nat \<Rightarrow> rx \<Rightarrow> rx" where
  "RRepeat m n r = RCats (replicate m r @ (if m < n then [RUpTo (n - m) r] else []))"

definition char_ranges :: "string \<Rightarrow> (nat \<times> nat) list" where
  "char_ranges s = map (\<lambda>c. (code c, code c)) s"

definition RChars :: "bool \<Rightarrow> string \<Rightarrow> rx" where
  "RChars ci s = RClass ci False (char_ranges s)"

definition RNotChars :: "bool \<Rightarrow> string \<Rightarrow> rx" where
  "RNotChars ci s = RClass ci True (char_ranges s)"

definition RStr :: "bool \<Rightarrow> string \<Rightarrow> rx" where
  "RStr ci s = RCats (map (\<lambda>c. RClass ci False [(code c, code c)]) s)"

definition RDigit :: rx where
  "RDigit = RClass False False [(48, 57)]"

definition RSpace :: rx where
  "RSpace = RClass False False [(9, 10), (12, 13), (32, 32)]"

section \<open>The matcher\<close>

type_synonym caps = "nat \<Rightarrow> (nat \<times> nat) option"

text \<open>Iterations of a star that make no progress are not taken; \<open>n\<close> bounds the rest of the text.\<close>

fun star_ends :: "nat \<Rightarrow> (nat \<times> caps \<Rightarrow> (nat \<times> caps) list) \<Rightarrow> nat \<times> caps \<Rightarrow> (nat \<times> caps) list" where
  "star_ends 0 f st = [st]"
| "star_ends (Suc n) f st =
     concat (map (star_ends n f) (filter (\<lambda>st'. fst st < fst st') (f st))) @ [st]"

primrec rx_ends :: "nat list \<Rightarrow> rx \<Rightarrow> nat \<times> caps \<Rightarrow> (nat \<times> caps) list" where
  "rx_ends tx REmpty = (\<lambda>st. [st])"
| "rx_ends tx (RClass ci neg rs) =
     (\<lambda>st. if fst st < length tx \<and> in_class ci neg rs (tx ! fst st) then [(fst st + 1, snd st)] else [])"
| "rx_ends tx RBegin = (\<lambda>st. if fst st = 0 then [st] else [])"
| "rx_ends tx REnd = (\<lambda>st. if fst st = length tx then [st] else [])"
| "rx_ends tx RWordB = (\<lambda>st. if word_boundary tx (fst st) then [st] else [])"
| "rx_ends tx (RCat a b) = (\<lambda>st. concat (map (rx_ends tx b) (rx_ends tx a st)))"
| "rx_ends tx (RAlt a b) = (\<lambda>st. rx_ends tx a st @ rx_ends tx b st)"
| "rx_ends tx (ROpt a) = (\<lambda>st. rx_ends tx a st @ [st])"
| "rx_ends tx (RStar a) = (\<lambda>st. star_ends (length tx - fst st) (rx_ends tx a) st)"
| "rx_ends tx (RCap k a) =
     (\<lambda>st. map (\<lambda>(j, cs). (j, cs(k := Some (fst st, j)))) (rx_ends tx a st))"

text \<open>
  The leftmost match at or after a position: where it starts, where it ends and its groups. The
  argument \<open>n\<close> counts the starting positions that are left.
\<close>

fun rx_find_from :: "nat list \<Rightarrow> rx \<Rightarrow> nat \<Rightarrow> nat \<Rightarrow> (nat \<times> nat \<times> caps) option" where
  "rx_find_from tx r i n =
     (case rx_ends tx r (i, \<lambda>_. None) of
        (j, cs) # _ \<Rightarrow> Some (i, j, cs)
      | [] \<Rightarrow> (case n of 0 \<Rightarrow> None | Suc m \<Rightarrow> rx_find_from tx r (i + 1) m))"

declare rx_find_from.simps [simp del]

definition rx_find :: "nat list \<Rightarrow> rx \<Rightarrow> nat \<Rightarrow> (nat \<times> nat \<times> caps) option" where
  "rx_find tx r i = (if i \<le> length tx then rx_find_from tx r i (length tx - i) else None)"

definition MatchString :: "rx \<Rightarrow> string \<Rightarrow> bool" where
  "MatchString r s = (rx_find (runes s) r 0 \<noteq> None)"

definition FindStringSubmatchIndex :: "rx \<Rightarrow> string \<Rightarrow> (nat \<times> nat \<times> caps) option" where
  "FindStringSubmatchIndex r s = rx_find (runes s) r 0"

text \<open>
  \<open>FindAll\<close>: matches that do not overlap, from left to right; after an empty match the search goes on
  one rune later. \<open>n\<close> bounds the number of matches by the length of the text.
\<close>

fun rx_find_all :: "nat \<Rightarrow> nat list \<Rightarrow> rx \<Rightarrow> nat \<Rightarrow> (nat \<times> nat \<times> caps) list" where
  "rx_find_all 0 tx r i = []"
| "rx_find_all (Suc n) tx r i =
     (case rx_find tx r i of
        None \<Rightarrow> []
      | Some (a, b, cs) \<Rightarrow> (a, b, cs) # rx_find_all n tx r (if a < b then b else b + 1))"

definition FindAllStringSubmatchIndex :: "rx \<Rightarrow> string \<Rightarrow> (nat \<times> nat \<times> caps) list" where
  "FindAllStringSubmatchIndex r s = rx_find_all (length (runes s) + 1) (runes s) r 0"

text \<open>The bytes between two rune positions, and the text of a group; a group that took no part is empty.\<close>

definition str_between :: "string \<Rightarrow> nat \<Rightarrow> nat \<Rightarrow> string" where
  "str_between s i j = concat (map snd (take (j - i) (drop i (segs s))))"

definition str_from :: "string \<Rightarrow> nat \<Rightarrow> string" where
  "str_from s i = concat (map snd (drop i (segs s)))"

definition group_text :: "string \<Rightarrow> caps \<Rightarrow> nat \<Rightarrow> string" where
  "group_text s cs k = (case cs k of None \<Rightarrow> [] | Some (i, j) \<Rightarrow> str_between s i j)"

text \<open>\<open>ReplaceAllString\<close> with the empty replacement: what lies between the matches.\<close>

fun cut_spans :: "string \<Rightarrow> nat \<Rightarrow> (nat \<times> nat \<times> caps) list \<Rightarrow> string" where
  "cut_spans s i [] = str_from s i"
| "cut_spans s i ((a, b, _) # ms) = str_between s i a @ cut_spans s b ms"

definition RemoveAllString :: "rx \<Rightarrow> string \<Rightarrow> string" where
  "RemoveAllString r s = cut_spans s 0 (FindAllStringSubmatchIndex r s)"

section \<open>Meaning of patterns\<close>

primrec rx_rel :: "nat list \<Rightarrow> rx \<Rightarrow> nat \<Rightarrow> nat \<Rightarrow> bool" where
  "rx_rel tx REmpty = (=)"
| "rx_rel tx (RClass ci neg rs) = (\<lambda>i j. j = i + 1 \<and> i < length tx \<and> in_class ci neg rs (tx ! i))"
| "rx_rel tx RBegin = (\<lambda>i j. i = 0 \<and> j = 0)"
| "rx_rel tx REnd = (\<lambda>i j. i = length tx \<and> j = i)"
| "rx_rel tx RWordB = (\<lambda>i j. j = i \<and> word_boundary tx i)"
| "rx_rel tx (RCat a b) = rx_rel tx a OO rx_rel tx b"
| "rx_rel tx (RAlt a b) = (\<lambda>i j. rx_rel tx a i j \<or> rx_rel tx b i j)"
| "rx_rel tx (ROpt a) = (\<lambda>i j. rx_rel tx a i j \<or> i = j)"
| "rx_rel tx (RStar a) = (rx_rel tx a)\<^sup>*\<^sup>*"
| "rx_rel tx (RCap k a) = rx_rel tx a"

text \<open>A match never runs backwards and stays inside the text.\<close>

lemma rx_rel_le: "rx_rel tx r i j \<Longrightarrow> i \<le> j"
proof (induction r arbitrary: i j)
  case (RStar r)
  from RStar.prems show ?case
    unfolding rx_rel.simps by (induction rule: rtranclp_induct) (auto dest: RStar.IH)
next
  case (RCat r1 r2)
  then show ?case by (metis le_trans relcompp.cases rx_rel.simps(6))
qed auto

lemma rx_rel_bound: "rx_rel tx r i j \<Longrightarrow> i \<le> length tx \<Longrightarrow> j \<le> length tx"
proof (induction r arbitrary: i j)
  case (RStar r)
  from RStar.prems show ?case
    unfolding rx_rel.simps by (induction rule: rtranclp_induct) (auto dest: RStar.IH)
qed auto

lemma star_ends_sound:
  assumes "\<And>st st'. st' \<in> set (f st) \<Longrightarrow> R (fst st) (fst st')"
  shows "st' \<in> set (star_ends n f st) \<Longrightarrow> R\<^sup>*\<^sup>* (fst st) (fst st')"
proof (induction n arbitrary: st)
  case (Suc n)
  then consider st1 where "st1 \<in> set (f st)" "st' \<in> set (star_ends n f st1)" | "st' = st"
    by auto
  then show ?case
  proof cases
    case 1
    then show ?thesis
      using Suc.IH [of st1] assms [of st1 st] by (simp add: converse_rtranclp_into_rtranclp)
  qed simp
qed simp

text \<open>Iterations that stay in place can be left out of a chain of iterations.\<close>

lemma rtranclp_progress:
  assumes "R\<^sup>*\<^sup>* i j" "\<And>a b. R a b \<Longrightarrow> a \<le> (b :: nat)"
  shows "(\<lambda>a b. R a b \<and> a < b)\<^sup>*\<^sup>* i j"
  using assms(1)
proof (induction rule: rtranclp_induct)
  case (step b c)
  then show ?case
    using assms(2) [OF step(2)] by (cases "b = c") (auto intro: rtranclp.rtrancl_into_rtrancl)
qed simp

lemma star_ends_complete:
  assumes R: "\<And>st k. fst st \<le> m \<Longrightarrow> R (fst st) k \<Longrightarrow> \<exists>cs. (k, cs) \<in> set (f st)"
    and le: "\<And>a b. R a b \<Longrightarrow> a \<le> m \<Longrightarrow> b \<le> (m :: nat)"
    and chain: "(\<lambda>a b. R a b \<and> a < b)\<^sup>*\<^sup>* i j" and "i \<le> m" "m - i \<le> n"
  shows "\<exists>cs'. (j, cs') \<in> set (star_ends n f (i, cs))"
  using chain assms(4,5)
proof (induction arbitrary: n cs rule: converse_rtranclp_induct)
  case base
  then show ?case by (cases n) auto
next
  case (step i k)
  then have k: "R i k" "i < k" "k \<le> m" using le by auto
  with step.prems obtain n' where n: "n = Suc n'" "m - k \<le> n'" by (cases n) auto
  obtain cs1 where "(k, cs1) \<in> set (f (i, cs))" using R [of "(i, cs)" k] k(1) step.prems by auto
  moreover obtain cs2 where "(j, cs2) \<in> set (star_ends n' f (k, cs1))"
    using step.IH [of n' cs1] k(3) n(2) by auto
  ultimately show ?case using k(2) n(1) by force
qed

lemma rx_ends_sound: "st' \<in> set (rx_ends tx r st) \<Longrightarrow> rx_rel tx r (fst st) (fst st')"
proof (induction r arbitrary: st st')
  case (RStar r)
  then show ?case
    using star_ends_sound [of "rx_ends tx r" "rx_rel tx r"] by simp
next
  case (RCat r1 r2)
  from RCat.prems obtain st1 where "st1 \<in> set (rx_ends tx r1 st)" "st' \<in> set (rx_ends tx r2 st1)"
    by auto
  then show ?case
    using RCat.IH(1) [of st1 st] RCat.IH(2) [of st' st1] by auto
next
  case (RAlt r1 r2)
  from RAlt.prems show ?case
    using RAlt.IH(1) [of st' st] RAlt.IH(2) [of st' st] by auto
next
  case (ROpt r)
  from ROpt.prems show ?case using ROpt.IH [of st' st] by auto
next
  case (RCap k r)
  from RCap.prems obtain cs where "(fst st', cs) \<in> set (rx_ends tx r st)" by auto
  then show ?case using RCap.IH [of "(fst st', cs)" st] by simp
qed (auto split: if_splits)

lemma rx_ends_complete:
  "rx_rel tx r (fst st) j \<Longrightarrow> fst st \<le> length tx \<Longrightarrow> \<exists>cs. (j, cs) \<in> set (rx_ends tx r st)"
proof (induction r arbitrary: st j)
  case (RStar r)
  have chain: "(\<lambda>a b. rx_rel tx r a b \<and> a < b)\<^sup>*\<^sup>* (fst st) j"
    using RStar.prems(1) rx_rel_le by (auto intro!: rtranclp_progress)
  show ?case
    using star_ends_complete [where m = "length tx" and R = "rx_rel tx r" and f = "rx_ends tx r"
        and cs = "snd st" and n = "length tx - fst st", OF _ rx_rel_bound chain] RStar by auto
next
  case (RCat r1 r2)
  then obtain k where k: "rx_rel tx r1 (fst st) k" "rx_rel tx r2 k j" by auto
  then obtain cs where cs: "(k, cs) \<in> set (rx_ends tx r1 st)" using RCat by blast
  have "k \<le> length tx" using k(1) RCat.prems(2) rx_rel_bound by blast
  then obtain cs' where "(j, cs') \<in> set (rx_ends tx r2 (k, cs))" using RCat.IH(2) [of "(k, cs)" j] k(2) by auto
  then show ?case using cs by force
next
  case (RCap k r)
  have "\<exists>cs. (j, cs) \<in> set (rx_ends tx r st)" using RCap.prems RCap.IH [of st j] by simp
  then show ?case by force
next
  case (RAlt r1 r2)
  from RAlt.prems consider "rx_rel tx r1 (fst st) j" | "rx_rel tx r2 (fst st) j" by auto
  then show ?case
    using RAlt.IH(1) [of st j] RAlt.IH(2) [of st j] RAlt.prems(2) by cases auto
next
  case (ROpt r)
  show ?case
  proof (cases "rx_rel tx r (fst st) j")
    case True
    then show ?thesis using ROpt.IH [of st j] ROpt.prems(2) by auto
  next
    case False
    then have "st = (j, snd st)" using ROpt.prems(1) by (auto simp: prod_eq_iff)
    then show ?thesis by (metis in_set_conv_decomp rx_ends.simps(8))
  qed
qed (auto simp: prod_eq_iff)

lemma rx_ends_iff:
  "i \<le> length tx \<Longrightarrow> (\<exists>cs'. (j, cs') \<in> set (rx_ends tx r (i, cs))) \<longleftrightarrow> rx_rel tx r i j"
  using rx_ends_sound [of "(j, _)" tx r "(i, cs)"] rx_ends_complete [of tx r "(i, cs)" j] by auto

lemma rx_ends_Nil_iff:
  assumes "i \<le> length tx"
  shows "rx_ends tx r (i, cs) = [] \<longleftrightarrow> (\<forall>j. \<not> rx_rel tx r i j)"
proof (cases "rx_ends tx r (i, cs)")
  case Nil
  then show ?thesis using rx_ends_iff [OF assms, where r = r and cs = cs] by simp
next
  case (Cons st sts)
  then show ?thesis using rx_ends_sound [of st tx r "(i, cs)"] by auto
qed

subsection \<open>Searching\<close>

lemma rx_find_from_None:
  "i + n \<le> length tx \<Longrightarrow>
     rx_find_from tx r i n = None \<longleftrightarrow> (\<forall>k j. i \<le> k \<and> k \<le> i + n \<longrightarrow> \<not> rx_rel tx r k j)"
proof (induction n arbitrary: i)
  case 0
  then show ?case
    using rx_ends_Nil_iff [of i tx r "\<lambda>_. None"]
    by (subst rx_find_from.simps) (auto split: list.splits)
next
  case (Suc n)
  have "(\<forall>k j. i \<le> k \<and> k \<le> i + Suc n \<longrightarrow> \<not> rx_rel tx r k j) \<longleftrightarrow>
      (\<forall>j. \<not> rx_rel tx r i j) \<and> (\<forall>k j. i + 1 \<le> k \<and> k \<le> i + 1 + n \<longrightarrow> \<not> rx_rel tx r k j)"
    (is "?L \<longleftrightarrow> ?P \<and> ?Q")
  proof
    assume ?L
    then show "?P \<and> ?Q" by auto
  next
    assume R: "?P \<and> ?Q"
    show ?L
    proof (intro allI impI)
      fix k j
      assume "i \<le> k \<and> k \<le> i + Suc n"
      then show "\<not> rx_rel tx r k j" using R by (cases "k = i") auto
    qed
  qed
  then show ?case
    using Suc rx_ends_Nil_iff [of i tx r "\<lambda>_. None"]
    by (subst rx_find_from.simps) (auto split: list.splits)
qed

text \<open>\<open>MatchString\<close> decides whether the pattern matches anywhere.\<close>

lemma rx_find_None: "rx_find tx r 0 = None \<longleftrightarrow> (\<forall>i j. i \<le> length tx \<longrightarrow> \<not> rx_rel tx r i j)"
  using rx_find_from_None [of 0 "length tx" tx r] by (simp add: rx_find_def)

lemma MatchString_iff: "MatchString r s \<longleftrightarrow> (\<exists>i j. i \<le> length (runes s) \<and> rx_rel (runes s) r i j)"
  by (auto simp: MatchString_def rx_find_None)

lemma rx_find_from_Some:
  "rx_find_from tx r i n = Some (a, b, cs) \<Longrightarrow>
     i \<le> a \<and> a \<le> i + n \<and> (b, cs) \<in> set (rx_ends tx r (a, \<lambda>_. None))"
proof (induction n arbitrary: i)
  case 0
  then show ?case
    by (subst (asm) rx_find_from.simps) (auto split: list.splits)
next
  case (Suc n)
  show ?case
  proof (cases "rx_ends tx r (i, \<lambda>_. None)")
    case Nil
    then have "rx_find_from tx r (i + 1) n = Some (a, b, cs)"
      using Suc.prems by (subst (asm) rx_find_from.simps) simp
    from Suc.IH [OF this] show ?thesis by simp
  next
    case (Cons st sts)
    then show ?thesis
      using Suc.prems by (subst (asm) rx_find_from.simps) (auto split: prod.splits)
  qed
qed

lemma rx_find_Some:
  assumes "rx_find tx r i = Some (a, b, cs)"
  shows "i \<le> a" "a \<le> length tx" "(b, cs) \<in> set (rx_ends tx r (a, \<lambda>_. None))" "rx_rel tx r a b"
    "a \<le> b" "b \<le> length tx"
proof -
  show 1: "i \<le> a" "a \<le> length tx" "(b, cs) \<in> set (rx_ends tx r (a, \<lambda>_. None))"
    using assms rx_find_from_Some [of tx r i "length tx - i" a b cs]
    by (auto simp: rx_find_def split: if_splits)
  show rel: "rx_rel tx r a b" using rx_ends_sound [OF 1(3)] by simp
  show "a \<le> b" using rel rx_rel_le by blast
  show "b \<le> length tx" using rel 1(2) rx_rel_bound by blast
qed

lemma rx_find_here:
  "rx_ends tx r (i, \<lambda>_. None) = (j, cs) # sts \<Longrightarrow> i \<le> length tx \<Longrightarrow> rx_find tx r i = Some (i, j, cs)"
  by (simp add: rx_find_def rx_find_from.simps)

lemma rx_find_unique:
  assumes ends: "\<And>j cs. (j, cs) \<in> set (rx_ends tx r (i, \<lambda>_. None)) \<Longrightarrow> j = b \<and> cs = c"
    and rel: "rx_rel tx r i b" and i: "i \<le> length tx"
  shows "rx_find tx r i = Some (i, b, c)"
proof (cases "rx_ends tx r (i, \<lambda>_. None)")
  case Nil
  then show ?thesis using rel i rx_ends_Nil_iff by blast
next
  case (Cons st sts)
  then have "st = (b, c)" using ends [of "fst st" "snd st"] by auto
  then show ?thesis using rx_find_here [OF _ i] Cons by simp
qed

text \<open>A search starts where the first match is.\<close>

lemma rx_find_from_skip:
  "\<forall>k j. i \<le> k \<and> k < i + m \<longrightarrow> \<not> rx_rel tx r k j \<Longrightarrow> i + m + n \<le> length tx \<Longrightarrow>
     rx_find_from tx r i (m + n) = rx_find_from tx r (i + m) n"
proof (induction m arbitrary: i)
  case (Suc m)
  have "rx_ends tx r (i, \<lambda>_. None) = []"
    using Suc.prems rx_ends_Nil_iff [of i tx r] by auto
  then have "rx_find_from tx r i (Suc m + n) = rx_find_from tx r (i + 1) (m + n)"
    by (subst rx_find_from.simps) simp
  also have "\<dots> = rx_find_from tx r (i + 1 + m) n"
    using Suc.prems by (intro Suc.IH) auto
  finally show ?case by simp
qed simp

lemma rx_find_skip:
  assumes "\<And>k j. i \<le> k \<Longrightarrow> k < m \<Longrightarrow> \<not> rx_rel tx r k j" "i \<le> m" "m \<le> length tx"
  shows "rx_find tx r i = rx_find tx r m"
  using rx_find_from_skip [of i "m - i" tx r "length tx - m"] assms by (simp add: rx_find_def)

lemma rx_find_all_None: "rx_find tx r i = None \<Longrightarrow> rx_find_all n tx r i = []"
  by (cases n) auto

lemma str_from_0 [simp]: "str_from s 0 = s"
  by (simp add: str_from_def)

lemma RemoveAllString_none: "\<not> MatchString r s \<Longrightarrow> RemoveAllString r s = s"
  by (simp add: MatchString_def RemoveAllString_def FindAllStringSubmatchIndex_def rx_find_all_None
      del: not_None_eq)

subsection \<open>Groups\<close>

lemma rx_ends_RCat:
  "st' \<in> set (rx_ends tx (RCat a b) st) \<longleftrightarrow> (\<exists>st1. st1 \<in> set (rx_ends tx a st) \<and> st' \<in> set (rx_ends tx b st1))"
  by auto

lemma rx_ends_RCap:
  "st' \<in> set (rx_ends tx (RCap k a) st) \<longleftrightarrow>
     (\<exists>st1. st1 \<in> set (rx_ends tx a st) \<and> st' = (fst st1, (snd st1)(k := Some (fst st, fst st1))))"
  by (force simp: split_beta)

primrec rx_groups :: "rx \<Rightarrow> nat set" where
  "rx_groups REmpty = {}"
| "rx_groups (RClass ci neg rs) = {}"
| "rx_groups RBegin = {}"
| "rx_groups REnd = {}"
| "rx_groups RWordB = {}"
| "rx_groups (RCat a b) = rx_groups a \<union> rx_groups b"
| "rx_groups (RAlt a b) = rx_groups a \<union> rx_groups b"
| "rx_groups (ROpt a) = rx_groups a"
| "rx_groups (RStar a) = rx_groups a"
| "rx_groups (RCap k a) = insert k (rx_groups a)"

lemma star_ends_caps:
  assumes "\<And>st st'. st' \<in> set (f st) \<Longrightarrow> snd st' k = snd st k"
  shows "st' \<in> set (star_ends n f st) \<Longrightarrow> snd st' k = snd st k"
proof (induction n arbitrary: st)
  case (Suc n)
  then consider st1 where "st1 \<in> set (f st)" "st' \<in> set (star_ends n f st1)" | "st' = st"
    by auto
  then show ?case
  proof cases
    case 1
    then show ?thesis using Suc.IH [of st1] assms [of st1 st] by simp
  qed simp
qed simp

text \<open>A pattern without the group \<open>k\<close> leaves it as it is.\<close>

lemma rx_ends_caps:
  "st' \<in> set (rx_ends tx r st) \<Longrightarrow> k \<notin> rx_groups r \<Longrightarrow> snd st' k = snd st k"
proof (induction r arbitrary: st st')
  case (RStar r)
  show ?case
  proof (rule star_ends_caps [of "rx_ends tx r" k])
    show "snd st2 k = snd st1 k" if "st2 \<in> set (rx_ends tx r st1)" for st1 st2
      using that RStar.prems(2) by (intro RStar.IH) simp_all
    show "st' \<in> set (star_ends (length tx - fst st) (rx_ends tx r) st)" using RStar.prems(1) by simp
  qed
next
  case (RCat r1 r2)
  from RCat.prems(1) obtain st1 where "st1 \<in> set (rx_ends tx r1 st)" "st' \<in> set (rx_ends tx r2 st1)"
    by auto
  then show ?case using RCat.IH(1) [of st1 st] RCat.IH(2) [of st' st1] RCat.prems(2) by simp
next
  case (RAlt r1 r2)
  from RAlt.prems show ?case using RAlt.IH(1) [of st' st] RAlt.IH(2) [of st' st] by auto
next
  case (ROpt r)
  from ROpt.prems show ?case using ROpt.IH [of st' st] by auto
next
  case (RCap l r)
  from RCap.prems(1) obtain cs where "(fst st', cs) \<in> set (rx_ends tx r st)" "snd st' = cs(l := Some (fst st, fst st'))"
    by auto
  then show ?case using RCap.IH [of "(fst st', cs)" st] RCap.prems(2) by simp
qed (auto split: if_splits)

subsection \<open>Repeated classes\<close>

lemma star_class_rel:
  "rx_rel tx (RStar (RClass ci neg rs)) i j \<longleftrightarrow>
     i \<le> j \<and> (i < j \<longrightarrow> j \<le> length tx) \<and> (\<forall>k. i \<le> k \<and> k < j \<longrightarrow> in_class ci neg rs (tx ! k))"
  (is "_ \<longleftrightarrow> ?S i j")
proof
  assume "rx_rel tx (RStar (RClass ci neg rs)) i j"
  then show "?S i j"
    unfolding rx_rel.simps by (induction rule: rtranclp_induct) (auto simp: less_Suc_eq)
next
  assume S: "?S i j"
  then show "rx_rel tx (RStar (RClass ci neg rs)) i j"
  proof (induction "j - i" arbitrary: j)
    case (Suc d)
    then obtain j' where j: "j = Suc j'" "i \<le> j'" by (cases j) auto
    have "rx_rel tx (RStar (RClass ci neg rs)) i j'"
      using Suc.hyps(2) Suc.prems j by (intro Suc.hyps(1)) auto
    moreover have "rx_rel tx (RClass ci neg rs) j' j"
      using Suc.prems j by auto
    ultimately show ?case
      unfolding rx_rel.simps(9) by (rule rtranclp.rtrancl_into_rtrancl)
  qed simp
qed

lemma all_from: "i < j \<Longrightarrow> (\<forall>k. i \<le> k \<and> k < j \<longrightarrow> P k) \<longleftrightarrow> P i \<and> (\<forall>k. Suc i \<le> k \<and> k < (j :: nat) \<longrightarrow> P k)"
  by (metis Suc_leI Suc_leD le_eq_less_or_eq)

lemma upto_class_rel:
  "rx_rel tx (RUpTo n (RClass ci neg rs)) i j \<longleftrightarrow>
     i \<le> j \<and> j \<le> i + n \<and> (i < j \<longrightarrow> j \<le> length tx) \<and> (\<forall>k. i \<le> k \<and> k < j \<longrightarrow> in_class ci neg rs (tx ! k))"
proof (induction n arbitrary: i)
  case (Suc n)
  let ?P = "\<lambda>k. in_class ci neg rs (tx ! k)"
  have step: "rx_rel tx (RUpTo (Suc n) (RClass ci neg rs)) i j \<longleftrightarrow>
      i < length tx \<and> ?P i \<and> rx_rel tx (RUpTo n (RClass ci neg rs)) (Suc i) j \<or> i = j"
    by auto
  show ?case
  proof (cases "i < j")
    case True
    then show ?thesis unfolding step Suc.IH using all_from [OF True, of ?P] by (auto simp del: Suc_le_eq)
  next
    case False
    then show ?thesis unfolding step Suc.IH by auto
  qed
qed auto

section \<open>Texts that start with ASCII\<close>

lemma segs_ascii_append:
  "list_all (\<lambda>c. code c < 128) p \<Longrightarrow> segs (p @ q) = map (\<lambda>c. (code c, [c])) p @ segs q"
  by (induction p) (simp_all add: segs_ascii)

lemma runes_ascii_append:
  "list_all (\<lambda>c. code c < 128) p \<Longrightarrow> runes (p @ q) = map of_char p @ runes q"
  by (simp add: runes_def segs_ascii_append)

lemma concat_singletons [simp]: "concat (map (\<lambda>x. [f x]) xs) = map f xs"
  by (induction xs) auto

lemma str_between_ascii:
  "list_all (\<lambda>c. code c < 128) p \<Longrightarrow> j \<le> length p \<Longrightarrow> str_between (p @ q) i j = take (j - i) (drop i p)"
  by (cases "i \<le> j") (simp_all add: str_between_def segs_ascii_append take_map drop_map o_def)

lemma str_between_ascii_long:
  "list_all (\<lambda>c. code c < 128) p \<Longrightarrow> length p \<le> j \<Longrightarrow> str_between (p @ q) 0 j = p @ str_between q 0 (j - length p)"
  by (simp add: str_between_def segs_ascii_append o_def)

lemma str_from_ascii:
  "list_all (\<lambda>c. code c < 128) p \<Longrightarrow> j \<le> length p \<Longrightarrow> str_from (p @ q) j = drop j p @ q"
  by (simp add: str_from_def segs_ascii_append drop_map o_def)

text \<open>A rune below 128 is one byte, so a stretch of such runes is as long as its text.\<close>

lemma segs_low:
  "i < length (segs s) \<Longrightarrow> fst (segs s ! i) < 128 \<Longrightarrow> snd (segs s ! i) = [char_of (fst (segs s ! i))]"
proof (induction s arbitrary: i rule: segs_induct)
  case (Step s)
  show ?case
  proof (cases i)
    case 0
    then have "fst (DecodeRune s) < 128" using Step.prems Step.hyps by (simp add: segs_step)
    then have "code (hd s) < 128" using Step.hyps DecodeRune_ascii_iff by blast
    then have "DecodeRune s = (code (hd s), 1)" using Step.hyps DecodeRune_ascii by blast
    then show ?thesis using 0 Step.hyps by (cases s) (simp_all add: segs_step)
  next
    case (Suc k)
    then show ?thesis using Step by (simp add: segs_step)
  qed
qed simp

lemma str_between_low:
  assumes "\<forall>k. i \<le> k \<and> k < j \<longrightarrow> runes s ! k < 128" "i \<le> j" "j \<le> length (runes s)"
  shows "str_between s i j = map char_of (take (j - i) (drop i (runes s)))"
proof -
  have "map snd (take (j - i) (drop i (segs s))) = map (\<lambda>r. [char_of r]) (take (j - i) (drop i (runes s)))"
    using assms by (intro nth_equalityI) (auto simp: runes_def segs_low)
  then show ?thesis by (simp add: str_between_def)
qed

end
