(* ===== verification/AnimeDetect.thy ===== *)
theory AnimeDetect
  imports GoRegexp "HOL-Library.Sublist"
begin

text \<open>
  The anime detector of \<open>internal/anime\<close>: the signals read off a release name (\<open>detect.go\<close>) and the
  audio-language test of the content filter (\<open>audiolang.go\<close>).
  The patterns are written out as syntax trees. The only parameter is the lower-case mapping of
  strings that are not ASCII.
\<close>

section \<open>Signals\<close>

record Signals =
  FansubGroup :: string
  LeadingLatinGroup :: string
  AbsoluteEpisode :: int
  AbsoluteRange :: bool
  SeasonMarker :: bool
  EnglishTrack :: bool
  EnglishAudioSignal :: bool
  EnglishSubSignal :: bool

definition IsAnime :: "Signals \<Rightarrow> bool" where
  "IsAnime s =
     (if FansubGroup s \<noteq> [] then True
      else if LeadingLatinGroup s \<noteq> [] \<and> (0 < AbsoluteEpisode s \<or> SeasonMarker s \<or> EnglishTrack s) then True
      else False)"

definition IsAnimeIndependentOfAbsolute :: "Signals \<Rightarrow> bool" where
  "IsAnimeIndependentOfAbsolute s =
     (if FansubGroup s \<noteq> [] then True else LeadingLatinGroup s \<noteq> [] \<and> (SeasonMarker s \<or> EnglishTrack s))"

definition IsKnownFansub :: "Signals \<Rightarrow> bool" where
  "IsKnownFansub s \<longleftrightarrow> FansubGroup s \<noteq> []"

section \<open>The allowlist of groups\<close>

definition fansubGroupNames :: "string list" where
  "fansubGroupNames = [
     ''SubsPlease'', ''Erai-raws'', ''HorribleSubs'', ''Judas'', ''ASW'', ''EMBER'',
     ''Anime Time'', ''Ohys-Raws'', ''Commie'', ''GJM'', ''Doki'', ''Chihiro'', ''Cleo'',
     ''Kaleido'', ''Kaleido-subs'', ''SSA'', ''Kametsu'', ''Beatrice-Raws'', ''Yameii'',
     ''VARYG'', ''NanDesuKa'', ''DKB'', ''URANIME'', ''ToonsHub'', ''Sokudo'', ''Aergia'',
     ''Lycoris'', ''Crymore'', ''Nep_Blanc'', ''Coalgirls'', ''VCB-Studio'', ''MTBB'',
     ''no-raws'', ''One Pace'', ''Arid'', ''smol'',
     ''AnimeRG'', ''BlackRabbit'', ''Breeze'', ''DragsterPS'', ''Dynamis One'',
     ''KawaSubs'', ''Kosaka'', ''LostYears'', ''NeoLX'', ''Raze'', ''Subeteka'',
     ''SubsMix'', ''Trix'', ''VON'', ''neoDESU'', ''neoHEVC'',
     ''TRC'', ''Golumpa'',
     ''NanakoRaws'', ''AsukaRaws'', ''New-raws'', ''shincaps'']"

text \<open>\<open>normGroup\<close>: lower case, surrounding space and all separators removed.\<close>

definition normGroup :: "(string \<Rightarrow> string) \<Rightarrow> string \<Rightarrow> string" where
  "normGroup uni s = filter (\<lambda>c. c \<notin> {CHR ''-'', CHR ''_'', CHR '' '', CHR ''.''}) (ToLower uni (TrimSpace s))"

definition knownFansubGroups :: "(string \<Rightarrow> string) \<Rightarrow> string list" where
  "knownFansubGroups uni = map (normGroup uni) fansubGroupNames"

definition canonicalFansubName :: "(string \<Rightarrow> string) \<Rightarrow> string \<Rightarrow> string option" where
  "canonicalFansubName uni = map_of (rev (map (\<lambda>g. (normGroup uni g, g)) fansubGroupNames))"

definition rawFansubGroups :: "(string \<Rightarrow> string) \<Rightarrow> string list" where
  "rawFansubGroups uni = map (normGroup uni)
     [''Ohys-Raws'', ''Beatrice-Raws'', ''no-raws'', ''VCB-Studio'', ''NanakoRaws'', ''AsukaRaws'',
      ''New-raws'', ''shincaps'']"

definition dubFansubGroups :: "(string \<Rightarrow> string) \<Rightarrow> string list" where
  "dubFansubGroups uni = map (normGroup uni) [''Yameii'', ''TRC'', ''Golumpa'']"

section \<open>Patterns of \<open>detect.go\<close>\<close>

text \<open>The optional separator \<open>[ ._-]?\<close>.\<close>

definition opt_sep :: rx where
  "opt_sep = ROpt (RChars True '' ._-'')"

definition bracketTokenRe :: rx where
  "bracketTokenRe = RCats [RStr False ''['', RCap 1 (RPlus (RNotChars False '']'')), RStr False '']'']"

definition leadingBracketRe :: rx where
  "leadingBracketRe = RCats [RBegin, RStar RSpace, RStr False ''['', RCap 1 (RPlus (RNotChars False '']'')), RStr False '']'']"

definition absoluteEpRe :: rx where
  "absoluteEpRe = RCats [RAlts [RBegin, RSpace], RStr False ''-'', RSpace, RCap 1 (RRepeat 1 4 RDigit),
     ROpt (RCats [RStr False ''v'', RDigit]), RAlts [RSpace, REnd, RChars False ''[(.'']]"

definition absoluteRangeTailRe :: rx where
  "absoluteRangeTailRe = RCats [RBegin, ROpt (RCats [RStr False ''v'', RDigit]), RStar RSpace,
     RAlts [RCats [RChars False ''~-'', RStar RSpace, RDigit], RCats [RStr False ''.'', RDigit]]]"

definition dateTailRe :: rx where
  "dateTailRe = RCats [RBegin, RStr False ''.'', RRepeat 1 2 RDigit, RStr False ''.'', RRepeat 2 4 RDigit, RWordB]"

definition sceneDateRe :: rx where
  "sceneDateRe = RCats [RWordB, RRepeat 1 2 RDigit, RStr False ''.'', RRepeat 1 2 RDigit, RStr False ''.'',
     RRepeat 2 4 RDigit, RWordB]"

definition englishTrackRe :: rx where
  "englishTrackRe = RCap 1 (RAlts [
     RCats [RStr True ''dual'', opt_sep, RStr True ''audio''],
     RCats [RStr True ''multi'', opt_sep, RStr True ''audio''],
     RCats [RStr True ''eng'', ROpt (RStr True ''lish''), opt_sep, RAlts [RStr True ''dub'', RStr True ''sub''], ROpt (RStr True ''s'')],
     RCats [RStr True ''multi'', opt_sep, RStr True ''sub'', ROpt (RStr True ''s'')],
     RCats [RStr True ''multiple'', opt_sep, RStr True ''subtitle''],
     RStr True ''[dual]''])"

definition englishAudioAnchoredRe :: rx where
  "englishAudioAnchoredRe = RCap 1 (RAlts [
     RCats [RStr True ''eng'', ROpt (RStr True ''lish''), opt_sep, RStr True ''dub'', ROpt (RStr True ''bed''), ROpt (RStr True ''s'')],
     RCats [RChars True ''[('', RStr True ''dub'', RChars True ''])''],
     RCats [RStr True ''english'', opt_sep, RStr True ''audio'']])"

definition genericAudioRe :: rx where
  "genericAudioRe = RAlts [
     RCats [RStr True ''dual'', opt_sep, RStr True ''audio''],
     RCats [RStr True ''multi'', opt_sep, RStr True ''audio''],
     RStr True ''[dual]'']"

definition namedAudioListRe :: rx where
  "namedAudioListRe = RCats [RAlts [RStr True ''dual'', RStr True ''multi''], opt_sep, RStr True ''audio'',
     RStar (RChars True '' ._:=-''), RChars True ''[('', RCap 1 (RPlus (RNotChars True ''])'')), RChars True ''])'']"

definition namedAudioEnglishRe :: rx where
  "namedAudioEnglishRe = RCats [RWordB, RAlts [RStr True ''eng'', RStr True ''english'', RStr True ''en''], RWordB]"

definition englishAudioBareRe :: rx where
  "englishAudioBareRe = RCats [RWordB, RStr True ''dubbed'', RWordB]"

definition englishSubAnchoredRe :: rx where
  "englishSubAnchoredRe = RCap 1 (RAlts [
     RCats [RStr True ''eng'', ROpt (RStr True ''lish''), opt_sep, RStr True ''sub'', ROpt (RStr True ''s'')],
     RCats [RStr True ''multi'', opt_sep, RStr True ''sub'', ROpt (RStr True ''s'')],
     RCats [RStr True ''multiple'', opt_sep, RStr True ''subtitle''],
     RCats [RChars True ''[('', ROpt (RStr True ''eng''), RStr True ''sub'', ROpt (RStr True ''s''), RChars True ''])''],
     RCats [RStr True ''soft'', opt_sep, RStr True ''sub'', ROpt (RStr True ''s'')]])"

definition englishSubBareRe :: rx where
  "englishSubBareRe = RCats [RWordB, RStr True ''subbed'', RWordB]"

definition nonEnglishTrackRe :: rx where
  "nonEnglishTrackRe = RCats [
     RCap 1 (RAlts (map (RStr True) [''hindi'', ''tamil'', ''telugu'', ''kannada'', ''malayalam'', ''bengali'',
       ''french'', ''german'', ''spanish'', ''castellano'', ''italian'', ''portuguese'', ''russian'', ''polish'',
       ''arabic'', ''latino''])),
     RRepeat 0 2 (RChars True '' ._-''), RCap 2 (RAlts [RStr True ''dub'', RStr True ''sub'']),
     ROpt (RStr True ''bed''), ROpt (RStr True ''s''), RWordB]"

definition seasonMarkerRe :: rx where
  "seasonMarkerRe = RCap 1 (RAlts [
     RCats [RWordB, RDigit, RAlts (map (RStr True) [''st'', ''nd'', ''rd'', ''th'']), RStr True '' season'', RWordB],
     RCats [RWordB, RStr True ''cour'', ROpt (RStr True '' ''), RDigit, RWordB],
     RCats [RWordB, RStr True ''part '', RDigit, RWordB],
     RCats [RWordB, RStr True ''final season'', RWordB]])"

definition asciiLetterRe :: rx where
  "asciiLetterRe = RClass False False [(65, 90), (97, 122)]"

definition resolutionHeights :: "int list" where
  "resolutionHeights = [360, 480, 540, 576, 720, 1080, 1440, 2160, 4320]"

section \<open>Patterns of \<open>audiolang.go\<close>\<close>

text \<open>A token between runes that are not letters or the ends of the text.\<close>

definition scene_token :: "rx list \<Rightarrow> rx" where
  "scene_token ts = RCats [RAlts [RBegin, RClass True True [(97, 122)]], RCap 1 (RAlts ts),
     RAlts [RClass True True [(97, 122)], REnd]]"

definition foreignAudioRe :: rx where
  "foreignAudioRe = scene_token [RStr True ''dublado'', RStr True ''lektor'', RStr True ''dubbing.pl'',
     RCats [RStr True ''pl'', ROpt (RStr True ''-''), RStr True ''dub''], RStr True ''truefrench'',
     RStr True ''vff'', RStr True ''vfq'', RStr True ''vfi'', RStr True ''vf2'', RStr True ''castellano'',
     RStr True ''dublaj'']"

definition foreignDubCompoundRe :: rx where
  "foreignDubCompoundRe = RCats [
     RCap 1 (RAlts (map (RStr True) [''hindi'', ''tamil'', ''telugu'', ''kannada'', ''malayalam'', ''bengali'',
       ''french'', ''german'', ''spanish'', ''castellano'', ''italian'', ''portuguese'', ''russian'', ''polish'',
       ''arabic'', ''latino'', ''turkish''])),
     RRepeat 0 2 (RChars True '' ._-''), RStr True ''dub'', ROpt (RStr True ''bed''), ROpt (RStr True ''s''), RWordB]"

definition foreignSubtitleRe :: rx where
  "foreignSubtitleRe = scene_token (map (RStr True) [''vostfr'', ''legendado'', ''napisy'', ''nlsubbed'', ''nlsubs'',
     ''swesub'', ''dksub'', ''norsub'', ''finsub'', ''italiansubs'', ''subspedia'', ''altyazili''])"

definition englishEvidenceRe :: rx where
  "englishEvidenceRe = scene_token (map (RStr True) [''eng'', ''english'', ''en'', ''multi''])"

definition foreignAudioMarker :: "string \<Rightarrow> bool" where
  "foreignAudioMarker name = (MatchString foreignAudioRe name \<or> MatchString foreignDubCompoundRe name)"

definition explicitForeignTrack :: "string \<Rightarrow> bool" where
  "explicitForeignTrack name =
     (foreignAudioMarker name \<or> MatchString foreignSubtitleRe name \<or> MatchString nonEnglishTrackRe name)"

section \<open>Detection\<close>

definition isLatinScript :: "string \<Rightarrow> bool" where
  "isLatinScript s = (list_all (\<lambda>r. r \<le> 127) (runes s) \<and> MatchString asciiLetterRe s)"

text \<open>\<open>atoi\<close>: 0 as soon as a byte is not a digit. It is applied to at most four digits.\<close>

fun atoi_loop :: "int \<Rightarrow> string \<Rightarrow> int" where
  "atoi_loop n [] = n"
| "atoi_loop n (c # s) =
     (if code c < 48 \<or> 57 < code c then 0 else atoi_loop (n * 10 + int (code c - 48)) s)"

definition atoi :: "string \<Rightarrow> int" where
  "atoi s = atoi_loop 0 s"

definition strings_Contains :: "string \<Rightarrow> string \<Rightarrow> bool" where
  "strings_Contains s p = sublist p s"

definition namedEnglishAudio :: "(string \<Rightarrow> string) \<Rightarrow> string \<Rightarrow> bool" where
  "namedEnglishAudio uni name =
     list_ex (\<lambda>(a, b, cs). let m1 = group_text name cs 1 in
         \<not> strings_Contains (ToLower uni m1) ''sub'' \<and> MatchString namedAudioEnglishRe m1)
       (FindAllStringSubmatchIndex namedAudioListRe name)"

text \<open>The first loop of \<open>Detect\<close>: the first bracketed token that names a known group.\<close>

fun find_group :: "(string \<Rightarrow> string) \<Rightarrow> string \<Rightarrow> (nat \<times> nat \<times> caps) list \<Rightarrow> string" where
  "find_group uni name [] = []"
| "find_group uni name ((a, b, cs) # ms) =
     (let g = normGroup uni (group_text name cs 1) in
      if g \<in> set (knownFansubGroups uni) then g else find_group uni name ms)"

definition leading_group :: "string \<Rightarrow> string" where
  "leading_group name =
     (case FindStringSubmatchIndex leadingBracketRe name of
        None \<Rightarrow> []
      | Some (a, b, cs) \<Rightarrow>
          let inner = TrimSpace (group_text name cs 1) in
          if isLatinScript inner \<and> \<not> MatchString sceneDateRe name then inner else [])"

definition absolute_episode :: "string \<Rightarrow> int \<times> bool" where
  "absolute_episode name =
     (case FindStringSubmatchIndex absoluteEpRe name of
        None \<Rightarrow> (0, False)
      | Some (a, b, cs) \<Rightarrow>
          let n = atoi (group_text name cs 1);
              tail = (case cs 1 of None \<Rightarrow> [] | Some (i, j) \<Rightarrow> str_from name j) in
          if 0 < n \<and> n \<notin> set resolutionHeights \<and> \<not> (1900 \<le> n \<and> n \<le> 2099) \<and> \<not> MatchString dateTailRe tail
          then (n, MatchString absoluteRangeTailRe tail) else (0, False))"

text \<open>What the name itself advertises about English audio and subtitles.\<close>

definition explicit_audio :: "(string \<Rightarrow> string) \<Rightarrow> string \<Rightarrow> bool" where
  "explicit_audio uni name =
     (MatchString englishAudioAnchoredRe name \<or> namedEnglishAudio uni name \<or>
      (MatchString englishAudioBareRe name \<and> \<not> MatchString nonEnglishTrackRe name))"

definition explicit_sub :: "string \<Rightarrow> bool" where
  "explicit_sub name =
     (MatchString englishSubAnchoredRe name \<or>
      (MatchString englishSubBareRe name \<and> \<not> MatchString nonEnglishTrackRe name))"

definition Detect :: "(string \<Rightarrow> string) \<Rightarrow> string \<Rightarrow> Signals" where
  "Detect uni name =
     (let grp = find_group uni name (FindAllStringSubmatchIndex bracketTokenRe name);
          (ep, rng) = absolute_episode name;
          audio = explicit_audio uni name;
          sub = explicit_sub name;
          s = \<lparr>FansubGroup = grp, LeadingLatinGroup = leading_group name, AbsoluteEpisode = ep, AbsoluteRange = rng,
               SeasonMarker = MatchString seasonMarkerRe name, EnglishTrack = MatchString englishTrackRe name,
               EnglishAudioSignal = audio, EnglishSubSignal = sub\<rparr> in
      if FansubGroup s \<noteq> [] \<and> \<not> EnglishAudioSignal s \<and> \<not> EnglishSubSignal s \<and>
         \<not> explicitForeignTrack name \<and> \<not> MatchString genericAudioRe name
      then (if FansubGroup s \<in> set (rawFansubGroups uni) then s
            else if FansubGroup s \<in> set (dubFansubGroups uni) then s\<lparr>EnglishAudioSignal := True\<rparr>
            else s\<lparr>EnglishSubSignal := True\<rparr>)
      else s)"

definition KnownGroup :: "(string \<Rightarrow> string) \<Rightarrow> string \<Rightarrow> string" where
  "KnownGroup uni name =
     (let fg = FansubGroup (Detect uni name) in
      if fg = [] then [] else (case canonicalFansubName uni fg of Some canon \<Rightarrow> canon | None \<Rightarrow> fg))"

definition ForeignAudioOnly :: "(string \<Rightarrow> string) \<Rightarrow> string \<Rightarrow> bool" where
  "ForeignAudioOnly uni name =
     (if MatchString genericAudioRe name then False
      else if \<not> foreignAudioMarker name then False
      else if MatchString englishEvidenceRe name then False
      else let s = Detect uni name in \<not> EnglishAudioSignal s \<and> \<not> EnglishSubSignal s)"

section \<open>The signals of a name\<close>

text \<open>The fallback of \<open>Detect\<close>: when the group alone decides, and what it decides.\<close>

definition group_decides :: "(string \<Rightarrow> string) \<Rightarrow> string \<Rightarrow> bool" where
  "group_decides uni name \<longleftrightarrow>
     FansubGroup (Detect uni name) \<noteq> [] \<and> \<not> explicit_audio uni name \<and> \<not> explicit_sub name \<and>
     \<not> explicitForeignTrack name \<and> \<not> MatchString genericAudioRe name \<and>
     FansubGroup (Detect uni name) \<notin> set (rawFansubGroups uni)"

lemma Detect_fields:
  "FansubGroup (Detect uni name) = find_group uni name (FindAllStringSubmatchIndex bracketTokenRe name)"
  "LeadingLatinGroup (Detect uni name) = leading_group name"
  "AbsoluteEpisode (Detect uni name) = fst (absolute_episode name)"
  "AbsoluteRange (Detect uni name) = snd (absolute_episode name)"
  by (simp_all add: Detect_def Let_def split_beta)

lemma Detect_English:
  "EnglishAudioSignal (Detect uni name) \<longleftrightarrow>
     explicit_audio uni name \<or> group_decides uni name \<and> FansubGroup (Detect uni name) \<in> set (dubFansubGroups uni)"
  "EnglishSubSignal (Detect uni name) \<longleftrightarrow>
     explicit_sub name \<or> group_decides uni name \<and> FansubGroup (Detect uni name) \<notin> set (dubFansubGroups uni)"
  unfolding group_decides_def Detect_fields by (auto simp: Detect_def Let_def split_beta split: if_splits)

subsection \<open>Absolute episode numbers\<close>

lemma atoi_loop_bound: "0 \<le> n \<Longrightarrow> 0 \<le> atoi_loop n s \<and> atoi_loop n s < (n + 1) * 10 ^ length s"
proof (induction s arbitrary: n)
  case (Cons c s)
  show ?case
  proof (cases "code c < 48 \<or> 57 < code c")
    case True
    then show ?thesis using Cons.prems by (auto simp: zero_less_mult_iff)
  next
    case False
    then have d: "int (code c - 48) \<le> 9" by auto
    have "atoi_loop (n * 10 + int (code c - 48)) s < (n * 10 + int (code c - 48) + 1) * 10 ^ length s"
      using Cons.IH [of "n * 10 + int (code c - 48)"] Cons.prems by simp
    also have "\<dots> \<le> (n + 1) * 10 ^ length (c # s)"
      using d by (simp add: mult.assoc [symmetric] mult_right_mono del: of_nat_diff)
    finally show ?thesis using False Cons.IH [of "n * 10 + int (code c - 48)"] Cons.prems by simp
  qed
qed simp

text \<open>The runes of \<open>\s\<close> and \<open>\d\<close>.\<close>

definition space_rune :: "nat \<Rightarrow> bool" where
  "space_rune r \<longleftrightarrow> r \<in> {9, 10, 12, 13, 32}"

lemma in_class_simps:
  "in_class False False [(48, 57)] r \<longleftrightarrow> 48 \<le> r \<and> r \<le> 57"
  "in_class False False [(c, c)] r \<longleftrightarrow> r = c"
  "in_class False True [(c, c)] r \<longleftrightarrow> r \<noteq> c"
  "in_class False False [(9, 10), (12, 13), (32, 32)] r \<longleftrightarrow> space_rune r"
  by (auto simp: in_class_def in_ranges_def space_rune_def)

lemma basic_rel:
  "rx_rel tx RSpace i j \<longleftrightarrow> j = Suc i \<and> i < length tx \<and> space_rune (tx ! i)"
  "rx_rel tx RDigit i j \<longleftrightarrow> j = Suc i \<and> i < length tx \<and> 48 \<le> tx ! i \<and> tx ! i \<le> 57"
  "rx_rel tx (RStr False [c]) i j \<longleftrightarrow> j = Suc i \<and> i < length tx \<and> tx ! i = code c"
  by (auto simp: RSpace_def RDigit_def RStr_def in_class_simps)

text \<open>The number in \<open>absoluteEpRe\<close> and what follows it.\<close>

definition ep_digits :: rx where
  "ep_digits = RCat RDigit (RUpTo 3 RDigit)"

definition ep_rest :: rx where
  "ep_rest = RCat (ROpt (RCats [RStr False ''v'', RDigit])) (RAlts [RSpace, REnd, RChars False ''[(.''])"

lemma absoluteEpRe_eq:
  "absoluteEpRe = RCat (RAlt RBegin RSpace) (RCat (RStr False ''-'') (RCat RSpace
     (RCat (RCap 1 ep_digits) ep_rest)))"
  by (simp add: absoluteEpRe_def ep_rest_def ep_digits_def RRepeat_def)

lemma digits_rel:
  "rx_rel tx ep_digits i j \<longleftrightarrow>
     i < j \<and> j \<le> i + 4 \<and> j \<le> length tx \<and> (\<forall>k. i \<le> k \<and> k < j \<longrightarrow> 48 \<le> tx ! k \<and> tx ! k \<le> 57)"
proof -
  have "rx_rel tx ep_digits i j \<longleftrightarrow>
      i < length tx \<and> 48 \<le> tx ! i \<and> tx ! i \<le> 57 \<and> rx_rel tx (RUpTo 3 RDigit) (Suc i) j"
    by (auto simp: ep_digits_def basic_rel)
  also have "\<dots> \<longleftrightarrow> i < j \<and> j \<le> i + 4 \<and> j \<le> length tx \<and> (\<forall>k. i \<le> k \<and> k < j \<longrightarrow> 48 \<le> tx ! k \<and> tx ! k \<le> 57)"
    unfolding RDigit_def upto_class_rel in_class_simps
    using all_from [of i j "\<lambda>k. 48 \<le> tx ! k \<and> tx ! k \<le> 57"] by (cases "i < j") (auto simp del: Suc_le_eq)
  finally show ?thesis .
qed

text \<open>Every run of the episode pattern captures one to four digits after a dash.\<close>

lemma absoluteEp_group:
  assumes "(b, cs) \<in> set (rx_ends tx absoluteEpRe (a, \<lambda>_. None))"
  obtains p j where "p = a \<and> a = 0 \<or> p = Suc a \<and> a < length tx \<and> space_rune (tx ! a)"
    "Suc p < length tx" "tx ! p = 45" "space_rune (tx ! Suc p)"
    "cs = (\<lambda>_. None)(1 := Some (p + 2, j))"
    "rx_rel tx ep_digits (p + 2) j" "rx_rel tx ep_rest j b"
proof -
  obtain st1 where st1: "st1 \<in> set (rx_ends tx (RAlt RBegin RSpace) (a, \<lambda>_. None))" and
    r1: "(b, cs) \<in> set (rx_ends tx (RCat (RStr False ''-'') (RCat RSpace (RCat (RCap 1 ep_digits) ep_rest))) st1)"
    using assms unfolding absoluteEpRe_eq rx_ends_RCat [of _ _ "RAlt RBegin RSpace"] by blast
  obtain st2 where st2: "st2 \<in> set (rx_ends tx (RStr False ''-'') st1)" and
    r2: "(b, cs) \<in> set (rx_ends tx (RCat RSpace (RCat (RCap 1 ep_digits) ep_rest)) st2)"
    using r1 unfolding rx_ends_RCat [of _ _ "RStr False ''-''"] by blast
  obtain st3 where st3: "st3 \<in> set (rx_ends tx RSpace st2)" and
    r3: "(b, cs) \<in> set (rx_ends tx (RCat (RCap 1 ep_digits) ep_rest) st3)"
    using r2 unfolding rx_ends_RCat [of _ _ RSpace] by blast
  obtain st4 where st4: "st4 \<in> set (rx_ends tx ep_digits st3)" and
    fin: "(b, cs) \<in> set (rx_ends tx ep_rest (fst st4, (snd st4)(1 := Some (fst st3, fst st4))))"
    using r3 unfolding rx_ends_RCat [of _ _ "RCap 1 ep_digits"] rx_ends_RCap by blast
  have caps: "snd st4 = (\<lambda>_. None)" "cs = (snd st4)(1 := Some (fst st3, fst st4))"
    using rx_ends_caps [OF st1] rx_ends_caps [OF st2] rx_ends_caps [OF st3] rx_ends_caps [OF st4] rx_ends_caps [OF fin]
    by (auto simp: fun_eq_iff RSpace_def RStr_def RDigit_def ep_rest_def ep_digits_def RChars_def numeral_3_eq_3)
  have "rx_rel tx (RAlt RBegin RSpace) a (fst st1)" "rx_rel tx (RStr False ''-'') (fst st1) (fst st2)"
    "rx_rel tx RSpace (fst st2) (fst st3)" "rx_rel tx ep_digits (fst st3) (fst st4)" "rx_rel tx ep_rest (fst st4) b"
    using rx_ends_sound [OF st1] rx_ends_sound [OF st2] rx_ends_sound [OF st3] rx_ends_sound [OF st4]
      rx_ends_sound [OF fin] by simp_all
  then show ?thesis
    using caps by (intro that [of "fst st1" "fst st4"]) (auto simp: basic_rel)
qed

lemma absolute_episode_bounds:
  assumes "absolute_episode name = (n, rng)"
  shows "0 \<le> n" "n \<le> 9999" "n \<notin> set resolutionHeights" "\<not> (1900 \<le> n \<and> n \<le> 2099)" "rng \<longrightarrow> 0 < n"
proof -
  have "0 \<le> n \<and> n \<le> 9999 \<and> n \<notin> set resolutionHeights \<and> \<not> (1900 \<le> n \<and> n \<le> 2099) \<and> (rng \<longrightarrow> 0 < n)"
  proof (cases "FindStringSubmatchIndex absoluteEpRe name")
    case None
    then show ?thesis using assms by (auto simp: absolute_episode_def resolutionHeights_def)
  next
    case (Some m)
    obtain a b cs where m: "m = (a, b, cs)" by (cases m)
    note f = rx_find_Some [OF Some [unfolded FindStringSubmatchIndex_def m]]
    obtain i j where cs: "cs = (\<lambda>_. None)(1 := Some (i, j))" and rel: "rx_rel (runes name) ep_digits i j"
      using absoluteEp_group [OF f(3)] by metis
    have "str_between name i j = map char_of (take (j - i) (drop i (runes name)))"
      using rel unfolding digits_rel by (intro str_between_low) auto
    then have "length (group_text name cs 1) \<le> 4"
      using rel unfolding digits_rel by (auto simp: cs group_text_def min_def)
    then have "(10 :: int) ^ length (group_text name cs 1) \<le> 10 ^ 4" by (intro power_increasing) auto
    then have "atoi (group_text name cs 1) \<le> 9999"
      using atoi_loop_bound [of 0 "group_text name cs 1"] by (simp add: atoi_def)
    then show ?thesis
      using assms Some m
      by (auto simp: absolute_episode_def Let_def resolutionHeights_def split: if_splits)
  qed
  then show "0 \<le> n" "n \<le> 9999" "n \<notin> set resolutionHeights" "\<not> (1900 \<le> n \<and> n \<le> 2099)" "rng \<longrightarrow> 0 < n"
    by blast+
qed

text \<open>
  The shape the detector is made for: a text without a spaced dash, then a dash between spaces, up to
  four digits, and the end of the name, a space or an opening bracket.
\<close>

definition no_spaced_dash :: "string \<Rightarrow> bool" where
  "no_spaced_dash p \<longleftrightarrow>
     (\<forall>i < length p. p ! i = CHR ''-'' \<longrightarrow> 0 < i \<and> \<not> space_rune (code (p ! (i - 1))))"

definition ep_number :: "string \<Rightarrow> bool" where
  "ep_number ds \<longleftrightarrow> ds \<noteq> [] \<and> length ds \<le> 4 \<and> list_all (\<lambda>c. 48 \<le> code c \<and> code c \<le> 57) ds"

definition ep_end :: "string \<Rightarrow> bool" where
  "ep_end rest \<longleftrightarrow> rest = [] \<or> hd rest \<in> {CHR '' '', CHR ''['', CHR ''(''}"

lemma ep_rest_rel:
  "rx_rel tx ep_rest j b \<longleftrightarrow>
     (\<exists>k. (k = j \<or> k = j + 2 \<and> j + 1 < length tx \<and> tx ! j = 118 \<and> 48 \<le> tx ! (j + 1) \<and> tx ! (j + 1) \<le> 57) \<and>
        (b = k + 1 \<and> k < length tx \<and> (space_rune (tx ! k) \<or> tx ! k \<in> {91, 40, 46}) \<or> b = k \<and> k = length tx))"
proof -
  have set: "in_class False False (char_ranges ''[(.'') r \<longleftrightarrow> r \<in> {91, 40, 46}" for r
    by (auto simp: in_class_def in_ranges_def char_ranges_def)
  have v: "rx_rel tx (ROpt (RCats [RStr False ''v'', RDigit])) j k \<longleftrightarrow>
      k = j \<or> k = j + 2 \<and> j + 1 < length tx \<and> tx ! j = 118 \<and> 48 \<le> tx ! (j + 1) \<and> tx ! (j + 1) \<le> 57" for k
    by (auto simp: basic_rel)
  have e: "rx_rel tx (RAlts [RSpace, REnd, RChars False ''[(.'']) k b \<longleftrightarrow>
      b = k + 1 \<and> k < length tx \<and> (space_rune (tx ! k) \<or> tx ! k \<in> {91, 40, 46}) \<or> b = k \<and> k = length tx" for k
    by (auto simp: basic_rel RChars_def set)
  show ?thesis unfolding ep_rest_def rx_rel.simps(6) relcompp_apply v e by blast
qed

definition episode_shape :: "string \<Rightarrow> string \<Rightarrow> string \<Rightarrow> bool" where
  "episode_shape p ds rest \<longleftrightarrow> list_all (\<lambda>c. code c < 128) p \<and> no_spaced_dash p \<and> ep_number ds \<and> ep_end rest"

lemma ep_runes:
  assumes "episode_shape p ds rest"
  shows "runes (p @ '' - '' @ ds @ rest) = map of_char p @ [32, 45, 32] @ map of_char ds @ runes rest"
proof -
  have "list_all (\<lambda>c. code c < 128) (p @ '' - '' @ ds)"
    using assms by (auto simp: episode_shape_def ep_number_def list_all_iff)
  from runes_ascii_append [OF this, of rest] show ?thesis by simp
qed

lemma ep_end_runes:
  "ep_end rest \<Longrightarrow> rest \<noteq> [] \<Longrightarrow> \<exists>r rs. runes rest = r # rs \<and> r \<in> {32, 91, 40}"
  by (cases rest) (auto simp: ep_end_def runes_def segs_ascii)

lemma ep_positions:
  assumes shape: "episode_shape p ds rest" and tx: "tx = runes (p @ '' - '' @ ds @ rest)"
    and m: "m = length p" and e: "e = length p + 3 + length ds"
  shows "\<And>k. k < m \<Longrightarrow> tx ! k = code (p ! k)" "tx ! m = 32" "tx ! Suc m = 45" "tx ! (m + 2) = 32"
    "\<And>k. m + 3 \<le> k \<Longrightarrow> k < e \<Longrightarrow> 48 \<le> tx ! k \<and> tx ! k \<le> 57"
    "e \<le> length tx" "rest = [] \<Longrightarrow> length tx = e" "rest \<noteq> [] \<Longrightarrow> e < length tx \<and> tx ! e \<in> {32, 91, 40}"
    "m + 3 < e" "e \<le> m + 7"
proof -
  note eq = ep_runes [OF shape, folded tx]
  have len: "length tx = e + length (runes rest)" using eq e by simp
  show "\<And>k. k < m \<Longrightarrow> tx ! k = code (p ! k)" using eq m by (simp add: nth_append)
  show "tx ! m = 32" "tx ! Suc m = 45" "tx ! (m + 2) = 32" using eq m by (simp_all add: nth_append)
  have d: "ds \<noteq> []" "length ds \<le> 4" "\<forall>c \<in> set ds. 48 \<le> code c \<and> code c \<le> 57"
    using shape by (auto simp: episode_shape_def ep_number_def list_all_iff)
  show "48 \<le> tx ! k \<and> tx ! k \<le> 57" if "m + 3 \<le> k" "k < e" for k
  proof -
    define l where "l = k - (m + 3)"
    have l: "k = m + 3 + l" "l < length ds" using that m e by (simp_all add: l_def)
    have "tx = (map of_char p @ [32, 45, 32]) @ map of_char ds @ runes rest" using eq by simp
    then have "tx ! (length (map of_char p @ [32, 45, 32 :: nat]) + l) = (map of_char ds @ runes rest) ! l"
      by (simp only: nth_append_length_plus)
    then have "tx ! k = code (ds ! l)" using l m by (simp add: nth_append numeral_3_eq_3)
    then show ?thesis using d(3) l(2) by simp
  qed
  show "e \<le> length tx" using len by simp
  show "length tx = e" if "rest = []" using len that by (simp add: runes_def)
  show "e < length tx \<and> tx ! e \<in> {32, 91, 40}" if ne: "rest \<noteq> []"
  proof -
    obtain r rs where r: "runes rest = r # rs" "r \<in> {32, 91, 40}"
      using ep_end_runes [of rest] ne shape unfolding episode_shape_def by blast
    then show ?thesis using eq e len by (simp add: nth_append)
  qed
  show "m + 3 < e" "e \<le> m + 7" using m e d by (cases ds; simp)+
qed

text \<open>The pattern finds the number, and nothing before it.\<close>

lemma ep_find:
  assumes shape: "episode_shape p ds rest"
  defines "m \<equiv> length p" and "e \<equiv> length p + 3 + length ds"
  shows "\<exists>b. FindStringSubmatchIndex absoluteEpRe (p @ '' - '' @ ds @ rest) =
    Some (m, b, (\<lambda>_. None)(1 := Some (m + 3, e)))"
proof -
  define tx where "tx = runes (p @ '' - '' @ ds @ rest)"
  define b where "b = (if rest = [] then e else e + 1)"
  note pos = ep_positions [OF shape tx_def m_def [THEN meta_eq_to_obj_eq] e_def [THEN meta_eq_to_obj_eq]]
  have nsp: "\<not> space_rune 45" "\<not> space_rune r" if "48 \<le> r \<and> r \<le> 57" for r
    using that by (auto simp: space_rune_def)
  have dash: "\<And>i. i < m \<Longrightarrow> tx ! i = 45 \<Longrightarrow> 0 < i \<and> \<not> space_rune (tx ! (i - 1))"
  proof -
    fix i assume i: "i < m" "tx ! i = 45"
    then have "code (p ! i) = code CHR ''-''" using pos(1) by simp
    then have "p ! i = CHR ''-''" by (simp only: of_char_eq_iff)
    moreover have "no_spaced_dash p" using shape by (simp add: episode_shape_def)
    ultimately have "0 < i \<and> \<not> space_rune (code (p ! (i - 1)))"
      using i(1) unfolding no_spaced_dash_def m_def by blast
    then show "0 < i \<and> \<not> space_rune (tx ! (i - 1))" using pos(1) [of "i - 1"] i(1) by simp
  qed
  have none: "\<not> rx_rel tx absoluteEpRe k j" if "k < m" for k j
  proof
    assume "rx_rel tx absoluteEpRe k j"
    moreover have "k \<le> length tx" using that pos(6,9) by linarith
    ultimately obtain cs where "(j, cs) \<in> set (rx_ends tx absoluteEpRe (k, \<lambda>_. None))"
      using rx_ends_complete [of tx absoluteEpRe "(k, \<lambda>_. None)" j] by auto
    from absoluteEp_group [OF this] obtain q where
      q: "q = k \<and> k = 0 \<or> q = Suc k \<and> space_rune (tx ! k)" "tx ! q = 45" by metis
    show False
    proof (cases "q < m")
      case True
      then show ?thesis using dash [OF True q(2)] q(1) by auto
    next
      case False
      then have "q = m" using q(1) that by auto
      then show ?thesis using q(2) pos(2) by simp
    qed
  qed
  have rest_rel: "rx_rel tx ep_rest j b' \<longleftrightarrow> b' = b" if "j = e" for j b'
    using pos(7,8) that unfolding ep_rest_rel b_def
    by (cases "rest = []") (auto simp: space_rune_def)
  have uniq: "b' = b \<and> cs = (\<lambda>_. None)(1 := Some (m + 3, e))"
    if mem: "(b', cs) \<in> set (rx_ends tx absoluteEpRe (m, \<lambda>_. None))" for b' cs
  proof -
    obtain q j where q: "q = m \<and> m = 0 \<or> q = Suc m" "tx ! q = 45"
        "cs = (\<lambda>_. None)(1 := Some (q + 2, j))" "rx_rel tx ep_digits (q + 2) j" "rx_rel tx ep_rest j b'"
      using absoluteEp_group [OF mem] by metis
    have q1: "q = Suc m" using q(1,2) pos(2) by auto
    have "m + 3 < j" and dig: "\<forall>k. m + 3 \<le> k \<and> k < j \<longrightarrow> 48 \<le> tx ! k \<and> tx ! k \<le> 57" and "j \<le> length tx"
      using q(4) q1 unfolding digits_rel by auto
    have "\<not> e < j"
      using dig [rule_format, of e] pos(7,8,9) \<open>j \<le> length tx\<close> by (cases "rest = []") auto
    moreover have "\<not> j < e"
    proof
      assume "j < e"
      then have "48 \<le> tx ! j" "tx ! j \<le> 57" "j < length tx" using pos(5) [of j] \<open>m + 3 < j\<close> pos(6) by auto
      then show False using q(5) unfolding ep_rest_rel by (auto simp: space_rune_def)
    qed
    ultimately have "j = e" by simp
    then show ?thesis using q(3,5) q1 rest_rel by auto
  qed
  have "rx_rel tx absoluteEpRe m b"
  proof -
    have "rx_rel tx (RAlt RBegin RSpace) m (m + 1)" using pos(2,6,9) by (simp add: basic_rel space_rune_def)
    moreover have "rx_rel tx (RStr False ''-'') (m + 1) (m + 2)" using pos(3,6,9) by (simp add: basic_rel)
    moreover have "rx_rel tx RSpace (m + 2) (m + 3)" using pos(4,6,9) by (simp add: basic_rel space_rune_def)
    moreover have "rx_rel tx (RCap 1 ep_digits) (m + 3) e"
      using pos(5,6,9,10) by (simp add: digits_rel)
    moreover have "rx_rel tx ep_rest e b" using rest_rel by simp
    ultimately show ?thesis unfolding absoluteEpRe_eq rx_rel.simps(6) by blast
  qed
  then have "rx_find tx absoluteEpRe m = Some (m, b, (\<lambda>_. None)(1 := Some (m + 3, e)))"
    using uniq pos(6,9) by (intro rx_find_unique) auto
  moreover have "rx_find tx absoluteEpRe 0 = rx_find tx absoluteEpRe m"
    using none pos(6,9) by (intro rx_find_skip) auto
  ultimately show ?thesis by (auto simp: FindStringSubmatchIndex_def tx_def)
qed

lemma ep_no_date: "ep_end rest \<Longrightarrow> \<not> MatchString dateTailRe rest"
proof
  assume rest: "ep_end rest" and "MatchString dateTailRe rest"
  then have "runes rest \<noteq> []" "runes rest ! 0 = 46"
    by (auto simp: MatchString_iff dateTailRe_def basic_rel)
  moreover from this have "rest \<noteq> []" by (auto simp: runes_def)
  ultimately show False using ep_end_runes [OF rest] by auto
qed

lemma absolute_episode_shape:
  assumes "episode_shape p ds rest"
  shows "absolute_episode (p @ '' - '' @ ds @ rest) =
    (if 0 < atoi ds \<and> atoi ds \<notin> set resolutionHeights \<and> \<not> (1900 \<le> atoi ds \<and> atoi ds \<le> 2099)
     then (atoi ds, MatchString absoluteRangeTailRe rest) else (0, False))"
proof -
  obtain b where b: "FindStringSubmatchIndex absoluteEpRe (p @ '' - '' @ ds @ rest) =
      Some (length p, b, (\<lambda>_. None)(1 := Some (length p + 3, length p + 3 + length ds)))"
    using ep_find [OF assms(1)] by blast
  have a: "list_all (\<lambda>c. code c < 128) (p @ '' - '' @ ds)"
    using assms(1) by (auto simp: episode_shape_def ep_number_def list_all_iff)
  have "str_between (p @ '' - '' @ ds @ rest) (length p + 3) (length p + 3 + length ds) = ds"
    using str_between_ascii [OF a, of "length p + 3 + length ds" rest "length p + 3"] by simp
  moreover have "str_from (p @ '' - '' @ ds @ rest) (length p + 3 + length ds) = rest"
    using str_from_ascii [OF a, of "length p + 3 + length ds" rest] by simp
  ultimately show ?thesis
    using b assms ep_no_date [of rest] by (simp add: absolute_episode_def group_text_def episode_shape_def Let_def)
qed

subsection \<open>Group tags\<close>

text \<open>Every run of the bracket pattern from an opening bracket ends at the next closing one.\<close>

lemma bracketToken_find:
  assumes "list_all (\<lambda>c. code c < 128) tag" "CHR '']'' \<notin> set tag" "tag \<noteq> []"
  shows "rx_find (runes (''['' @ tag @ '']'' @ rest)) bracketTokenRe 0 =
    Some (0, length tag + 2, (\<lambda>_. None)(1 := Some (1, length tag + 1)))"
proof -
  define tx where "tx = runes (''['' @ tag @ '']'' @ rest)"
  have tx: "tx = [91] @ map of_char tag @ [93] @ runes rest"
    using runes_ascii_append [of "''['' @ tag @ '']''" rest] assms(1) by (simp add: tx_def)
  have inner: "tx ! k \<noteq> 93" if "0 < k" "k < length tag + 1" for k
  proof -
    have "tx ! k = code (tag ! (k - 1))" using that tx by (auto simp: nth_append nth_Cons')
    moreover have "tag ! (k - 1) \<in> set tag" using that by (intro nth_mem) simp
    then have "tag ! (k - 1) \<noteq> CHR '']''" using assms(2) by metis
    then have "code (tag ! (k - 1)) \<noteq> code CHR '']''" by (metis of_char_eq_iff)
    ultimately show ?thesis by simp
  qed
  have pos: "tx ! 0 = 91" "tx ! (length tag + 1) = 93" "length tag + 1 < length tx"
    using tx by (auto simp: nth_append)
  define N where "N = RNotChars False '']''"
  have nrel: "rx_rel tx (RPlus N) i j \<longleftrightarrow> i < j \<and> j \<le> length tx \<and> (\<forall>k. i \<le> k \<and> k < j \<longrightarrow> tx ! k \<noteq> 93)" for i j
  proof -
    have "rx_rel tx (RPlus N) i j \<longleftrightarrow> i < length tx \<and> tx ! i \<noteq> 93 \<and>
        rx_rel tx (RStar (RClass False True [(93, 93)])) (Suc i) j"
      by (auto simp: RPlus_def N_def RNotChars_def char_ranges_def in_class_simps)
    then show ?thesis
      unfolding star_class_rel in_class_simps
      using all_from [of i j "\<lambda>k. tx ! k \<noteq> 93"] by (cases "i < j") (auto simp del: Suc_le_eq)
  qed
  have eq: "bracketTokenRe = RCat (RStr False ''['') (RCat (RCap 1 (RPlus N)) (RStr False '']''))"
    by (simp add: bracketTokenRe_def N_def)
  have "rx_rel tx bracketTokenRe 0 (length tag + 2)"
  proof -
    have "rx_rel tx (RStr False ''['') 0 1" using pos by (auto simp: basic_rel)
    moreover have "rx_rel tx (RCap 1 (RPlus N)) 1 (length tag + 1)"
      using inner pos(3) assms(3) by (auto simp: nrel Suc_le_eq)
    moreover have "rx_rel tx (RStr False '']'') (length tag + 1) (length tag + 2)" using pos by (simp add: basic_rel)
    ultimately show ?thesis unfolding eq rx_rel.simps(6) by blast
  qed
  moreover have "j = length tag + 2 \<and> cs = (\<lambda>_. None)(1 := Some (1, length tag + 1))"
    if mem: "(j, cs) \<in> set (rx_ends tx bracketTokenRe (0, \<lambda>_. None))" for j cs
  proof -
    obtain st1 where st1: "st1 \<in> set (rx_ends tx (RStr False ''['') (0, \<lambda>_. None))" and
      r1: "(j, cs) \<in> set (rx_ends tx (RCat (RCap 1 (RPlus N)) (RStr False '']'')) st1)"
      using mem unfolding eq rx_ends_RCat [of _ _ "RStr False ''[''"] by blast
    obtain st2 where st2: "st2 \<in> set (rx_ends tx (RPlus N) st1)" and
      fin: "(j, cs) \<in> set (rx_ends tx (RStr False '']'') (fst st2, (snd st2)(1 := Some (fst st1, fst st2))))"
      using r1 unfolding rx_ends_RCat [of _ _ "RCap 1 (RPlus N)"] rx_ends_RCap by blast
    have s1: "fst st1 = 1" and s2: "rx_rel tx (RPlus N) (fst st1) (fst st2)" and
      s3: "j = Suc (fst st2)" "tx ! fst st2 = 93"
      using rx_ends_sound [OF st1] rx_ends_sound [OF st2] rx_ends_sound [OF fin] by (auto simp: basic_rel)
    have "snd st1 = (\<lambda>_. None)" "snd st2 = snd st1" "cs = (snd st2)(1 := Some (fst st1, fst st2))"
      using rx_ends_caps [OF st1] rx_ends_caps [OF st2] rx_ends_caps [OF fin]
      by (auto simp: fun_eq_iff RStr_def RPlus_def N_def RNotChars_def)
    moreover have "fst st2 = length tag + 1"
    proof (rule ccontr)
      assume "fst st2 \<noteq> length tag + 1"
      then consider "fst st2 < length tag + 1" | "length tag + 1 < fst st2" by linarith
      then show False
        using s1 s2 s3(2) inner [of "fst st2"] pos(2) unfolding nrel by cases auto
    qed
    ultimately show ?thesis using s1 s3(1) by simp
  qed
  ultimately show ?thesis
    unfolding tx_def [symmetric] by (intro rx_find_unique) auto
qed

lemma find_group_tag:
  assumes "list_all (\<lambda>c. code c < 128) tag" "CHR '']'' \<notin> set tag" "tag \<noteq> []"
    and "normGroup uni tag \<in> set (knownFansubGroups uni)"
  shows "FansubGroup (Detect uni (''['' @ tag @ '']'' @ rest)) = normGroup uni tag"
proof -
  have "str_between (''['' @ tag @ '']'' @ rest) 1 (length tag + 1) = tag"
    using str_between_ascii [of "''['' @ tag" "length tag + 1" "'']'' @ rest" 1] assms(1) by simp
  then show ?thesis
    using assms(4) bracketToken_find [OF assms(1-3), of rest]
    by (simp add: Detect_fields FindAllStringSubmatchIndex_def group_text_def)
qed

text \<open>Normal forms of printable ASCII names.\<close>

definition plain_name :: "string \<Rightarrow> bool" where
  "plain_name s = list_all (\<lambda>c. 32 \<le> code c \<and> code c < 127) s"

lemma plain_name_ascii: "plain_name s \<Longrightarrow> list_all (\<lambda>c. code c < 128) s"
  by (auto simp: plain_name_def list_all_iff)

lemma printable_space: "32 \<le> r \<Longrightarrow> r < 127 \<Longrightarrow> IsSpace r \<longleftrightarrow> r = 32"
  by (auto simp: IsSpace_def)

lemma code_blank: "code c = 32 \<longleftrightarrow> c = CHR '' ''"
  using of_char_eq_iff [of c "CHR '' ''"] by simp

definition norm_ascii :: "string \<Rightarrow> string" where
  "norm_ascii s = map lower_char (filter (\<lambda>c. c \<notin> {CHR ''-'', CHR ''_'', CHR '' '', CHR ''.''}) s)"

lemma lower_char_separator:
  assumes "code d \<in> {45, 95, 32, 46}"
  shows "lower_char c = d \<longleftrightarrow> c = d"
proof -
  have "code (char_of (code c + 32) :: char) = code c + 32" if "code c \<le> 90"
    using that by simp
  then show ?thesis using assms by (auto simp: lower_char_def)
qed

lemma lower_char_separators:
  "lower_char c \<in> {CHR ''-'', CHR ''_'', CHR '' '', CHR ''.''} \<longleftrightarrow> c \<in> {CHR ''-'', CHR ''_'', CHR '' '', CHR ''.''}"
  by (simp add: lower_char_separator)

lemma TrimSpace_ascii:
  assumes "list_all (\<lambda>c. code c < 128) s"
  shows "TrimSpace s = rev (dropWhile (\<lambda>c. IsSpace (code c)) (rev (dropWhile (\<lambda>c. IsSpace (code c)) s)))"
  using assms by (simp add: TrimSpace_def Let_def segs_all_ascii dropWhile_map rev_map o_def)

lemma filter_dropWhile: "\<forall>x \<in> set xs. P x \<longrightarrow> \<not> Q x \<Longrightarrow> filter Q (dropWhile P xs) = filter Q xs"
  by (induction xs) auto

lemma normGroup_plain: "plain_name s \<Longrightarrow> normGroup uni s = norm_ascii s"
proof -
  assume plain: "plain_name s"
  let ?P = "\<lambda>c. IsSpace (code c)" and ?Q = "\<lambda>c. c \<notin> {CHR ''-'', CHR ''_'', CHR '' '', CHR ''.''}"
  note ascii = plain_name_ascii [OF plain]
  define t where "t = TrimSpace s"
  have t: "t = rev (dropWhile ?P (rev (dropWhile ?P s)))" using TrimSpace_ascii [OF ascii] by (simp add: t_def)
  have sub: "set t \<subseteq> set s" unfolding t by (metis set_dropWhileD set_rev subsetI)
  then have "list_all (\<lambda>c. code c < 128) t" using ascii by (auto simp: list_all_iff)
  then have "normGroup uni s = filter ?Q (map lower_char t)"
    by (simp add: normGroup_def ToLower_def t_def)
  also have "\<dots> = map lower_char (filter ?Q t)"
    by (simp add: filter_map o_def lower_char_separator)
  also have "filter ?Q t = filter ?Q s"
  proof -
    have P: "\<forall>c \<in> set s. ?P c \<longrightarrow> \<not> ?Q c"
      using plain by (auto simp: plain_name_def list_all_iff printable_space code_blank)
    then have "filter ?Q (dropWhile ?P (rev (dropWhile ?P s))) = filter ?Q (rev (dropWhile ?P s))"
      by (intro filter_dropWhile) (auto dest: set_dropWhileD)
    also have "\<dots> = rev (filter ?Q s)"
      using filter_dropWhile [of s ?P ?Q] P by (simp add: rev_filter [symmetric])
    finally show ?thesis by (simp only: t rev_filter [symmetric] rev_rev_ident)
  qed
  finally show ?thesis by (simp add: norm_ascii_def)
qed

text \<open>
  Facts about the allowlist: the names are printable, hold no bracket and no dash after a blank,
  begin and end with a letter, and their normal forms differ.
\<close>

definition tag_ok :: "string \<Rightarrow> bool" where
  "tag_ok g \<longleftrightarrow> plain_name g \<and> norm_ascii g \<noteq> [] \<and>
     list_all (\<lambda>c. c \<notin> {CHR ''['', CHR '']'', CHR ''('', CHR '')''}) g \<and>
     list_all (\<lambda>(a, b). \<not> (a = CHR '' '' \<and> b = CHR ''-'')) (zip g (tl g)) \<and>
     hd g \<noteq> CHR '' '' \<and> last g \<noteq> CHR '' ''"

lemma fansub_tags_ok: "list_all tag_ok fansubGroupNames"
  by code_simp

lemma fansub_names_differ: "distinct (map norm_ascii fansubGroupNames)"
  by code_simp

lemma tag_okD:
  assumes "g \<in> set fansubGroupNames"
  shows "tag_ok g" "plain_name g" "norm_ascii g \<noteq> []" "g \<noteq> []" "CHR '']'' \<notin> set g"
proof -
  show ok: "tag_ok g" using fansub_tags_ok assms by (auto simp: list_all_iff)
  then show "plain_name g" "norm_ascii g \<noteq> []" "CHR '']'' \<notin> set g"
    by (auto simp: tag_ok_def list_all_iff)
  then show "g \<noteq> []" by (auto simp: norm_ascii_def)
qed

lemma knownFansubGroups_eq: "knownFansubGroups uni = map norm_ascii fansubGroupNames"
  using tag_okD by (auto simp: knownFansubGroups_def normGroup_plain)

lemma canonical_name: "g \<in> set fansubGroupNames \<Longrightarrow> canonicalFansubName uni (norm_ascii g) = Some g"
proof -
  assume g: "g \<in> set fansubGroupNames"
  have eq: "map (\<lambda>g. (normGroup uni g, g)) fansubGroupNames = map (\<lambda>g. (norm_ascii g, g)) fansubGroupNames"
    using tag_okD by (auto simp: normGroup_plain)
  have "distinct (map fst (rev (map (\<lambda>g. (norm_ascii g, g)) fansubGroupNames)))"
    using fansub_names_differ by (simp add: o_def flip: rev_map)
  then show ?thesis
    unfolding canonicalFansubName_def eq by (rule map_of_is_SomeI) (use g in auto)
qed

lemma fansub_tag:
  assumes "plain_name tag" "CHR '']'' \<notin> set tag" "g \<in> set fansubGroupNames" "norm_ascii tag = norm_ascii g"
  shows "FansubGroup (Detect uni (''['' @ tag @ '']'' @ rest)) = norm_ascii g"
    "KnownGroup uni (''['' @ tag @ '']'' @ rest) = g"
proof -
  note g = tag_okD [OF assms(3)]
  have "tag \<noteq> []" using g(3) assms(4) by (auto simp: norm_ascii_def)
  then show fg: "FansubGroup (Detect uni (''['' @ tag @ '']'' @ rest)) = norm_ascii g"
    using find_group_tag [of tag uni rest] assms plain_name_ascii
    by (simp add: normGroup_plain knownFansubGroups_eq)
  show "KnownGroup uni (''['' @ tag @ '']'' @ rest) = g"
    unfolding KnownGroup_def Let_def fg using g(3) canonical_name [OF assms(3)] by simp
qed

section \<open>Properties of the detector\<close>

text \<open>
  C38. A release name that starts with the bracketed tag of an allowlisted group, in any letter case
  and with any of the separators \<open>-\<close>, \<open>_\<close>, blank and dot, is recognised whatever follows: the signal
  is the normal form of the group, the name counts as a known fansub and as anime, and
  \<open>KnownGroup\<close> gives back the canonical spelling of exactly this group.
\<close>

theorem fansub_tag_recognised:
  assumes "plain_name tag" "CHR '']'' \<notin> set tag" "g \<in> set fansubGroupNames" "norm_ascii tag = norm_ascii g"
  shows "FansubGroup (Detect uni (''['' @ tag @ '']'' @ rest)) = normGroup uni g \<and>
    IsKnownFansub (Detect uni (''['' @ tag @ '']'' @ rest)) \<and> IsAnime (Detect uni (''['' @ tag @ '']'' @ rest)) \<and>
    KnownGroup uni (''['' @ tag @ '']'' @ rest) = g"
  using fansub_tag [OF assms] tag_okD [OF assms(3)]
  by (simp add: IsKnownFansub_def IsAnime_def normGroup_plain)

theorem fansub_tag_recognised_witness:
  "KnownGroup (\<lambda>s. s) ''[erai raws] Show'' = ''Erai-raws''"
proof -
  have "plain_name ''erai raws'' \<and> norm_ascii ''erai raws'' = norm_ascii ''Erai-raws''" by code_simp
  then show ?thesis
    using fansub_tag_recognised [of "''erai raws''" "''Erai-raws''" "\<lambda>s. s" "'' Show''"]
    by (simp add: fansubGroupNames_def)
qed




end
