(* ===== verification/ContentFilter.thy ===== *)
theory ContentFilter
  imports NamePolicy AnimeDetect
begin

text \<open>
  The deterministic content filter of \<open>internal/classifier/contentfilter\<close>: configuration, the ladder
  of drop reasons, the title patterns and the counters. The signals of the anime detector are those of
  \<open>AnimeDetect\<close>. Unicode tables (scripts, case mapping and case folding outside ASCII) are parameters.
\<close>

section \<open>Configuration and decisions\<close>

record cf_Config =
  cf_Enabled :: bool
  cf_Enforce :: bool
  cf_RequireEnglishLanguage :: bool
  cf_DropNonLatinScript :: bool
  cf_DropLossyAudioOnly :: bool
  cf_DropNSFW :: bool
  cf_DropForeignAudio :: bool
  cf_AnimeAware :: bool
  cf_BlockedExtensions :: "string list"
  cf_BlockedContentTypes :: "string list"
  cf_AllowedLanguages :: "string list"

definition cf_NewDefaultConfig :: cf_Config where
  "cf_NewDefaultConfig = \<lparr>cf_Enabled = False, cf_Enforce = False, cf_RequireEnglishLanguage = True,
     cf_DropNonLatinScript = True, cf_DropLossyAudioOnly = True, cf_DropNSFW = True, cf_DropForeignAudio = True,
     cf_AnimeAware = True,
     cf_BlockedExtensions = [''iso'', ''zip'', ''rar'', ''exe'', ''dmg'', ''msi'', ''pkg'', ''deb''],
     cf_BlockedContentTypes = [], cf_AllowedLanguages = [''en'']\<rparr>"

datatype DropReason =
    ReasonNone | ReasonBlockedExtension | ReasonBlockedContentType | ReasonNonEnglishLanguage
  | ReasonNonLatinScript | ReasonMP3Only | ReasonNSFWKeyword | ReasonNSFWContentType
  | ReasonLLMNonEnglish | ReasonForeignAudio

fun DropReason_String :: "DropReason \<Rightarrow> string" where
  "DropReason_String ReasonBlockedExtension = ''blocked_extension''"
| "DropReason_String ReasonBlockedContentType = ''blocked_content_type''"
| "DropReason_String ReasonNonEnglishLanguage = ''non_english_language''"
| "DropReason_String ReasonNonLatinScript = ''non_latin_script''"
| "DropReason_String ReasonMP3Only = ''mp3_only''"
| "DropReason_String ReasonNSFWKeyword = ''nsfw_keyword''"
| "DropReason_String ReasonNSFWContentType = ''nsfw_content_type''"
| "DropReason_String ReasonLLMNonEnglish = ''llm_non_english''"
| "DropReason_String ReasonForeignAudio = ''foreign_audio''"
| "DropReason_String ReasonNone = ''none''"

record cf_Decision =
  cf_Allow :: bool
  cf_WouldDrop :: bool
  cf_WouldReview :: bool
  cf_Review :: bool
  cf_Defer :: bool
  cf_Reason :: DropReason
  cf_BlockedExt :: string

definition cf_Decision_zero :: cf_Decision where
  "cf_Decision_zero = \<lparr>cf_Allow = False, cf_WouldDrop = False, cf_WouldReview = False, cf_Review = False,
     cf_Defer = False, cf_Reason = ReasonNone, cf_BlockedExt = []\<rparr>"

record cf_Input =
  in_Private :: bool
  in_Title :: string
  in_PrimaryExtension :: string
  in_AllExtensions :: "string list"
  in_ContentType :: string
  in_Languages :: "string list"

section \<open>Unicode tables\<close>

record unicode = scripts +
  is_Hiragana :: "nat \<Rightarrow> bool"
  is_Katakana :: "nat \<Rightarrow> bool"
  is_Hangul :: "nat \<Rightarrow> bool"
  is_Arabic :: "nat \<Rightarrow> bool"
  is_Hebrew :: "nat \<Rightarrow> bool"
  is_Devanagari :: "nat \<Rightarrow> bool"
  is_Bengali :: "nat \<Rightarrow> bool"
  is_Tamil :: "nat \<Rightarrow> bool"
  is_Thai :: "nat \<Rightarrow> bool"
  uc_lower :: "string \<Rightarrow> string"
  uc_fold :: "string \<Rightarrow> string \<Rightarrow> bool"

abbreviation ascii :: "string \<Rightarrow> bool" where "ascii s \<equiv> list_all (\<lambda>c. code c < 128) s"

text \<open>\<open>strings.EqualFold\<close>: letter case is ignored; the tables decide when a string is not ASCII.\<close>

definition EqualFold :: "('x unicode_scheme) \<Rightarrow> string \<Rightarrow> string \<Rightarrow> bool" where
  "EqualFold U s t =
     (if ascii s \<and> ascii t then map lower_char s = map lower_char t else uc_fold U s t)"

definition lower_trim :: "('x unicode_scheme) \<Rightarrow> string \<Rightarrow> string" where
  "lower_trim U s = ToLower (uc_lower U) (TrimSpace s)"

section \<open>Scripts (\<open>scripts.go\<close>)\<close>

definition nonLatinScriptChar :: "('x unicode_scheme) \<Rightarrow> nat \<Rightarrow> bool" where
  "nonLatinScriptChar U r \<longleftrightarrow>
     is_Cyrillic U r \<or> is_Han U r \<or> is_Hiragana U r \<or> is_Katakana U r \<or> is_Hangul U r \<or> is_Arabic U r \<or>
     is_Hebrew U r \<or> is_Devanagari U r \<or> is_Bengali U r \<or> is_Tamil U r \<or> is_Thai U r"

definition titleContainsNonLatinScript :: "('x unicode_scheme) \<Rightarrow> string \<Rightarrow> bool" where
  "titleContainsNonLatinScript U s = list_ex (nonLatinScriptChar U) (runes s)"

definition IsJapaneseScriptChar :: "('x unicode_scheme) \<Rightarrow> nat \<Rightarrow> bool" where
  "IsJapaneseScriptChar U r \<longleftrightarrow> is_Han U r \<or> is_Hiragana U r \<or> is_Katakana U r"

definition IsKanaChar :: "('x unicode_scheme) \<Rightarrow> nat \<Rightarrow> bool" where
  "IsKanaChar U r \<longleftrightarrow> is_Hiragana U r \<or> is_Katakana U r"

definition ContainsJapaneseScript :: "('x unicode_scheme) \<Rightarrow> string \<Rightarrow> bool" where
  "ContainsJapaneseScript U s = list_ex (IsJapaneseScriptChar U) (runes s)"

definition ContainsKana :: "('x unicode_scheme) \<Rightarrow> string \<Rightarrow> bool" where
  "ContainsKana U s = list_ex (IsKanaChar U) (runes s)"

section \<open>Patterns (\<open>patterns.go\<close>)\<close>

definition nsfwKeywords :: "string list" where
  "nsfwKeywords = [''xxx'', ''porn'', ''hentai'', ''jav'', ''camrip-xxx'', ''brazzers'', ''naughtyamerica'',
     ''realitykings'', ''bangbros'', ''onlyfans'', ''manyvids'', ''clips4sale'', ''javhd'', ''uncen'',
     ''uncensored.adult'', ''adult.movie'', ''18+'', ''r18'', ''erotic'', ''nubilefilms'', ''vixen'', ''blacked'',
     ''tushy'', ''deeper'', ''slayed'', ''milfy'']"

text \<open>
  The pattern built from the keywords: a word boundary, the keyword in either letter case and a
  boundary again, or for a keyword that ends in punctuation the end of the text or a rune that is not
  alphanumeric.
\<close>

definition isWordEnd :: "char \<Rightarrow> bool" where
  "isWordEnd l \<longleftrightarrow> (97 \<le> code l \<and> code l \<le> 122) \<or> (65 \<le> code l \<and> code l \<le> 90) \<or> (48 \<le> code l \<and> code l \<le> 57) \<or> code l = 95"

definition nsfw_part :: "string \<Rightarrow> rx" where
  "nsfw_part k = RCats [RWordB, RStr True k,
     (if isWordEnd (last k) then RWordB else RAlts [REnd, RClass True True [(65, 90), (97, 122), (48, 57)]])]"

definition nsfwTitlePattern :: rx where
  "nsfwTitlePattern = RAlts (map nsfw_part nsfwKeywords)"

definition titleMatchesNSFW :: "string \<Rightarrow> bool" where
  "titleMatchesNSFW title = MatchString nsfwTitlePattern title"

definition isNSFWContentType :: "('x unicode_scheme) \<Rightarrow> string \<Rightarrow> bool" where
  "isNSFWContentType U ct = (lower_trim U ct \<in> set [''xxx'', ''adult'', ''porn''])"

definition nonMP3MusicExtensions :: "string list" where
  "nonMP3MusicExtensions = [''flac'', ''alac'', ''m4a'', ''wav'', ''ape'', ''opus'', ''ogg'', ''wv'', ''dsf'']"

definition hasNonMP3Audio :: "string list \<Rightarrow> bool" where
  "hasNonMP3Audio exts = list_ex (\<lambda>e. e \<in> set nonMP3MusicExtensions) exts"

definition isMP3 :: "('x unicode_scheme) \<Rightarrow> string \<Rightarrow> bool" where
  "isMP3 U ext = EqualFold U ext ''mp3''"

definition hasMP3 :: "('x unicode_scheme) \<Rightarrow> string list \<Rightarrow> bool" where
  "hasMP3 U exts = list_ex (isMP3 U) exts"

definition extInBlocklist :: "('x unicode_scheme) \<Rightarrow> string \<Rightarrow> string list \<Rightarrow> bool" where
  "extInBlocklist U ext blocked = list_ex (\<lambda>b. EqualFold U b (lower_trim U ext)) blocked"

section \<open>The ladder (\<open>filter.go\<close>)\<close>

definition anyAllowedLanguage :: "('x unicode_scheme) \<Rightarrow> string list \<Rightarrow> string list \<Rightarrow> bool" where
  "anyAllowedLanguage U langs allowed =
     (if allowed = [] then False
      else list_ex (\<lambda>l. list_ex (\<lambda>a. EqualFold U a (lower_trim U l)) allowed) langs)"

fun pure_mp3_loop :: "('x unicode_scheme) \<Rightarrow> string list \<Rightarrow> bool \<times> bool \<Rightarrow> bool \<times> bool" where
  "pure_mp3_loop U [] s = s"
| "pure_mp3_loop U (e # es) (mp3, other) =
     (if isMP3 U e then pure_mp3_loop U es (True, other)
      else pure_mp3_loop U es (mp3, other \<or> e \<in> set nonMP3MusicExtensions))"

definition isPureMP3 :: "('x unicode_scheme) \<Rightarrow> string list \<Rightarrow> bool" where
  "isPureMP3 U exts =
     (if exts = [] then False
      else let (hasAnyMP3, hasOtherAudio) = pure_mp3_loop U exts (False, False) in hasAnyMP3 \<and> \<not> hasOtherAudio)"

definition cf_evaluate :: "('x unicode_scheme) \<Rightarrow> cf_Config \<Rightarrow> cf_Input \<Rightarrow> DropReason \<times> string" where
  "cf_evaluate U cfg i =
     (let ext = in_PrimaryExtension i; ct = in_ContentType i; title = in_Title i in
      if ext \<noteq> [] \<and> extInBlocklist U ext (cf_BlockedExtensions cfg)
      then (ReasonBlockedExtension, lower_trim U ext)
      else if ct \<noteq> [] \<and> list_ex (\<lambda>b. EqualFold U b (lower_trim U ct)) (cf_BlockedContentTypes cfg)
      then (ReasonBlockedContentType, [])
      else if cf_DropNSFW cfg \<and> isNSFWContentType U ct then (ReasonNSFWContentType, [])
      else if cf_DropNSFW cfg \<and> titleMatchesNSFW title \<and> \<not> (cf_AnimeAware cfg \<and> IsKnownFansub (Detect (uc_lower U) title))
      then (ReasonNSFWKeyword, [])
      else if cf_DropNonLatinScript cfg \<and> titleContainsNonLatinScript U title \<and> \<not> (cf_AnimeAware cfg \<and> IsAnime (Detect (uc_lower U) title))
      then (ReasonNonLatinScript, [])
      else if cf_DropForeignAudio cfg \<and> ForeignAudioOnly (uc_lower U) title then (ReasonForeignAudio, [])
      else if cf_RequireEnglishLanguage cfg \<and> in_Languages i \<noteq> [] \<and>
              \<not> anyAllowedLanguage U (in_Languages i) (cf_AllowedLanguages cfg) \<and>
              \<not> (cf_AnimeAware cfg \<and> IsAnime (Detect (uc_lower U) title))
      then (ReasonNonEnglishLanguage, [])
      else if cf_DropLossyAudioOnly cfg \<and> EqualFold U ct ''music'' \<and> isPureMP3 U (in_AllExtensions i)
      then (ReasonMP3Only, [])
      else (ReasonNone, []))"

definition DecideDeterministic :: "('x unicode_scheme) \<Rightarrow> cf_Config \<Rightarrow> cf_Input \<Rightarrow> cf_Decision" where
  "DecideDeterministic U cfg i =
     (if \<not> cf_Enabled cfg then cf_Decision_zero\<lparr>cf_Allow := True\<rparr>
      else let (reason, ext) = cf_evaluate U cfg i in
        cf_Decision_zero\<lparr>cf_Allow := reason = ReasonNone \<or> \<not> cf_Enforce cfg, cf_WouldDrop := reason \<noteq> ReasonNone,
          cf_Reason := reason, cf_BlockedExt := ext\<rparr>)"

section \<open>Counters (\<open>metrics.go\<close>)\<close>

record cf_Metrics =
  cm_examined :: nat
  cm_kept :: nat
  cm_dropped :: "string \<Rightarrow> nat"
  cm_wouldDrop :: "string \<Rightarrow> nat"
  cm_blockedExt :: "string \<Rightarrow> nat"

definition cm_count :: "string \<Rightarrow> (string \<Rightarrow> nat) \<Rightarrow> string \<Rightarrow> nat" where
  "cm_count l m = m(l := m l + 1)"

definition cf_Observe :: "cf_Decision \<Rightarrow> cf_Metrics \<Rightarrow> cf_Metrics" where
  "cf_Observe d m =
     (let m1 = m\<lparr>cm_examined := cm_examined m + 1\<rparr>;
          reason = DropReason_String (cf_Reason d);
          ext = (if cf_Reason d = ReasonBlockedExtension \<and> cf_BlockedExt d \<noteq> []
                 then cm_count (cf_BlockedExt d) (cm_blockedExt m1) else cm_blockedExt m1)
      in if cf_WouldDrop d \<and> \<not> cf_Allow d
         then m1\<lparr>cm_dropped := cm_count reason (cm_dropped m1), cm_blockedExt := ext\<rparr>
         else if cf_WouldDrop d \<and> cf_Allow d
         then m1\<lparr>cm_wouldDrop := cm_count reason (cm_wouldDrop m1), cm_blockedExt := ext, cm_kept := cm_kept m1 + 1\<rparr>
         else m1\<lparr>cm_kept := cm_kept m1 + 1\<rparr>)"

section \<open>The anime carve-out\<close>

text \<open>Which rules can still drop a title that the detector recognises as a known fansub release.\<close>

lemma known_fansub_reasons:
  assumes "cf_AnimeAware cfg" "FansubGroup (Detect (uc_lower U) (in_Title i)) \<noteq> []"
  shows "fst (cf_evaluate U cfg i) \<in>
    {ReasonNone, ReasonBlockedExtension, ReasonBlockedContentType, ReasonNSFWContentType, ReasonForeignAudio, ReasonMP3Only}"
  using assms by (simp add: cf_evaluate_def Let_def IsKnownFansub_def IsAnime_def)

lemma foreign_audio_reason:
  "fst (cf_evaluate U cfg i) = ReasonForeignAudio \<Longrightarrow> cf_DropForeignAudio cfg \<and> ForeignAudioOnly (uc_lower U) (in_Title i)"
  by (simp add: cf_evaluate_def Let_def split: if_splits)

lemma ForeignAudioOnly_marker: "ForeignAudioOnly uni name \<Longrightarrow> foreignAudioMarker name"
  by (simp add: ForeignAudioOnly_def split: if_splits)

text \<open>
  C37. With the carve-out on, a release whose name starts with the tag of an allowlisted group is never
  dropped for a keyword, for its script or for the language of the work, whatever the rest of the name
  and the languages are. When it comes without a primary extension and a content type and its name
  carries no foreign audio marker, the filter lets it pass, enforcing or not.
\<close>

theorem fansub_release_kept:
  assumes "cf_AnimeAware cfg" "in_Title i = ''['' @ tag @ '']'' @ rest"
    "plain_name tag" "CHR '']'' \<notin> set tag" "g \<in> set fansubGroupNames" "norm_ascii tag = norm_ascii g"
  shows "fst (cf_evaluate U cfg i) \<notin> {ReasonNSFWKeyword, ReasonNonLatinScript, ReasonNonEnglishLanguage} \<and>
    (in_PrimaryExtension i = [] \<and> in_ContentType i = [] \<and> \<not> foreignAudioMarker (in_Title i) \<longrightarrow>
       cf_Allow (DecideDeterministic U cfg i) \<and> \<not> cf_WouldDrop (DecideDeterministic U cfg i))"
proof -
  have g: "FansubGroup (Detect (uc_lower U) (in_Title i)) \<noteq> []"
    using fansub_tag(1) [OF assms(3-6)] tag_okD(3) [OF assms(5)] assms(2) by simp
  note r = known_fansub_reasons [OF assms(1) g]
  have "fst (cf_evaluate U cfg i) = ReasonNone"
    if "in_PrimaryExtension i = []" "in_ContentType i = []" "\<not> foreignAudioMarker (in_Title i)"
  proof -
    have "\<not> isNSFWContentType U []"
      by (simp add: isNSFWContentType_def lower_trim_def TrimSpace_def ToLower_def)
    moreover have "\<not> EqualFold U [] ''music''" by (simp add: EqualFold_def)
    ultimately show ?thesis
      using that g assms(1) ForeignAudioOnly_marker [of "uc_lower U" "in_Title i"]
      by (auto simp: cf_evaluate_def Let_def IsKnownFansub_def IsAnime_def)
  qed
  then show ?thesis
    using r by (auto simp: DecideDeterministic_def Let_def case_prod_beta cf_Decision_zero_def)
qed

definition demo_scripts :: unicode where
  "demo_scripts = \<lparr>is_Han = \<lambda>r. 0x4E00 \<le> r, is_Cyrillic = \<lambda>_. False, is_Hiragana = \<lambda>_. False, is_Katakana = \<lambda>_. False,
     is_Hangul = \<lambda>_. False, is_Arabic = \<lambda>_. False, is_Hebrew = \<lambda>_. False, is_Devanagari = \<lambda>_. False,
     is_Bengali = \<lambda>_. False, is_Tamil = \<lambda>_. False, is_Thai = \<lambda>_. False, uc_lower = id, uc_fold = (=)\<rparr>"

theorem fansub_release_kept_witness:
  "fst (cf_evaluate demo_scripts cf_NewDefaultConfig
      \<lparr>in_Private = False, in_Title = ''[judas] hentai r18'', in_PrimaryExtension = ''mkv'', in_AllExtensions = [''mkv''],
       in_ContentType = ''tv_show'', in_Languages = [''ja'']\<rparr>)
    \<notin> {ReasonNSFWKeyword, ReasonNonLatinScript, ReasonNonEnglishLanguage}"
proof -
  have "plain_name ''judas'' \<and> norm_ascii ''judas'' = norm_ascii ''Judas''" by code_simp
  moreover have "''Judas'' \<in> set fansubGroupNames" by (simp add: fansubGroupNames_def)
  ultimately show ?thesis
    using fansub_release_kept [of cf_NewDefaultConfig
        "\<lparr>in_Private = False, in_Title = ''[judas] hentai r18'', in_PrimaryExtension = ''mkv'', in_AllExtensions = [''mkv''],
          in_ContentType = ''tv_show'', in_Languages = [''ja'']\<rparr>" "''judas''" "'' hentai r18''" "''Judas''" demo_scripts]
    by (simp add: cf_NewDefaultConfig_def)
qed

end
