(* ===== verification/CrawlerMetaInfo.thy ===== *)
theory CrawlerMetaInfo
  imports CrawlerTriage PeerRep ContentFilter
begin

text \<open>
  Fetching metadata: \<open>request_meta_info.go\<close> of \<open>internal/dhtcrawler\<close>, with the egress check against the
  CSAM blocklist, the loop over the peers, the ban check, and the content filter in front of the persist
  stage.
\<close>

section \<open>Metadata (\<open>request_meta_info.go\<close>)\<close>

datatype mi_err = ErrExcluded | errCsamBlocklistBlocked | BanErr string | PeerErrs "neterr list"

definition Response_zero :: Response where
  "Response_zero = \<lparr>resp_hs = \<lparr>hs_PeerID = ID_zero, hs_Bits = replicate 8 0\<rparr>, resp_Info = Info_zero\<rparr>"

text \<open>
  The loop over the peers. \<open>request\<close> is the decorated requester with its own state; \<open>errors.Join\<close> of no
  error at all is nil, so without peers the empty response counts as a success.
\<close>

fun peers_loop ::
  "crawler \<Rightarrow> ('c, 'b) gate_env \<Rightarrow> mi_methods \<Rightarrow> checker \<Rightarrow> (addr_port \<Rightarrow> 's \<Rightarrow> (neterr + Response) \<times> 's) \<Rightarrow> ID \<Rightarrow>
     addr_port list \<Rightarrow> neterr list \<Rightarrow> ('c, 'b) gates \<Rightarrow> 's \<Rightarrow> (mi_err + Response) \<times> ('c, 'b) gates \<times> 's" where
  "peers_loop c E M chk request h [] errs g s =
     (if errs = [] then Inr Response_zero else Inl (PeerErrs errs), g, s)"
| "peers_loop c E M chk request h (p # ps) errs g s =
     (let (r, s1) = request p s in
      case r of
        Inl e \<Rightarrow> peers_loop c E M chk request h ps (errs @ [e]) g s1
      | Inr res \<Rightarrow>
          let decision = np_Evaluate (ge_U E) (cr_namePolicy c) h (BestName M (resp_Info res)) in
          if \<not> Eligible decision
          then (Inl ErrExcluded,
                g\<lparr>gt_denied := np_Observe (cr_namePolicy c) ''crawler_acquisition'' decision (gt_denied g)\<rparr>, s1)
          else (case chk (resp_Info res) of
            Some banErr \<Rightarrow>
              let (_, blk) = blk_Block (ge_B E) (ge_dbf E) (ge_fresh E) (ge_buffer_order E) (ge_now E) [h] False (gt_blk g)
              in (Inl (BanErr banErr),
                  g\<lparr>gt_blk := blk, gt_ledger := recordBlockingVerdict c (ge_lf E 0) h (gt_ledger g)\<rparr>, s1)
          | None \<Rightarrow> (Inr res, g, s1)))"

definition doRequestMetaInfo ::
  "crawler \<Rightarrow> ('c, 'b) gate_env \<Rightarrow> mi_methods \<Rightarrow> checker \<Rightarrow> (addr_port \<Rightarrow> 's \<Rightarrow> (neterr + Response) \<times> 's) \<Rightarrow> ID \<Rightarrow>
     addr_port list \<Rightarrow> ('c, 'b) gates \<Rightarrow> 's \<Rightarrow> (mi_err + Response) \<times> ('c, 'b) gates \<times> 's" where
  "doRequestMetaInfo c E M chk request h peers g s =
     (if ExcludesHash (cr_namePolicy c) h
      then (Inl ErrExcluded,
            g\<lparr>gt_denied := np_Observe (cr_namePolicy c) ''crawler_acquisition''
                 (np_Evaluate (ge_U E) (cr_namePolicy c) h []) (gt_denied g)\<rparr>, s)
      else if mgr_IsBlocked (ge_C E) (ge_sha256 E) (gt_csam g) h
      then (Inl errCsamBlocklistBlocked, g\<lparr>gt_ledger := recordCsamReject c (ge_lf E 0) h ''egress'' (gt_ledger g)\<rparr>, s)
      else peers_loop c E M chk request h peers [] g s)"

subsection \<open>The input of the content filter\<close>

text \<open>\<open>path/filepath\<close> on a system with slashes.\<close>

definition clean_step :: "bool \<Rightarrow> string list \<Rightarrow> string \<Rightarrow> string list" where
  "clean_step rooted st part =
     (if part = [] \<or> part = ''.'' then st
      else if part = ''..'' then
        (if st \<noteq> [] \<and> last st \<noteq> ''..'' then butlast st else if rooted then st else st @ [part])
      else st @ [part])"

definition filepath_Clean :: "string \<Rightarrow> string" where
  "filepath_Clean p =
     (let rooted = (case p of [] \<Rightarrow> False | c # _ \<Rightarrow> c = CHR ''/'');
          st = foldl (clean_step rooted) [] (split_on (CHR ''/'') p);
          out = (if rooted then ''/'' else []) @ join ''/'' st
      in if out = [] then ''.'' else out)"

definition filepath_Join :: "string list \<Rightarrow> string" where
  "filepath_Join elems =
     (case dropWhile (\<lambda>e. e = []) elems of [] \<Rightarrow> [] | es \<Rightarrow> filepath_Clean (join ''/'' es))"

definition filepath_Base :: "string \<Rightarrow> string" where
  "filepath_Base p =
     (if p = [] then ''.''
      else let q = rev (dropWhile (\<lambda>c. c = CHR ''/'') (rev p)) in
        if q = [] then ''/'' else last (split_on (CHR ''/'') q))"

definition filepath_Ext :: "string \<Rightarrow> string" where
  "filepath_Ext p =
     (let w = last (split_on (CHR ''/'') p); parts = split_on (CHR ''.'') w in
      if length parts < 2 then [] else CHR ''.'' # last parts)"

definition file_ext :: "('x unicode_scheme) \<Rightarrow> string \<Rightarrow> string" where
  "file_ext U path =
     (let base = filepath_Base (map (\<lambda>c. if c = CHR 0x5C then CHR ''/'' else c) path);
          e = ToLower (uc_lower U) (filepath_Ext base)
      in case e of [] \<Rightarrow> [] | c # e' \<Rightarrow> if c = CHR ''.'' then e' else e)"

fun primary_loop :: "('x unicode_scheme) \<Rightarrow> FileInfo list \<Rightarrow> string \<times> int \<times> string set \<Rightarrow> string \<times> int \<times> string set" where
  "primary_loop U [] s = s"
| "primary_loop U (f # fs) (primaryExt, primarySize, exts) =
     (let ext = file_ext U (filepath_Join (fi_Path f)) in
      if ext = [] then primary_loop U fs (primaryExt, primarySize, exts)
      else if fi_Length f > primarySize then primary_loop U fs (ext, fi_Length f, insert ext exts)
      else primary_loop U fs (primaryExt, primarySize, insert ext exts))"

definition metaInfoToFilterInput :: "('x unicode_scheme) \<Rightarrow> (string set \<Rightarrow> string list) \<Rightarrow> string \<Rightarrow> FileInfo list \<Rightarrow> cf_Input" where
  "metaInfoToFilterInput U order name files =
     (let (primaryExt, allExts) =
        (if files = [] then (let e = file_ext U name in (e, if e = [] then {} else {e}))
         else let (e, _, es) = primary_loop U files ([], 0, {}) in (e, es))
      in \<lparr>in_Private = False, in_Title = name, in_PrimaryExtension = primaryExt, in_AllExtensions = order allExts,
          in_ContentType = [], in_Languages = []\<rparr>)"

text \<open>
  The handler of \<open>runRequestMetaInfo\<close>: \<open>cf\<close> is the content filter, when there is one, with the parameters
  of its tables. The match against the wish list that follows only feeds counters. \<open>dn\<close>: the context is
  cancelled before the result is taken.
\<close>

definition runRequestMetaInfo_req ::
  "crawler \<Rightarrow> ('c, 'b) gate_env \<Rightarrow> mi_methods \<Rightarrow> checker \<Rightarrow> (ID \<Rightarrow> addr_port \<Rightarrow> 's \<Rightarrow> (neterr + Response) \<times> 's) \<Rightarrow>
     ('x unicode_scheme \<times> (string set \<Rightarrow> string list)) \<Rightarrow> cf_Config option \<Rightarrow> bool \<Rightarrow>
     infoHashWithPeers \<Rightarrow> ('c, 'b) gates \<Rightarrow> 's \<Rightarrow> cf_Metrics \<Rightarrow>
     infoHashWithMetaInfo list \<times> ('c, 'b) gates \<times> 's \<times> cf_Metrics" where
  "runRequestMetaInfo_req c E M chk request tables cf dn req g s cm =
     (let (r, g1, s1) = doRequestMetaInfo c E M chk (request (nh_infoHash req)) (nh_infoHash req) (ip_peers req) g s;
          (U, order) = tables
      in case r of
           Inl _ \<Rightarrow> ([], g1, s1, cm)
         | Inr mi \<Rightarrow>
             let out = (if dn then [] else [\<lparr>nh_infoHash = nh_infoHash req, nh_node = nh_node req, im_metaInfo = resp_Info mi\<rparr>])
             in case cf of
                  Some cfg \<Rightarrow>
                    if cf_Enabled cfg then
                      (let d = DecideDeterministic U cfg
                             (metaInfoToFilterInput U order (info_Name (resp_Info mi)) (info_Files (resp_Info mi)));
                           cm' = cf_Observe d cm
                       in if \<not> cf_Allow d then ([], g1, s1, cm') else (out, g1, s1, cm'))
                    else (out, g1, s1, cm)
                | None \<Rightarrow> (out, g1, s1, cm))"

section \<open>What a fetch can return, and what it touches\<close>

lemma peers_loop_ok:
  "peers_loop c E M chk request h ps errs g s = (Inr res, g', s') \<Longrightarrow>
     ps = [] \<and> errs = [] \<or>
     (\<exists>p s0 s1. request p s0 = (Inr res, s1) \<and> Eligible (np_Evaluate (ge_U E) (cr_namePolicy c) h (BestName M (resp_Info res))) \<and>
        chk (resp_Info res) = None)"
proof (induction ps arbitrary: errs s)
  case (Cons p ps)
  obtain r s1 where r: "request p s = (r, s1)" by (metis surj_pair)
  show ?case
  proof (cases r)
    case (Inl e)
    with Cons.prems r have "peers_loop c E M chk request h ps (errs @ [e]) g s1 = (Inr res, g', s')" by simp
    from Cons.IH [OF this] show ?thesis by auto
  next
    case (Inr res')
    then show ?thesis
      using Cons.prems r by (auto simp: Let_def case_prod_beta split: if_splits option.splits)
  qed
qed (auto split: if_splits)

lemma peers_loop_csam:
  "gt_csam (fst (snd (peers_loop c E M chk request h ps errs g s))) = gt_csam g"
proof (induction ps arbitrary: errs s)
  case (Cons p ps)
  then show ?case by (auto simp: Let_def case_prod_beta split: sum.splits option.splits)
qed simp

lemma peers_loop_state:
  assumes "\<forall>p s. P s \<longrightarrow> P (snd (request p s))"
  shows "P s \<Longrightarrow> P (snd (snd (peers_loop c E M chk request h ps errs g s)))"
proof (induction ps arbitrary: errs s)
  case (Cons p ps)
  have "P (snd (request p s))" using assms Cons.prems by blast
  with Cons.IH show ?case by (auto simp: Let_def case_prod_beta split: sum.splits option.splits)
qed simp

lemma doRequestMetaInfo_csam:
  "gt_csam (fst (snd (doRequestMetaInfo c E M chk request h ps g s))) = gt_csam g"
  by (simp add: doRequestMetaInfo_def peers_loop_csam)

lemma doRequestMetaInfo_state:
  assumes "\<forall>p s. P s \<longrightarrow> P (snd (request p s))" and "P s"
  shows "P (snd (snd (doRequestMetaInfo c E M chk request h ps g s)))"
  using peers_loop_state [of P request s c E M chk h ps "[]" g, OF assms] assms(2) by (simp add: doRequestMetaInfo_def)

lemma doRequestMetaInfo_blocked:
  "mgr_IsBlocked (ge_C E) (ge_sha256 E) (gt_csam g) h \<Longrightarrow> snd (snd (doRequestMetaInfo c E M chk request h ps g s)) = s"
  by (simp add: doRequestMetaInfo_def)

lemma doRequestMetaInfo_ok:
  assumes "doRequestMetaInfo c E M chk request h ps g s = (Inr res, g', s')" and "ps \<noteq> []"
  shows "\<exists>p s0 s1. request p s0 = (Inr res, s1)" "Eligible (np_Evaluate (ge_U E) (cr_namePolicy c) h (BestName M (resp_Info res)))"
    "chk (resp_Info res) = None" "\<not> mgr_IsBlocked (ge_C E) (ge_sha256 E) (gt_csam g) h"
  using assms peers_loop_ok [of c E M chk request h ps "[]" g s res g' s'] by (auto simp: doRequestMetaInfo_def split: if_splits)

section \<open>The content filter before classification\<close>

text \<open>
  The input made of fetched metadata has neither a content type nor languages, so four of the rules cannot
  fire, among them the one about lossy music, and the decision does not depend on the order in which the
  set of extensions is ranged over.
\<close>

lemma metaInfoToFilterInput_fields:
  "in_ContentType (metaInfoToFilterInput U order n fs) = []" "in_Languages (metaInfoToFilterInput U order n fs) = []"
  "in_Title (metaInfoToFilterInput U order n fs) = n"
  "in_PrimaryExtension (metaInfoToFilterInput U order n fs) = in_PrimaryExtension (metaInfoToFilterInput U order' n fs)"
  by (simp_all add: metaInfoToFilterInput_def case_prod_beta Let_def)

lemma pre_classifier_evaluate:
  assumes "in_ContentType i = []" "in_Languages i = []"
  shows "cf_evaluate U cfg i =
     (if in_PrimaryExtension i \<noteq> [] \<and> extInBlocklist U (in_PrimaryExtension i) (cf_BlockedExtensions cfg)
      then (ReasonBlockedExtension, lower_trim U (in_PrimaryExtension i))
      else if cf_DropNSFW cfg \<and> titleMatchesNSFW (in_Title i) \<and> \<not> (cf_AnimeAware cfg \<and> IsKnownFansub (Detect (uc_lower U) (in_Title i)))
      then (ReasonNSFWKeyword, [])
      else if cf_DropNonLatinScript cfg \<and> titleContainsNonLatinScript U (in_Title i) \<and>
              \<not> (cf_AnimeAware cfg \<and> IsAnime (Detect (uc_lower U) (in_Title i)))
      then (ReasonNonLatinScript, [])
      else if cf_DropForeignAudio cfg \<and> ForeignAudioOnly (uc_lower U) (in_Title i) then (ReasonForeignAudio, [])
      else (ReasonNone, []))"
proof -
  have "\<not> isNSFWContentType U []"
    by (simp add: isNSFWContentType_def lower_trim_def TrimSpace_def ToLower_def)
  moreover have "\<not> EqualFold U [] ''music''" by (simp add: EqualFold_def)
  ultimately show ?thesis using assms by (simp add: cf_evaluate_def Let_def split del: if_split cong: if_cong)
qed

lemma pre_classifier_decision:
  "DecideDeterministic U cfg (metaInfoToFilterInput U order n fs) =
     DecideDeterministic U cfg (metaInfoToFilterInput U order' n fs)"
proof -
  note f = metaInfoToFilterInput_fields
  have "cf_evaluate U cfg (metaInfoToFilterInput U order n fs) = cf_evaluate U cfg (metaInfoToFilterInput U order' n fs)"
    by (simp only: pre_classifier_evaluate [OF f(1) f(2)] f(3) f(4) [of U order n fs order'])
  then show ?thesis by (simp add: DecideDeterministic_def)
qed

lemma music_rule_never_fires: "fst (cf_evaluate U cfg (metaInfoToFilterInput U order n fs)) \<noteq> ReasonMP3Only"
  by (simp add: pre_classifier_evaluate metaInfoToFilterInput_fields(1-3))

end
