(* ===== verification/CrawlerPersist.thy ===== *)
theory CrawlerPersist
  imports CrawlerTriage
begin

text \<open>
  Persisting torrents and their scraped counts: \<open>persist.go\<close> of \<open>internal/dhtcrawler\<close>. A batch is turned
  into rows and jobs, and one transaction writes them.
\<close>

section \<open>Persistence (\<open>persist.go\<close>)\<close>

text \<open>Conversions between Go's 64-bit \<open>int\<close> and \<open>uint\<close>.\<close>

definition uint_of_int :: "int \<Rightarrow> nat" where
  "uint_of_int i = nat (i mod 2 ^ 64)"

definition int_of_uint :: "nat \<Rightarrow> int" where
  "int_of_uint n = wrap64 (int n)"

text \<open>The loop over the files: it stops at the threshold and tells so.\<close>

fun model_files :: "mi_methods \<Rightarrow> ID \<Rightarrow> Info \<Rightarrow> int \<Rightarrow> nat \<Rightarrow> FileInfo list \<Rightarrow> TorrentFile list \<times> bool" where
  "model_files M h info threshold i [] = ([], False)"
| "model_files M h info threshold i (f # fs) =
     (if int i \<ge> threshold then ([], True)
      else let (files, over) = model_files M h info threshold (Suc i) fs in
        (\<lparr>tf_InfoHash = h, tf_Index = i, tf_Path = DisplayPath M info f, tf_Size = uint_of_int (fi_Length f)\<rparr> # files, over))"

text \<open>A threshold beyond the signed range makes the capacity of the slice negative, which panics.\<close>

definition createTorrentModel :: "mi_methods \<Rightarrow> ID \<Rightarrow> Info \<Rightarrow> bool \<Rightarrow> nat \<Rightarrow> Torrent res" where
  "createTorrentModel M h info savePieces threshold =
     (if min (int_of_uint threshold) (int (length (info_Files info))) < 0 then Inl makeslice_cap_out_of_range
      else
        let (files, over) = model_files M h info (int_of_uint threshold) 0 (info_Files info);
            multi = info_Files info \<noteq> []
        in Inr \<lparr>to_InfoHash = h, to_Name = BestName M info, to_Size = uint_of_int (TotalLength M info),
             to_Private = (case info_Private info of Some b \<Rightarrow> b | None \<Rightarrow> False),
             to_Pieces = (if savePieces
                then Some \<lparr>tp_InfoHash = h, tp_PieceLength = info_PieceLength info, tp_Pieces = info_Pieces info\<rparr> else None),
             to_Files = files,
             to_FilesStatus = (if over then FilesStatusOverThreshold else if multi then FilesStatusMulti else FilesStatusSingle),
             to_FilesCount = (if multi then Some (length (info_Files info)) else None),
             to_Sources = [(''dht'', h)]\<rparr>)"

definition classifyBatchSize :: nat where "classifyBatchSize = 100"

definition NewProcessJob :: "time \<Rightarrow> ID list \<Rightarrow> QueueJob" where
  "NewProcessJob now hashes = \<lparr>qj_Queue = ''process_torrent'', qj_InfoHashes = hashes, qj_RunAfter = now + Minute, qj_MaxRetries = 2\<rparr>"

record persist_state =
  pe_torrents :: "Torrent list"
  pe_files :: "TorrentFile list"
  pe_sources :: "(string \<times> ID) list"
  pe_pieces :: "TorrentPieces list"
  pe_jobs :: "QueueJob list"
  pe_hashMap :: "ID \<rightharpoonup> infoHashWithMetaInfo"
  pe_toClassify :: "ID list"
  pe_denied :: denied_total

definition persist_init :: "denied_total \<Rightarrow> persist_state" where
  "persist_init dn = \<lparr>pe_torrents = [], pe_files = [], pe_sources = [], pe_pieces = [], pe_jobs = [],
     pe_hashMap = Map.empty, pe_toClassify = [], pe_denied = dn\<rparr>"

definition flushHashesToClassify :: "time \<Rightarrow> persist_state \<Rightarrow> persist_state" where
  "flushHashesToClassify now s =
     (if pe_toClassify s \<noteq> [] then s\<lparr>pe_jobs := pe_jobs s @ [NewProcessJob now (pe_toClassify s)], pe_toClassify := []\<rparr>
      else s\<lparr>pe_toClassify := []\<rparr>)"

definition persist_item :: "crawler \<Rightarrow> scripts \<Rightarrow> mi_methods \<Rightarrow> time \<Rightarrow> infoHashWithMetaInfo \<Rightarrow> persist_state \<Rightarrow> persist_state res" where
  "persist_item c U M now i s =
     (let h = nh_infoHash i; d = np_Evaluate U (cr_namePolicy c) h (BestName M (im_metaInfo i)) in
      if \<not> Eligible d
      then Inr (s\<lparr>pe_denied := np_Observe (cr_namePolicy c) ''crawler_acquisition'' d (pe_denied s)\<rparr>)
      else if pe_hashMap s h \<noteq> None then Inr s
      else
        let s1 = s\<lparr>pe_hashMap := (pe_hashMap s)(h \<mapsto> i)\<rparr> in
        res_bind (createTorrentModel M h (im_metaInfo i) (cr_savePieces c) (cr_saveFilesThreshold c)) (\<lambda>t.
          let s2 = s1\<lparr>pe_files := pe_files s1 @ to_Files t,
                      pe_sources := pe_sources s1 @ to_Sources t,
                      pe_pieces := pe_pieces s1 @ (case to_Pieces t of Some p \<Rightarrow> [p] | None \<Rightarrow> []),
                      pe_torrents := pe_torrents s1 @ [t\<lparr>to_Files := [], to_Sources := [], to_Pieces := None\<rparr>],
                      pe_toClassify := pe_toClassify s1 @ [h]\<rparr>
          in Inr (if length (pe_toClassify s2) \<ge> classifyBatchSize then flushHashesToClassify now s2 else s2)))"

fun persist_items :: "crawler \<Rightarrow> scripts \<Rightarrow> mi_methods \<Rightarrow> time \<Rightarrow> infoHashWithMetaInfo list \<Rightarrow> persist_state \<Rightarrow> persist_state res" where
  "persist_items c U M now [] s = Inr s"
| "persist_items c U M now (i # is) s = res_bind (persist_item c U M now i s) (persist_items c U M now is)"

text \<open>The statements of the transaction: an upsert of four columns, and three insertions that keep existing rows.\<close>

definition upsert_torrent :: "Torrent \<Rightarrow> (ID \<rightharpoonup> Torrent) \<Rightarrow> ID \<rightharpoonup> Torrent" where
  "upsert_torrent t m =
     m(to_InfoHash t \<mapsto> (case m (to_InfoHash t) of
         None \<Rightarrow> t
       | Some old \<Rightarrow> old\<lparr>to_Name := to_Name t, to_FilesStatus := to_FilesStatus t, to_FilesCount := to_FilesCount t\<rparr>))"

definition insert_file :: "TorrentFile \<Rightarrow> TorrentFile list \<Rightarrow> TorrentFile list" where
  "insert_file f fs =
     (if list_ex (\<lambda>g. tf_InfoHash g = tf_InfoHash f \<and> (tf_Path g = tf_Path f \<or> tf_Index g = tf_Index f)) fs
      then fs else fs @ [f])"

definition insert_source :: "time \<Rightarrow> string \<times> ID \<Rightarrow> (string \<times> ID \<rightharpoonup> source_row) \<Rightarrow> string \<times> ID \<rightharpoonup> source_row" where
  "insert_source now k m =
     (if m k = None
      then m(k \<mapsto> \<lparr>so_Seeders = None, so_Leechers = None, so_PublishedAt = None, so_UpdatedAt = now\<rparr>) else m)"

definition insert_pieces :: "TorrentPieces \<Rightarrow> (ID \<rightharpoonup> TorrentPieces) \<Rightarrow> ID \<rightharpoonup> TorrentPieces" where
  "insert_pieces p m = (if m (tp_InfoHash p) = None then m(tp_InfoHash p \<mapsto> p) else m)"

definition persist_tx :: "time \<Rightarrow> persist_state \<Rightarrow> catalogue \<Rightarrow> catalogue" where
  "persist_tx now s db =
     \<lparr>ct_torrents = fold upsert_torrent (pe_torrents s) (ct_torrents db),
      ct_files = fold insert_file (pe_files s) (ct_files db),
      ct_sources = fold (insert_source now) (pe_sources s) (ct_sources db),
      ct_pieces = fold insert_pieces (pe_pieces s) (ct_pieces db),
      ct_jobs = ct_jobs db @ pe_jobs s\<rparr>"

text \<open>
  One batch of \<open>runPersistTorrents\<close>: \<open>fails\<close> is whether the transaction fails, \<open>order\<close> the order in which the
  map of hashes is ranged over. The result is the catalogue, the counter of denials, the number of
  torrents counted as persisted and the requests sent to the scrape stage.
\<close>

definition runPersistTorrents_batch ::
  "crawler \<Rightarrow> scripts \<Rightarrow> mi_methods \<Rightarrow> time \<Rightarrow> bool \<Rightarrow> (ID set \<Rightarrow> ID list) \<Rightarrow> nat \<Rightarrow> infoHashWithMetaInfo list \<Rightarrow>
     catalogue \<Rightarrow> denied_total \<Rightarrow> (catalogue \<times> denied_total \<times> nat \<times> nodeHasPeersForHash list) res" where
  "runPersistTorrents_batch c U M now fails order k is db dn =
     res_bind (persist_items c U M now is (flushHashesToClassify now (persist_init dn))) (\<lambda>s1.
       let s = flushHashesToClassify now s1 in
       if fails then Inr (db, pe_denied s, 0, [])
       else Inr (persist_tx now s db, pe_denied s, length (pe_torrents s),
         take k (List.map_filter (\<lambda>h. map_option (\<lambda>i. \<lparr>nh_infoHash = nh_infoHash i, nh_node = nh_node i\<rparr>) (pe_hashMap s h))
           (order (dom (pe_hashMap s))))))"

text \<open>Scraped counts: \<open>size\<close> is the estimate of the third-party Bloom filter.\<close>

definition createTorrentSourceModel :: "('f \<Rightarrow> nat) \<Rightarrow> time \<Rightarrow> 'f infoHashWithScrape \<Rightarrow> (string \<times> ID) \<times> source_row" where
  "createTorrentSourceModel ApproximatedSize now r =
     ((''dht'', nh_infoHash r),
      \<lparr>so_Seeders = Some (ApproximatedSize (is_bfsd r)), so_Leechers = Some (ApproximatedSize (is_bfpe r)),
       so_PublishedAt = None, so_UpdatedAt = now\<rparr>)"

fun scrape_dedup :: "'f infoHashWithScrape list \<Rightarrow> ID set \<Rightarrow> 'f infoHashWithScrape list" where
  "scrape_dedup [] seen = []"
| "scrape_dedup (r # rs) seen =
     (if nh_infoHash r \<in> seen then scrape_dedup rs seen else r # scrape_dedup rs (insert (nh_infoHash r) seen))"

text \<open>
  One batch of \<open>runPersistSources\<close>: the statement the query builder makes of the conflict clause and the
  existence condition is a parameter that fails or gives the new catalogue; the result also has the number
  of rows counted as persisted.
\<close>

definition runPersistSources_batch ::
  "('f \<Rightarrow> nat) \<Rightarrow> time \<Rightarrow> (((string \<times> ID) \<times> source_row) list \<Rightarrow> catalogue \<Rightarrow> string + catalogue) \<Rightarrow>
     'f infoHashWithScrape list \<Rightarrow> catalogue \<Rightarrow> catalogue \<times> nat" where
  "runPersistSources_batch ApproximatedSize now upsert scrapes db =
     (let srcs = map (createTorrentSourceModel ApproximatedSize now) (scrape_dedup scrapes {}) in
      case upsert srcs db of Inl _ \<Rightarrow> (db, 0) | Inr db' \<Rightarrow> (db', length srcs))"

section \<open>What a batch leaves behind\<close>

text \<open>A record with which the triage stage has nothing left to fetch, for the threshold in force.\<close>

definition settled :: "nat \<Rightarrow> Torrent \<Rightarrow> bool" where
  "settled threshold t \<longleftrightarrow>
     to_FilesStatus t = FilesStatusSingle \<or>
     (\<exists>n. to_FilesCount t = Some n \<and>
        (to_FilesStatus t = FilesStatusMulti \<or> to_FilesStatus t = FilesStatusOverThreshold \<and> threshold < n))"

lemma model_files_over: "snd (model_files M h info T i fs) \<longleftrightarrow> fs \<noteq> [] \<and> T < int (i + length fs)"
proof (induction fs arbitrary: i)
  case (Cons f fs)
  have "snd (model_files M h info T i (f # fs)) \<longleftrightarrow> T \<le> int i \<or> snd (model_files M h info T (Suc i) fs)"
    by (simp add: case_prod_beta Let_def)
  then show ?case unfolding Cons.IH by (cases fs) auto
qed simp

lemma createTorrentModel_ok:
  assumes "threshold < 2 ^ 63"
  obtains t where "createTorrentModel M h info sp threshold = Inr t" "to_InfoHash t = h" "settled threshold t"
    "to_Sources t = [(''dht'', h)]"
proof -
  have T: "int_of_uint threshold = int threshold"
    using assms by (simp add: int_of_uint_def wrap64_def)
  obtain files over where mf: "model_files M h info (int threshold) 0 (info_Files info) = (files, over)"
    by (metis surj_pair)
  have over: "over \<longleftrightarrow> info_Files info \<noteq> [] \<and> threshold < length (info_Files info)"
    using model_files_over [of M h info "int threshold" 0 "info_Files info"] mf by simp
  have "\<exists>t. createTorrentModel M h info sp threshold = Inr t \<and> to_InfoHash t = h \<and> settled threshold t \<and>
      to_Sources t = [(''dht'', h)]"
    by (simp add: createTorrentModel_def T mf settled_def over min_less_iff_disj Let_def)
  with that show thesis by blast
qed

text \<open>The state of a batch: what is recorded of a hash, what its jobs name, and how large they are.\<close>

definition persist_inv :: "crawler \<Rightarrow> persist_state \<Rightarrow> bool" where
  "persist_inv c s \<longleftrightarrow>
     dom (pe_hashMap s) = to_InfoHash ` set (pe_torrents s) \<and>
     concat (map qj_InfoHashes (pe_jobs s)) @ pe_toClassify s = map to_InfoHash (pe_torrents s) \<and>
     list_all (\<lambda>j. 0 < length (qj_InfoHashes j) \<and> length (qj_InfoHashes j) \<le> classifyBatchSize) (pe_jobs s) \<and>
     length (pe_toClassify s) < classifyBatchSize \<and>
     list_all (settled (cr_saveFilesThreshold c)) (pe_torrents s) \<and>
     distinct (map to_InfoHash (pe_torrents s)) \<and>
     pe_sources s = map (\<lambda>t. (''dht'', to_InfoHash t)) (pe_torrents s) \<and>
     (\<forall>h i. pe_hashMap s h = Some i \<longrightarrow> nh_infoHash i = h)"

lemma flush_fields [simp]:
  "pe_hashMap (flushHashesToClassify now s) = pe_hashMap s"
  "pe_torrents (flushHashesToClassify now s) = pe_torrents s"
  "pe_sources (flushHashesToClassify now s) = pe_sources s"
  "pe_toClassify (flushHashesToClassify now s) = []"
  "pe_denied (flushHashesToClassify now s) = pe_denied s"
  by (simp_all add: flushHashesToClassify_def)

lemma flush_jobs:
  "concat (map qj_InfoHashes (pe_jobs (flushHashesToClassify now s))) =
     concat (map qj_InfoHashes (pe_jobs s)) @ pe_toClassify s"
  "list_all P (pe_jobs (flushHashesToClassify now s)) \<longleftrightarrow>
     list_all P (pe_jobs s) \<and> (pe_toClassify s \<noteq> [] \<longrightarrow> P (NewProcessJob now (pe_toClassify s)))"
  by (auto simp: flushHashesToClassify_def NewProcessJob_def)

lemma persist_init_inv: "persist_inv c (flushHashesToClassify now (persist_init dn))"
  by (simp add: persist_inv_def persist_init_def flushHashesToClassify_def classifyBatchSize_def)

lemma flush_inv: "persist_inv c s \<Longrightarrow> persist_inv c (flushHashesToClassify now s)"
  by (auto simp: persist_inv_def flush_jobs NewProcessJob_def classifyBatchSize_def)

abbreviation acquires :: "crawler \<Rightarrow> scripts \<Rightarrow> mi_methods \<Rightarrow> infoHashWithMetaInfo \<Rightarrow> bool" where
  "acquires c U M i \<equiv> Eligible (np_Evaluate U (cr_namePolicy c) (nh_infoHash i) (BestName M (im_metaInfo i)))"

lemma persist_item_inv:
  assumes "cr_saveFilesThreshold c < 2 ^ 63" and inv: "persist_inv c s"
  obtains s' where "persist_item c U M now i s = Inr s'" "persist_inv c s'"
    "dom (pe_hashMap s') = (if acquires c U M i then insert (nh_infoHash i) (dom (pe_hashMap s)) else dom (pe_hashMap s))"
proof (cases "acquires c U M i \<and> pe_hashMap s (nh_infoHash i) = None")
  case False
  let ?d = "np_Evaluate U (cr_namePolicy c) (nh_infoHash i) (BestName M (im_metaInfo i))"
  let ?s = "if acquires c U M i then s else s\<lparr>pe_denied := np_Observe (cr_namePolicy c) ''crawler_acquisition'' ?d (pe_denied s)\<rparr>"
  have run: "persist_item c U M now i s = Inr ?s" using False by (auto simp: persist_item_def Let_def)
  show thesis
    by (rule that [OF run]) (use inv False in \<open>auto simp: persist_inv_def insert_absorb domIff\<close>)
next
  case True
  let ?h = "nh_infoHash i"
  obtain t where t: "createTorrentModel M ?h (im_metaInfo i) (cr_savePieces c) (cr_saveFilesThreshold c) = Inr t"
    "to_InfoHash t = ?h" "settled (cr_saveFilesThreshold c) t" "to_Sources t = [(''dht'', ?h)]"
    using createTorrentModel_ok [OF assms(1)] by blast
  define t' where "t' = t\<lparr>to_Files := [], to_Sources := [], to_Pieces := None\<rparr>"
  define s2 where "s2 = s\<lparr>pe_hashMap := (pe_hashMap s)(?h \<mapsto> i), pe_files := pe_files s @ to_Files t,
     pe_sources := pe_sources s @ to_Sources t,
     pe_pieces := pe_pieces s @ (case to_Pieces t of Some p \<Rightarrow> [p] | None \<Rightarrow> []),
     pe_torrents := pe_torrents s @ [t'], pe_toClassify := pe_toClassify s @ [?h]\<rparr>"
  have t': "to_InfoHash t' = ?h" "settled (cr_saveFilesThreshold c) t'"
    using t by (simp_all add: t'_def settled_def)
  have run: "persist_item c U M now i s =
      Inr (if length (pe_toClassify s2) \<ge> classifyBatchSize then flushHashesToClassify now s2 else s2)"
    using True t(1) by (simp add: persist_item_def s2_def t'_def Let_def)
  have "?h \<notin> to_InfoHash ` set (pe_torrents s)" using True inv by (auto simp: persist_inv_def)
  then have new: "persist_inv c (flushHashesToClassify now s2)" "length (pe_toClassify s2) < classifyBatchSize \<Longrightarrow> persist_inv c s2"
    using inv t(4) t' by (auto simp: persist_inv_def s2_def flush_jobs NewProcessJob_def classifyBatchSize_def)
  show thesis
    by (rule that [OF run]) (use new True in \<open>auto simp: s2_def\<close>)
qed

lemma persist_items_inv:
  assumes "cr_saveFilesThreshold c < 2 ^ 63"
  shows "persist_inv c s \<Longrightarrow> \<exists>s'. persist_items c U M now is s = Inr s' \<and> persist_inv c s' \<and>
     dom (pe_hashMap s') = dom (pe_hashMap s) \<union> nh_infoHash ` {i \<in> set is. acquires c U M i}"
proof (induction "is" arbitrary: s)
  case (Cons i "is")
  obtain s1 where s1: "persist_item c U M now i s = Inr s1" "persist_inv c s1"
    "dom (pe_hashMap s1) = (if acquires c U M i then insert (nh_infoHash i) (dom (pe_hashMap s)) else dom (pe_hashMap s))"
    using persist_item_inv [OF assms Cons.prems] by blast
  with Cons.IH [OF s1(2)] show ?case by auto
qed simp

subsection \<open>The rows of the transaction\<close>

lemma upsert_settled:
  assumes "settled T t"
  shows "\<exists>t'. upsert_torrent t m (to_InfoHash t) = Some t' \<and> settled T t'"
  using assms by (auto simp: upsert_torrent_def settled_def split: option.splits)

lemma fold_upsert_settled:
  "\<lbrakk>list_all (settled T) ts; h \<in> to_InfoHash ` set ts \<or> (\<exists>t. m h = Some t \<and> settled T t)\<rbrakk> \<Longrightarrow>
     \<exists>t. fold upsert_torrent ts m h = Some t \<and> settled T t"
proof (induction ts arbitrary: m)
  case (Cons t ts)
  have "h = to_InfoHash t \<or> (h \<noteq> to_InfoHash t \<longrightarrow> upsert_torrent t m h = m h)" by (simp add: upsert_torrent_def)
  then have "h \<in> to_InfoHash ` set ts \<or> (\<exists>t'. upsert_torrent t m h = Some t' \<and> settled T t')"
    using Cons.prems upsert_settled [of T t m] by (cases "h = to_InfoHash t") (auto simp: upsert_torrent_def)
  then show ?case using Cons.IH [of "upsert_torrent t m"] Cons.prems(1) by simp
qed auto

lemma fold_upsert_other: "h \<notin> to_InfoHash ` set ts \<Longrightarrow> fold upsert_torrent ts m h = m h"
  by (induction ts arbitrary: m) (auto simp: upsert_torrent_def)

lemma fold_insert_source_new:
  "(k \<in> set ks \<and> m k = None) \<or> (\<exists>r. m k = Some r \<and> so_Seeders r = None) \<Longrightarrow>
     \<exists>r. fold (insert_source now) ks m k = Some r \<and> so_Seeders r = None"
proof (induction ks arbitrary: m)
  case (Cons a ks)
  have "(k \<in> set ks \<and> insert_source now a m k = None) \<or> (\<exists>r. insert_source now a m k = Some r \<and> so_Seeders r = None)"
    using Cons.prems by (auto simp: insert_source_def)
  then show ?case using Cons.IH [of "insert_source now a m"] by simp
qed auto

lemma settled_route:
  assumes "ct_torrents db h = Some t" "settled (cr_saveFilesThreshold c) t" "h \<in> set hs"
  shows "triage_route_of c later (foundTorrents hs db h) \<noteq> Some ToGetPeers" (is ?A)
    and "\<lbrakk>ct_sources db (''dht'', h) = Some r; so_Seeders r = None\<rbrakk> \<Longrightarrow>
      triage_route_of c later (foundTorrents hs db h) = Some ToScrape"
proof -
  have "\<not> needs_meta_info c (foundTorrents hs db h)"
    using assms by (auto simp: needs_meta_info_def foundTorrents_def settled_def Let_def)
  then show ?A and "\<lbrakk>ct_sources db (''dht'', h) = Some r; so_Seeders r = None\<rbrakk> \<Longrightarrow>
      triage_route_of c later (foundTorrents hs db h) = Some ToScrape"
    using assms by (auto simp: triage_route_of_def needs_scrape_def foundTorrents_def Let_def)
qed

text \<open>The names in the catalogue are those of the batch, or were there before.\<close>

lemma createTorrentModel_name:
  assumes "createTorrentModel M h info sp T = Inr t"
  shows "to_InfoHash t = h" "to_Name t = BestName M info"
  using assms by (auto simp: createTorrentModel_def Let_def case_prod_beta split: if_splits)

lemma persist_item_torrents:
  assumes "persist_item c U M now i s = Inr s'"
  shows "set (pe_torrents s') \<subseteq> set (pe_torrents s) \<union> {t. to_InfoHash t = nh_infoHash i \<and> to_Name t = BestName M (im_metaInfo i)}"
proof (cases "acquires c U M i \<and> pe_hashMap s (nh_infoHash i) = None")
  case True
  then obtain t where "createTorrentModel M (nh_infoHash i) (im_metaInfo i) (cr_savePieces c) (cr_saveFilesThreshold c) = Inr t"
    "set (pe_torrents s') = set (pe_torrents s) \<union> {t\<lparr>to_Files := [], to_Sources := [], to_Pieces := None\<rparr>}"
    using assms by (auto simp: persist_item_def Let_def res_bind_def split: sum.splits)
  with createTorrentModel_name [OF this(1)] show ?thesis by simp
qed (use assms in \<open>auto simp: persist_item_def Let_def split: if_splits\<close>)

lemma persist_items_torrents:
  "persist_items c U M now is s = Inr s' \<Longrightarrow>
     set (pe_torrents s') \<subseteq> set (pe_torrents s) \<union>
       {t. \<exists>i \<in> set is. to_InfoHash t = nh_infoHash i \<and> to_Name t = BestName M (im_metaInfo i)}"
proof (induction "is" arbitrary: s)
  case (Cons i "is")
  then obtain s1 where s1: "persist_item c U M now i s = Inr s1" "persist_items c U M now is s1 = Inr s'"
    by (auto simp: res_bind_def split: sum.splits)
  show ?case using persist_item_torrents [OF s1(1)] Cons.IH [OF s1(2)] by auto
qed simp

lemma fold_upsert_name:
  "fold upsert_torrent ts m h = Some t \<Longrightarrow> m h = Some t \<or> (\<exists>t' \<in> set ts. to_InfoHash t' = h \<and> to_Name t' = to_Name t)"
proof (induction ts arbitrary: m)
  case (Cons a ts)
  then have "upsert_torrent a m h = Some t \<or> (\<exists>t' \<in> set ts. to_InfoHash t' = h \<and> to_Name t' = to_Name t)" by simp
  then show ?case by (auto simp: upsert_torrent_def split: if_splits option.splits)
qed simp

lemma persisted_names:
  assumes "runPersistTorrents_batch c U M now fails order k is db dn = Inr (db', dn', n, reqs)"
    and "ct_torrents db' h = Some t"
  shows "ct_torrents db h = Some t \<or> (\<exists>i \<in> set is. nh_infoHash i = h \<and> to_Name t = BestName M (im_metaInfo i))"
proof -
  obtain s1 where s1: "persist_items c U M now is (flushHashesToClassify now (persist_init dn)) = Inr s1"
    and db': "db' = db \<or> db' = persist_tx now (flushHashesToClassify now s1) db"
    using assms(1) by (auto simp: runPersistTorrents_batch_def res_bind_def Let_def split: sum.splits if_splits)
  have "set (pe_torrents s1) \<subseteq> {t. \<exists>i \<in> set is. to_InfoHash t = nh_infoHash i \<and> to_Name t = BestName M (im_metaInfo i)}"
    using persist_items_torrents [OF s1] by (simp add: persist_init_def)
  then show ?thesis
    using db' assms(2) fold_upsert_name [of "pe_torrents s1" "ct_torrents db" h t] by (fastforce simp: persist_tx_def)
qed

text \<open>C7.
  A batch of fetched torrents is persisted completely and once. When the transaction succeeds, the new
  jobs name every acquired hash exactly once, in jobs of one to a hundred hashes, and the counter goes up
  by their number. Rows of other hashes are untouched. A persisted hash that is sampled again is never
  routed back to a metadata fetch while the threshold stays as it is, and one that had no counts goes
  to the scrape stage.\<close>

theorem persisted_not_refetched:
  assumes "cr_saveFilesThreshold c < 2 ^ 63"
    and "H = nh_infoHash ` {i \<in> set is. acquires c U M i}"
  shows "\<exists>db' dn' n reqs jobs. runPersistTorrents_batch c U M now False order k is db dn = Inr (db', dn', n, reqs) \<and>
     ct_jobs db' = ct_jobs db @ jobs \<and>
     distinct (concat (map qj_InfoHashes jobs)) \<and> set (concat (map qj_InfoHashes jobs)) = H \<and> n = card H \<and>
     list_all (\<lambda>j. 0 < length (qj_InfoHashes j) \<and> length (qj_InfoHashes j) \<le> 100) jobs \<and>
     (\<forall>h. h \<notin> H \<longrightarrow> ct_torrents db' h = ct_torrents db h) \<and>
     (\<forall>h hs later. h \<in> H \<and> h \<in> set hs \<longrightarrow>
        triage_route_of c later (foundTorrents hs db' h) \<noteq> Some ToGetPeers \<and>
        (ct_sources db (''dht'', h) = None \<longrightarrow> triage_route_of c later (foundTorrents hs db' h) = Some ToScrape))"
proof -
  obtain s1 where s1: "persist_items c U M now is (flushHashesToClassify now (persist_init dn)) = Inr s1" "persist_inv c s1"
    "dom (pe_hashMap s1) = H"
    using persist_items_inv [OF assms(1) persist_init_inv [of c now dn], of U M now "is"] assms(2) by (auto simp: persist_init_def)
  define s where "s = flushHashesToClassify now s1"
  define db' where "db' = persist_tx now s db"
  have inv: "persist_inv c s" and H: "dom (pe_hashMap s) = H" using flush_inv [OF s1(2)] s1(3) by (simp_all add: s_def)
  have none: "pe_toClassify s = []" by (simp add: s_def)
  have ih: "to_InfoHash ` set (pe_torrents s) = H" and names: "concat (map qj_InfoHashes (pe_jobs s)) = map to_InfoHash (pe_torrents s)"
    and dist: "distinct (map to_InfoHash (pe_torrents s))"
    using inv H none by (simp_all add: persist_inv_def)
  have run: "\<exists>dn' reqs. runPersistTorrents_batch c U M now False order k is db dn = Inr (db', dn', length (pe_torrents s), reqs)"
    using s1(1) by (simp add: runPersistTorrents_batch_def Let_def db'_def s_def)
  have card: "length (pe_torrents s) = card H"
    using distinct_card [OF dist] ih by simp
  have row: "\<exists>t. ct_torrents db' h = Some t \<and> settled (cr_saveFilesThreshold c) t" if "h \<in> H" for h
    using fold_upsert_settled [of "cr_saveFilesThreshold c" "pe_torrents s" h "ct_torrents db"] inv ih that
    by (simp add: db'_def persist_tx_def persist_inv_def)
  have src: "\<exists>r. ct_sources db' (''dht'', h) = Some r \<and> so_Seeders r = None" if "h \<in> H" "ct_sources db (''dht'', h) = None" for h
  proof -
    have "(''dht'', h) \<in> set (pe_sources s)" using inv ih that(1) by (auto simp: persist_inv_def)
    then show ?thesis
      using fold_insert_source_new [of "(''dht'', h)" "pe_sources s" "ct_sources db" now] that(2)
      by (simp add: db'_def persist_tx_def)
  qed
  have routes: "\<forall>h hs later. h \<in> H \<and> h \<in> set hs \<longrightarrow>
        triage_route_of c later (foundTorrents hs db' h) \<noteq> Some ToGetPeers \<and>
        (ct_sources db (''dht'', h) = None \<longrightarrow> triage_route_of c later (foundTorrents hs db' h) = Some ToScrape)"
    using settled_route row src by meson
  have jobs: "ct_jobs db' = ct_jobs db @ pe_jobs s" by (simp add: db'_def persist_tx_def)
  have other: "\<forall>h. h \<notin> H \<longrightarrow> ct_torrents db' h = ct_torrents db h"
    using fold_upsert_other [of _ "pe_torrents s"] ih by (simp add: db'_def persist_tx_def)
  have bounds: "list_all (\<lambda>j. 0 < length (qj_InfoHashes j) \<and> length (qj_InfoHashes j) \<le> 100) (pe_jobs s)"
    using inv by (simp add: persist_inv_def classifyBatchSize_def)
  have named: "distinct (concat (map qj_InfoHashes (pe_jobs s)))" "set (concat (map qj_InfoHashes (pe_jobs s))) = H"
    using names dist ih by simp_all
  show ?thesis using run card jobs named bounds other routes by blast
qed

definition demo_methods :: mi_methods where
  "demo_methods = \<lparr>BestName = info_Name, TotalLength = \<lambda>_. 1048576, DisplayPath = \<lambda>_ _. []\<rparr>"

definition demo_fetched :: infoHashWithMetaInfo where
  "demo_fetched = \<lparr>nh_infoHash = demo_hash 4, nh_node = \<lparr>ap_addr = Addr4 [1, 2, 3, 4], ap_port = 6881\<rparr>, im_metaInfo = Info_zero\<rparr>"

theorem persisted_not_refetched_witness:
  "\<exists>db' dn' reqs. runPersistTorrents_batch demo_crawler (ge_U demo_gate_env) demo_methods 5 False (\<lambda>_. []) 9
       [demo_fetched, demo_fetched] demo_catalogue (\<lambda>_. 0) = Inr (db', dn', 1, reqs) \<and>
     triage_route_of demo_crawler 6 (foundTorrents [demo_hash 4] db' (demo_hash 4)) = Some ToScrape"
proof -
  have c: "cr_saveFilesThreshold demo_crawler < 2 ^ 63" by (simp add: demo_crawler_def)
  have H: "{demo_hash 4} = nh_infoHash ` {i \<in> set [demo_fetched, demo_fetched]. acquires demo_crawler (ge_U demo_gate_env) demo_methods i}"
    by (auto simp: demo_fetched_def demo_crawler_def np_Evaluate_def np_enabled_def)
  have "ct_sources demo_catalogue (''dht'', demo_hash 4) = None" by (simp add: demo_catalogue_def)
  with persisted_not_refetched [OF c H, of 5 "\<lambda>_. []" 9 demo_catalogue "\<lambda>_. 0"] show ?thesis by fastforce
qed

end
