(* ===== verification/Pipeline.thy ===== *)
theory Pipeline
  imports CrawlerMetaInfo CrawlerPersist
begin

text \<open>
  The stages of the crawler put together: a state with the routing table, the queues between the stages,
  the catalogue, the gates and the requester, and a step relation in which any stage may take any value
  that waits for it, and the CSAM blocklist may be refreshed at any moment. A handler is one step; a fetch
  is placed at its check of the blocklist. What the outside does in a step is arbitrary: replies, times,
  faults of the database, orders of ranges over maps, streams of the dialled peers.
\<close>

section \<open>The state and the steps\<close>

record ('c, 'i, 'x) wiring =
  wi_crawler :: crawler
  wi_C :: "'c bloom_ops"
  wi_sha256 :: "byte list \<Rightarrow> byte list"
  wi_U :: scripts
  wi_tables :: "'x unicode_scheme"
  wi_filter :: "cf_Config option"
  wi_methods :: mi_methods
  wi_checker :: checker
  wi_coders :: coders
  wi_clientID :: ID
  wi_testAndAdd :: "'i \<Rightarrow> ID \<Rightarrow> bool \<times> 'i"
  wi_lower :: "string \<Rightarrow> string"

record ('c, 'b, 'i) pipe =
  pi_table :: table
  pi_ignore :: 'i
  pi_triage :: "nodeHasPeersForHash list"
  pi_getPeers :: "nodeHasPeersForHash list"
  pi_scrape :: "nodeHasPeersForHash list"
  pi_metaInfo :: "infoHashWithPeers list"
  pi_persist :: "infoHashWithMetaInfo list"
  pi_catalogue :: catalogue
  pi_gates :: "('c, 'b) gates"
  pi_requester :: req_state
  pi_counters :: cf_Metrics

definition routed :: "triage_route \<Rightarrow> (triage_route \<times> nodeHasPeersForHash) list \<Rightarrow> nodeHasPeersForHash list" where
  "routed x sends = map snd (filter (\<lambda>s. fst s = x) sends)"

definition env_of :: "('c, 'i, 'x) wiring \<Rightarrow> ('c, 'b) gate_env \<Rightarrow> bool" where
  "env_of S E \<longleftrightarrow> ge_C E = wi_C S \<and> ge_sha256 E = wi_sha256 S \<and> ge_U E = wi_U S"

inductive pipe_step :: "('c, 'i, 'x) wiring \<Rightarrow> (refresh \<Rightarrow> bool) \<Rightarrow> ('c, 'b, 'i) pipe \<Rightarrow> ('c, 'b, 'i) pipe \<Rightarrow> bool"
  for S R where
  sample: "\<lbrakk>reply_ok q; wf_ID (Node_ID n);
      runSampleInfoHashes_node (wi_testAndAdd S) now q k k' n (pi_table p, pi_ignore p) = Inr (t', ig', hs, ns)\<rbrakk> \<Longrightarrow>
    pipe_step S R p (p\<lparr>pi_table := t', pi_ignore := ig', pi_triage := pi_triage p @ hs\<rparr>)"
| triage: "\<lbrakk>pi_triage p = batch @ rest; env_of S E;
      runInfoHashTriage_batch (wi_crawler S) E k batch (pi_catalogue p) (pi_gates p) = (sends, g')\<rbrakk> \<Longrightarrow>
    pipe_step S R p (p\<lparr>pi_triage := rest, pi_gates := g', pi_getPeers := pi_getPeers p @ routed ToGetPeers sends,
      pi_scrape := pi_scrape p @ routed ToScrape sends\<rparr>)"
| get_peers: "\<lbrakk>pi_getPeers p = qs @ r # qs'; reply_ok q;
      runGetPeers_req now q sent dn r (pi_table p) = Inr (t', ns, out)\<rbrakk> \<Longrightarrow>
    pipe_step S R p (p\<lparr>pi_table := t', pi_getPeers := qs @ qs', pi_metaInfo := pi_metaInfo p @ out\<rparr>)"
| fetch: "\<lbrakk>pi_metaInfo p = qs @ r # qs'; env_of S E;
      runRequestMetaInfo_req (wi_crawler S) E (wi_methods S) (wi_checker S) (chain_Request (wi_coders S) (wi_clientID S) W)
        (wi_tables S, order) (wi_filter S) dn r (pi_gates p) (pi_requester p) (pi_counters p) = (out, g', s', cm')\<rbrakk> \<Longrightarrow>
    pipe_step S R p (p\<lparr>pi_metaInfo := qs @ qs', pi_persist := pi_persist p @ out, pi_gates := g',
      pi_requester := s', pi_counters := cm'\<rparr>)"
| persist: "\<lbrakk>pi_persist p = batch @ rest;
      runPersistTorrents_batch (wi_crawler S) (wi_U S) (wi_methods S) now fails order k batch (pi_catalogue p)
        (gt_denied (pi_gates p)) = Inr (db', dn', m, reqs)\<rbrakk> \<Longrightarrow>
    pipe_step S R p (p\<lparr>pi_persist := rest, pi_catalogue := db', pi_gates := (pi_gates p)\<lparr>gt_denied := dn'\<rparr>,
      pi_scrape := pi_scrape p @ reqs\<rparr>)"
| scrape: "\<lbrakk>pi_scrape p = qs @ r # qs'; reply_ok q;
      runScrape_req conv now q sent dn r (pi_table p) = Inr (t', ns, out :: ScrapeBloomFilter infoHashWithScrape list)\<rbrakk> \<Longrightarrow>
    pipe_step S R p (p\<lparr>pi_table := t', pi_scrape := qs @ qs'\<rparr>)"
| sources: "pipe_step S R p (p\<lparr>pi_catalogue := (pi_catalogue p)\<lparr>ct_sources := rows\<rparr>\<rparr>)"
| refresh: "\<lbrakk>gt_csam (pi_gates p) = Live s; R (now, http, us);
      map_order (cs_lastGood (fst (csam_Refresh (wi_C S) (wi_lower S) now http us s))) us\<rbrakk> \<Longrightarrow>
    pipe_step S R p (p\<lparr>pi_gates := (pi_gates p)\<lparr>gt_csam := Live (fst (csam_Refresh (wi_C S) (wi_lower S) now http us s))\<rparr>\<rparr>)"

section \<open>Nothing reaches the catalogue without passing the gates\<close>

definition filter_allows :: "('c, 'i, 'x) wiring \<Rightarrow> Info \<Rightarrow> bool" where
  "filter_allows S info \<longleftrightarrow>
     (case wi_filter S of
        None \<Rightarrow> True
      | Some cfg \<Rightarrow> cf_Enabled cfg \<longrightarrow>
          cf_Allow (DecideDeterministic (wi_tables S) cfg
            (metaInfoToFilterInput (wi_tables S) (\<lambda>_. []) (info_Name info) (info_Files info))))"

text \<open>Metadata that belongs to a hash and that every gate lets through.\<close>

definition vetted :: "('c, 'i, 'x) wiring \<Rightarrow> ID \<Rightarrow> Info \<Rightarrow> bool" where
  "vetted S h info \<longleftrightarrow>
     (\<exists>md. length md < 10485760 \<and> HashBytes (wi_coders S) md = h \<and> unmarshal_info (wi_coders S) md = Inr info) \<and>
     validateInfo info = None \<and> wi_checker S info = None \<and>
     Eligible (np_Evaluate (wi_U S) (cr_namePolicy (wi_crawler S)) h (BestName (wi_methods S) info)) \<and>
     filter_allows S info"

lemma runGetPeers_peers:
  assumes "runGetPeers_req now q sent dn r t = Inr (t', ns, out)" "x \<in> set out"
  shows "ip_peers x \<noteq> []" "nh_infoHash x = nh_infoHash r"
  using assms
  by (auto simp: runGetPeers_req_def requestPeersForHash_def res_bind_def Let_def split: sum.splits if_splits)

lemma runRequestMetaInfo_cases:
  assumes run: "runRequestMetaInfo_req c E M chk request (U, order) cf dn r g s cm = (out, g', s', cm')"
  obtains result where
    "doRequestMetaInfo c E M chk (request (nh_infoHash r)) (nh_infoHash r) (ip_peers r) g s = (result, g', s')"
    "out = [] \<or> (\<exists>res. result = Inr res \<and>
       out = [\<lparr>nh_infoHash = nh_infoHash r, nh_node = nh_node r, im_metaInfo = resp_Info res\<rparr>] \<and>
       (\<forall>cfg. cf = Some cfg \<longrightarrow> cf_Enabled cfg \<longrightarrow> cf_Allow (DecideDeterministic U cfg
          (metaInfoToFilterInput U order (info_Name (resp_Info res)) (info_Files (resp_Info res))))))"
proof -
  obtain result g1 s1 where d:
    "doRequestMetaInfo c E M chk (request (nh_infoHash r)) (nh_infoHash r) (ip_peers r) g s = (result, g1, s1)"
    by (metis surj_pair)
  have same: "g1 = g' \<and> s1 = s'"
    using run by (auto simp: runRequestMetaInfo_req_def d Let_def split: sum.splits option.splits if_splits)
  show thesis
  proof (cases result)
    case (Inl e)
    then have "out = []" using run by (simp add: runRequestMetaInfo_req_def d)
    then show thesis using that d same by blast
  next
    case (Inr res)
    show thesis
      by (rule that) (use run same d Inr in
          \<open>auto simp: runRequestMetaInfo_req_def Let_def split: option.splits if_splits\<close>)
  qed
qed

lemma fetch_vetted:
  assumes run: "runRequestMetaInfo_req (wi_crawler S) E (wi_methods S) (wi_checker S) (chain_Request (wi_coders S) (wi_clientID S) W)
        (wi_tables S, order) (wi_filter S) dn r g s cm = (out, g', s', cm')"
    and env: "env_of S E" and peers: "ip_peers r \<noteq> []" and x: "x \<in> set out"
  shows "vetted S (nh_infoHash x) (im_metaInfo x)"
proof -
  let ?req = "chain_Request (wi_coders S) (wi_clientID S) W (nh_infoHash r)"
  obtain res where h: "nh_infoHash x = nh_infoHash r" and info: "im_metaInfo x = resp_Info res"
    and ok: "doRequestMetaInfo (wi_crawler S) E (wi_methods S) (wi_checker S) ?req (nh_infoHash r) (ip_peers r) g s = (Inr res, g', s')"
    and cf: "\<And>cfg. \<lbrakk>wi_filter S = Some cfg; cf_Enabled cfg\<rbrakk> \<Longrightarrow> cf_Allow (DecideDeterministic (wi_tables S) cfg
            (metaInfoToFilterInput (wi_tables S) order (info_Name (im_metaInfo x)) (info_Files (im_metaInfo x))))"
    by (rule runRequestMetaInfo_cases [OF run]) (use x in auto)
  note d = doRequestMetaInfo_ok [OF ok peers]
  obtain dial where "requester_Request (wi_coders S) (wi_clientID S) dial (nh_infoHash r) = Inr res"
    using d(1) chain_Request_ok by metis
  then obtain md where "length md < maxMetadataSize" "HashBytes (wi_coders S) md = nh_infoHash r"
    "unmarshal_info (wi_coders S) md = Inr (resp_Info res)" "validateInfo (resp_Info res) = None"
    by (rule requester_Request_sound)
  moreover have "filter_allows S (im_metaInfo x)"
    using cf by (auto simp: filter_allows_def split: option.splits
        simp: pre_classifier_decision [where order = "\<lambda>_. []" and order' = order])
  ultimately show ?thesis
    using d env h info by (auto simp: vetted_def env_of_def maxMetadataSize_def)
qed

definition pipe_inv :: "('c, 'i, 'x) wiring \<Rightarrow> catalogue \<Rightarrow> ('c, 'b, 'i) pipe \<Rightarrow> bool" where
  "pipe_inv S db p \<longleftrightarrow>
     (\<forall>r \<in> set (pi_metaInfo p). ip_peers r \<noteq> []) \<and>
     (\<forall>i \<in> set (pi_persist p). vetted S (nh_infoHash i) (im_metaInfo i)) \<and>
     (\<forall>h t. ct_torrents (pi_catalogue p) h = Some t \<longrightarrow>
        ct_torrents db h = Some t \<or> (\<exists>info. vetted S h info \<and> to_Name t = BestName (wi_methods S) info))"

lemma pipe_step_inv: "pipe_step S R p p' \<Longrightarrow> pipe_inv S db p \<Longrightarrow> pipe_inv S db p'"
proof (induction rule: pipe_step.induct)
  case (get_peers p qs r qs' q now sent dn t' ns out)
  then show ?case using runGetPeers_peers(1) [OF get_peers(3)] by (auto simp: pipe_inv_def)
next
  case (fetch p qs r qs' E W order dn out g' s' cm')
  then show ?case using fetch_vetted [OF fetch(3,2)] by (auto simp: pipe_inv_def)
next
  case (persist p batch rest now fails order k db' dn' m reqs)
  then have vet: "\<forall>i \<in> set batch. vetted S (nh_infoHash i) (im_metaInfo i)" by (simp add: pipe_inv_def)
  have "ct_torrents db h = Some t \<or> (\<exists>info. vetted S h info \<and> to_Name t = BestName (wi_methods S) info)"
    if "ct_torrents db' h = Some t" for h t
    using persisted_names [OF persist(2) that]
  proof
    assume "ct_torrents (pi_catalogue p) h = Some t"
    then show ?thesis using persist(3) by (simp add: pipe_inv_def)
  next
    assume "\<exists>i \<in> set batch. nh_infoHash i = h \<and> to_Name t = BestName (wi_methods S) (im_metaInfo i)"
    then show ?thesis using vet by blast
  qed
  then show ?case using persist(1,3) by (simp add: pipe_inv_def)
qed (simp_all add: pipe_inv_def)

lemma pipe_inv_reach: "(pipe_step S R)\<^sup>*\<^sup>* p p' \<Longrightarrow> pipe_inv S db p \<Longrightarrow> pipe_inv S db p'"
  by (induction rule: rtranclp_induct) (blast intro: pipe_step_inv)+

text \<open>C1.
  Whatever the stages, the nodes they query, the peers they fetch from and the feeds do, and in every
  interleaving: a record that a crawler which starts with empty queues adds to the catalogue, or the name
  it changes in one, comes from metadata below 10 MiB that hashes to the info hash, passes validation and
  the ban checks, has a name the policy admits, and is allowed by the content filter. Every other record is
  the one that was there.\<close>

theorem catalogue_gated:
  assumes "(pipe_step S R)\<^sup>*\<^sup>* p p'" and "pi_metaInfo p = []" and "pi_persist p = []"
    and "ct_torrents (pi_catalogue p') h = Some t"
  shows "ct_torrents (pi_catalogue p) h = Some t \<or> (\<exists>info. vetted S h info \<and> to_Name t = BestName (wi_methods S) info)"
proof -
  have "pipe_inv S (pi_catalogue p) p" using assms(2,3) by (simp add: pipe_inv_def)
  from pipe_inv_reach [OF assms(1) this] show ?thesis using assms(4) by (auto simp: pipe_inv_def)
qed

section \<open>A listed hash is never fetched\<close>

text \<open>
  A hash is listed when the digest is among the entries last read from a feed and in the active filter. A
  refresh keeps it listed when the feed is down or still has the digest.
\<close>

definition csam_listed :: "('c, 'i, 'x) wiring \<Rightarrow> string \<Rightarrow> int \<Rightarrow> ID \<Rightarrow> 'c csam_service \<Rightarrow> bool" where
  "csam_listed S u mx h s \<longleftrightarrow>
     u \<in> set (csam_feeds s) \<and> cs_FeedMaxBytes s = mx \<and>
     (\<exists>es. cs_lastGood s u = Some es \<and> DoubleHash (wi_sha256 S) h \<in> set es) \<and>
     bl_Test (wi_C S) (cs_active s) (DoubleHash (wi_sha256 S) h)"

definition feed_keeps :: "('c, 'i, 'x) wiring \<Rightarrow> string \<Rightarrow> int \<Rightarrow> ID \<Rightarrow> refresh \<Rightarrow> bool" where
  "feed_keeps S u mx h r =
     (case r of (_, http, _) \<Rightarrow>
        case fetchFeed (wi_lower S) mx (http u) of Inl _ \<Rightarrow> True | Inr es \<Rightarrow> DoubleHash (wi_sha256 S) h \<in> set es)"

lemma csam_listed_refresh:
  assumes "no_false_negatives (wi_C S)" "csam_listed S u mx h s" "feed_keeps S u mx h (now, http, us)"
    and "map_order (cs_lastGood (fst (csam_Refresh (wi_C S) (wi_lower S) now http us s))) us"
  shows "csam_listed S u mx h (fst (csam_Refresh (wi_C S) (wi_lower S) now http us s))"
proof -
  let ?s = "fst (csam_Refresh (wi_C S) (wi_lower S) now http us s)"
  have ne: "csam_feeds s \<noteq> []" using assms(2) by (auto simp: csam_listed_def)
  obtain es where good: "cs_lastGood ?s u = Some es" "DoubleHash (wi_sha256 S) h \<in> set es"
    using csam_Refresh_lastGood [OF ne, of "wi_C S" "wi_lower S" now http us u] assms(2,3)
    by (auto simp: csam_listed_def feed_keeps_def split: sum.splits)
  from csam_Refresh_active [OF assms(1) ne assms(4) good] good show ?thesis
    using assms(2) by (auto simp: csam_listed_def csam_feeds_def)
qed

lemma csam_listed_blocks: "csam_listed S u mx h s \<Longrightarrow> mgr_IsBlocked (wi_C S) (wi_sha256 S) (Live s) h"
  by (simp add: csam_listed_def csam_IsBlocked_def)

lemma triage_csam: "runInfoHashTriage_batch c E k reqs db g = (sends, g') \<Longrightarrow> gt_csam g' = gt_csam g"
  by (auto simp: runInfoHashTriage_batch_def Let_def case_prod_beta split: sum.splits if_splits)

lemma chain_log_of:
  assumes "h' \<noteq> h" "P = (\<lambda>s. filter (\<lambda>e. fst e = h) (rq_log s) = l)" "P s"
  shows "P (snd (chain_Request k cid W h' a s))"
  using chain_Request_log [of k cid W h' a s "fst (chain_Request k cid W h' a s)" "snd (chain_Request k cid W h' a s)"] assms
  by auto

lemma fetch_log:
  assumes run: "runRequestMetaInfo_req c E M chk (chain_Request k cid W) (U, order) cf dn r g s cm = (out, g', s', cm')"
    and blocked: "mgr_IsBlocked (ge_C E) (ge_sha256 E) (gt_csam g) h"
  shows "filter (\<lambda>e. fst e = h) (rq_log s') = filter (\<lambda>e. fst e = h) (rq_log s)"
    and "gt_csam g' = gt_csam g" and "\<forall>x \<in> set out. nh_infoHash x \<noteq> h"
proof -
  let ?req = "chain_Request k cid W (nh_infoHash r)"
  obtain result where d: "doRequestMetaInfo c E M chk ?req (nh_infoHash r) (ip_peers r) g s = (result, g', s')"
    and out: "out = [] \<or> (\<exists>res. result = Inr res \<and> (\<exists>n. out = [\<lparr>nh_infoHash = nh_infoHash r, nh_node = n, im_metaInfo = resp_Info res\<rparr>]))"
    by (rule runRequestMetaInfo_cases [OF run]) auto
  show "gt_csam g' = gt_csam g" using doRequestMetaInfo_csam [of c E M chk ?req "nh_infoHash r" "ip_peers r" g s] d by simp
  show "filter (\<lambda>e. fst e = h) (rq_log s') = filter (\<lambda>e. fst e = h) (rq_log s)"
  proof (cases "nh_infoHash r = h")
    case True
    then show ?thesis using doRequestMetaInfo_blocked [OF blocked, of c M chk ?req "ip_peers r" s] d by simp
  next
    case False
    let ?P = "\<lambda>s'. filter (\<lambda>e. fst e = h) (rq_log s') = filter (\<lambda>e. fst e = h) (rq_log s)"
    have "\<forall>p s. ?P s \<longrightarrow> ?P (snd (?req p s))" using chain_log_of [OF False refl] by blast
    then have "?P (snd (snd (doRequestMetaInfo c E M chk ?req (nh_infoHash r) (ip_peers r) g s)))"
      by (rule doRequestMetaInfo_state [where P = ?P]) simp
    then show ?thesis using d by simp
  qed
  show "\<forall>x \<in> set out. nh_infoHash x \<noteq> h"
    using out d blocked by (auto simp: doRequestMetaInfo_def split: if_splits)
qed

definition shut_out :: "('c, 'i, 'x) wiring \<Rightarrow> string \<Rightarrow> int \<Rightarrow> ID \<Rightarrow> ('c, 'b, 'i) pipe \<Rightarrow> ('c, 'b, 'i) pipe \<Rightarrow> bool" where
  "shut_out S u mx h p0 p \<longleftrightarrow>
     (\<exists>s. gt_csam (pi_gates p) = Live s \<and> csam_listed S u mx h s) \<and>
     filter (\<lambda>e. fst e = h) (rq_log (pi_requester p)) = filter (\<lambda>e. fst e = h) (rq_log (pi_requester p0)) \<and>
     ((\<forall>i \<in> set (pi_persist p0). nh_infoHash i \<noteq> h) \<longrightarrow>
        (\<forall>i \<in> set (pi_persist p). nh_infoHash i \<noteq> h) \<and> ct_torrents (pi_catalogue p) h = ct_torrents (pi_catalogue p0) h)"

lemma shut_out_blocked:
  assumes "shut_out S u mx h p0 p"
  shows "mgr_IsBlocked (wi_C S) (wi_sha256 S) (gt_csam (pi_gates p)) h"
proof -
  obtain s where "gt_csam (pi_gates p) = Live s" "csam_listed S u mx h s" using assms by (auto simp: shut_out_def)
  then show ?thesis using csam_listed_blocks [of S u mx h s] by simp
qed

lemma persisted_other:
  assumes "runPersistTorrents_batch c U M now fails order k is db dn = Inr (db', dn', n, reqs)"
    and "\<forall>i \<in> set is. nh_infoHash i \<noteq> h"
  shows "ct_torrents db' h = ct_torrents db h"
proof -
  obtain s1 where s1: "persist_items c U M now is (flushHashesToClassify now (persist_init dn)) = Inr s1"
    and db': "db' = db \<or> db' = persist_tx now (flushHashesToClassify now s1) db"
    using assms(1) by (auto simp: runPersistTorrents_batch_def res_bind_def Let_def split: sum.splits if_splits)
  have "h \<notin> to_InfoHash ` set (pe_torrents s1)"
    using persist_items_torrents [OF s1] assms(2) by (fastforce simp: persist_init_def)
  then show ?thesis using db' fold_upsert_other [of h "pe_torrents s1"] by (auto simp: persist_tx_def)
qed

lemma shut_out_step:
  assumes "pipe_step S (feed_keeps S u mx h) p p'" and "shut_out S u mx h p0 p" and "no_false_negatives (wi_C S)"
  shows "shut_out S u mx h p0 p'"
  using assms
proof (induction rule: pipe_step.induct)
  case (triage p batch rest E k sends g')
  then show ?case using triage_csam [OF triage(3)] by (simp add: shut_out_def)
next
  case (fetch p qs r qs' E W order dn out g' s' cm')
  then have "mgr_IsBlocked (ge_C E) (ge_sha256 E) (gt_csam (pi_gates p)) h"
    using shut_out_blocked [OF fetch(4)] by (simp add: env_of_def)
  from fetch_log [OF fetch(3) this] fetch(4) show ?case by (auto simp: shut_out_def)
next
  case (persist p batch rest now fails order k db' dn' m reqs)
  then show ?case using persisted_other [OF persist(2), of h] by (auto simp: shut_out_def)
next
  case (refresh p s now http us)
  then show ?case using csam_listed_refresh [of S u mx h s now http us] by (auto simp: shut_out_def)
qed (simp_all add: shut_out_def)


section \<open>An unknown hash with an honest peer reaches the catalogue\<close>

lemma triage_sends_unknown:
  assumes "runInfoHashTriage_batch c E k reqs db g = (sends, g')" "bm_recovery (fst (gt_blk g)) = None"
    "blk_refresh E (gt_blk g) = (None, m, bdb)" "\<not> ge_query_fails E" "length reqs \<le> k" "hash_order_ok E"
    and find: "find (\<lambda>q. nh_infoHash q = nh_infoHash r) reqs = Some r"
    and admits: "triage_admits c E g m (nh_infoHash r)" and new: "ct_torrents db (nh_infoHash r) = None"
  shows "r \<in> set (routed ToGetPeers sends)"
proof -
  obtain H where H: "set H = {h. h \<in> nh_infoHash ` set reqs \<and> triage_admits c E g m h}"
    "sends = List.map_filter (\<lambda>h. case find (\<lambda>q. nh_infoHash q = h) reqs of Some r \<Rightarrow> send_of c E db r | None \<Rightarrow> None) H"
    by (rule triage_sends [OF assms(1-6)])
  have "send_of c E db r = Some (ToGetPeers, r)"
    using new by (simp add: send_of_def foundTorrents_def name_decision_def triage_route_of_def needs_meta_info_def)
  moreover have "nh_infoHash r \<in> set H" using H(1) admits find_hash [OF find] by auto
  ultimately have "(ToGetPeers, r) \<in> set sends" using find by (force simp: H(2) set_map_filter_iff)
  then show ?thesis by (force simp: routed_def)
qed

lemma runGetPeers_forwards:
  assumes "table_reach org t" "wf_ID org" "reply_ok q" "wf_ID (nh_infoHash r)"
    and "client_GetPeers q = Inr (Inr res)" "gp_Values res \<noteq> []"
  shows "\<exists>t' ns. runGetPeers_req now q sent False r t =
     Inr (t', ns, [\<lparr>nh_infoHash = nh_infoHash r, nh_node = nh_node r, ip_peers = gp_Values res\<rparr>])"
proof -
  obtain t' ns rs where run: "runGetPeers_req now q sent False r t = Inr (t', ns, rs)"
    using runGetPeers_reach [OF assms(1-4)] by blast
  then have "rs = [\<lparr>nh_infoHash = nh_infoHash r, nh_node = nh_node r, ip_peers = gp_Values res\<rparr>]"
    using assms(5,6) by (auto simp: runGetPeers_req_def requestPeersForHash_def res_bind_def Let_def split: sum.splits if_splits)
  with run show ?thesis by blast
qed

lemma chain_Request_answers:
  assumes "requester_Request k cid (re_dial (W (rq_calls s))) h = Inr resp" "re_limit (W (rq_calls s)) = None"
    and "Allow (snd (rep_Decide (re_start (W (rq_calls s))) a (rq_store s)))"
  shows "\<exists>s'. chain_Request k cid W h a s = (Inr resp, s')"
  using assms by (simp add: chain_Request_def peerRepWrapper_Request_def requestLimiter_Request_def Let_def case_prod_beta)

lemma fetch_forwards:
  assumes "\<exists>s'. request (nh_infoHash r) a s = (Inr resp, s')" "ip_peers r = a # as"
    and "\<not> ExcludesHash (cr_namePolicy c) (nh_infoHash r)" "\<not> mgr_IsBlocked (ge_C E) (ge_sha256 E) (gt_csam g) (nh_infoHash r)"
    and "Eligible (np_Evaluate (ge_U E) (cr_namePolicy c) (nh_infoHash r) (BestName M (resp_Info resp)))"
    and "chk (resp_Info resp) = None"
    and "\<And>cfg. \<lbrakk>cf = Some cfg; cf_Enabled cfg\<rbrakk> \<Longrightarrow> cf_Allow (DecideDeterministic U cfg
        (metaInfoToFilterInput U order (info_Name (resp_Info resp)) (info_Files (resp_Info resp))))"
  shows "\<exists>g' s' cm'. runRequestMetaInfo_req c E M chk request (U, order) cf False r g s cm =
     ([\<lparr>nh_infoHash = nh_infoHash r, nh_node = nh_node r, im_metaInfo = resp_Info resp\<rparr>], g', s', cm')"
proof -
  obtain s' where s': "request (nh_infoHash r) a s = (Inr resp, s')" using assms(1) by blast
  have "doRequestMetaInfo c E M chk (request (nh_infoHash r)) (nh_infoHash r) (ip_peers r) g s = (Inr resp, g, s')"
    using assms(2-6) s' by (simp add: doRequestMetaInfo_def)
  then show ?thesis
    using assms(7) by (simp add: runRequestMetaInfo_req_def Let_def split: option.split)
qed

lemma persist_stores:
  assumes "cr_saveFilesThreshold c < 2 ^ 63" "x \<in> set is" "acquires c U M x"
    and "\<forall>i \<in> set is. nh_infoHash i = nh_infoHash x \<longrightarrow> i = x" "ct_torrents db (nh_infoHash x) = None"
  shows "\<exists>db' dn' n reqs t. runPersistTorrents_batch c U M now False order k is db dn = Inr (db', dn', n, reqs) \<and>
     ct_torrents db' (nh_infoHash x) = Some t \<and> to_Name t = BestName M (im_metaInfo x)"
proof -
  obtain s1 where s1: "persist_items c U M now is (flushHashesToClassify now (persist_init dn)) = Inr s1" "persist_inv c s1"
    "nh_infoHash x \<in> dom (pe_hashMap s1)"
    using persist_items_inv [OF assms(1) persist_init_inv [of c now dn], of U M now "is"] assms(2,3) by auto
  let ?db = "persist_tx now (flushHashesToClassify now s1) db"
  obtain dn' n reqs where run: "runPersistTorrents_batch c U M now False order k is db dn = Inr (?db, dn', n, reqs)"
    using s1(1) by (simp add: runPersistTorrents_batch_def Let_def)
  obtain t where t: "ct_torrents ?db (nh_infoHash x) = Some t"
    using fold_upsert_settled [of "cr_saveFilesThreshold c" "pe_torrents s1" "nh_infoHash x" "ct_torrents db"] s1(2,3)
    by (auto simp: persist_tx_def persist_inv_def)
  with persisted_names [OF run t] assms(4,5) run show ?thesis by auto
qed

lemma deliver_triage:
  assumes "env_of S E" "hash_order_ok E" "\<not> ge_query_fails E" "bm_recovery (fst (gt_blk (pi_gates p))) = None"
    "blk_refresh E (gt_blk (pi_gates p)) = (None, m, bdb)"
    and "find (\<lambda>q. nh_infoHash q = nh_infoHash r) (pi_triage p) = Some r"
    "triage_admits (wi_crawler S) E (pi_gates p) m (nh_infoHash r)" "ct_torrents (pi_catalogue p) (nh_infoHash r) = None"
  obtains p' where "pipe_step S R p p'" "r \<in> set (pi_getPeers p')" "pi_table p' = pi_table p" "pi_requester p' = pi_requester p"
    "pi_persist p' = pi_persist p" "pi_catalogue p' = pi_catalogue p" "gt_csam (pi_gates p') = gt_csam (pi_gates p)"
proof -
  obtain sends g1 where tri: "runInfoHashTriage_batch (wi_crawler S) E (length (pi_triage p)) (pi_triage p) (pi_catalogue p) (pi_gates p) = (sends, g1)"
    by (metis surj_pair)
  show thesis
  proof (rule that)
    show "pipe_step S R p (p\<lparr>pi_triage := [], pi_gates := g1, pi_getPeers := pi_getPeers p @ routed ToGetPeers sends,
        pi_scrape := pi_scrape p @ routed ToScrape sends\<rparr>)"
      by (rule pipe_step.triage [OF _ assms(1) tri]) simp
  qed (use triage_sends_unknown [OF tri assms(4,5,3) order_refl assms(2,6-8)] triage_csam [OF tri] in simp_all)
qed

lemma deliver_get_peers:
  assumes "r \<in> set (pi_getPeers p)" "table_reach org (pi_table p)" "wf_ID org" "wf_ID (nh_infoHash r)"
    and "reply_ok q" "client_GetPeers q = Inr (Inr res)" "gp_Values res \<noteq> []"
  obtains p' where "pipe_step S R p p'" "pi_requester p' = pi_requester p" "pi_persist p' = pi_persist p"
    "pi_catalogue p' = pi_catalogue p" "pi_gates p' = pi_gates p"
    "\<lparr>nh_infoHash = nh_infoHash r, nh_node = nh_node r, ip_peers = gp_Values res\<rparr> \<in> set (pi_metaInfo p')"
proof -
  obtain qs qs' where q: "pi_getPeers p = qs @ r # qs'" using assms(1) by (meson split_list)
  let ?out = "[\<lparr>nh_infoHash = nh_infoHash r, nh_node = nh_node r, ip_peers = gp_Values res\<rparr>]"
  obtain t ns where get: "runGetPeers_req 0 q (\<lambda>_. False) False r (pi_table p) = Inr (t, ns, ?out)"
    using runGetPeers_forwards [OF assms(2,3,5,4,6,7)] by blast
  show thesis
    by (rule that, rule pipe_step.get_peers [OF q assms(5) get]) simp_all
qed

lemma deliver_fetch:
  fixes p :: "('c, 'b, 'i) pipe" and E :: "('c, 'b) gate_env"
  assumes "r \<in> set (pi_metaInfo p)" "ip_peers r = a # as" "env_of S E"
    and "requester_Request (wi_coders S) (wi_clientID S) (Inr conn) (nh_infoHash r) = Inr resp"
    and "Allow (snd (rep_Decide now a (rq_store (pi_requester p))))"
    and "\<not> ExcludesHash (cr_namePolicy (wi_crawler S)) (nh_infoHash r)"
      "\<not> mgr_IsBlocked (wi_C S) (wi_sha256 S) (gt_csam (pi_gates p)) (nh_infoHash r)"
    and "Eligible (np_Evaluate (wi_U S) (cr_namePolicy (wi_crawler S)) (nh_infoHash r) (BestName (wi_methods S) (resp_Info resp)))"
      "wi_checker S (resp_Info resp) = None" "filter_allows S (resp_Info resp)"
  obtains p' where "pipe_step S R p p'" "pi_catalogue p' = pi_catalogue p"
    "pi_persist p' = pi_persist p @ [\<lparr>nh_infoHash = nh_infoHash r, nh_node = nh_node r, im_metaInfo = resp_Info resp\<rparr>]"
proof -
  obtain qs qs' where q: "pi_metaInfo p = qs @ r # qs'" using assms(1) by (meson split_list)
  let ?W = "\<lambda>_. \<lparr>re_start = now, re_end = now, re_evicted = None, re_limit = None, re_dial = Inr conn\<rparr>"
  let ?request = "chain_Request (wi_coders S) (wi_clientID S) ?W"
  have "\<exists>s'. ?request (nh_infoHash r) a (pi_requester p) = (Inr resp, s')"
    by (rule chain_Request_answers) (use assms(4,5) in simp_all)
  then have "\<exists>g' s' cm'. runRequestMetaInfo_req (wi_crawler S) E (wi_methods S) (wi_checker S) ?request
      (wi_tables S, \<lambda>_. []) (wi_filter S) False r (pi_gates p) (pi_requester p) (pi_counters p) =
      ([\<lparr>nh_infoHash = nh_infoHash r, nh_node = nh_node r, im_metaInfo = resp_Info resp\<rparr>], g', s', cm')"
    by (rule fetch_forwards [where request = ?request and r = r and s = "pi_requester p"])
      (use assms in \<open>auto simp: env_of_def filter_allows_def split: option.splits\<close>)
  then obtain g' s' cm' where f: "runRequestMetaInfo_req (wi_crawler S) E (wi_methods S) (wi_checker S) ?request
      (wi_tables S, \<lambda>_. []) (wi_filter S) False r (pi_gates p) (pi_requester p) (pi_counters p) =
      ([\<lparr>nh_infoHash = nh_infoHash r, nh_node = nh_node r, im_metaInfo = resp_Info resp\<rparr>], g', s', cm')"
    by blast
  show thesis
    by (rule that, rule pipe_step.fetch [OF q assms(3) f]) simp_all
qed

lemma deliver_run:
  assumes tab: "table_reach org (pi_table p)" "wf_ID org" and thr: "cr_saveFilesThreshold (wi_crawler S) < 2 ^ 63"
    and hash: "find (\<lambda>q. nh_infoHash q = h) (pi_triage p) = Some r" "wf_ID h" "ct_torrents (pi_catalogue p) h = None"
      "\<forall>i \<in> set (pi_persist p). nh_infoHash i \<noteq> h"
    and env: "env_of S E" "hash_order_ok E" "\<not> ge_query_fails E" "bm_recovery (fst (gt_blk (pi_gates p))) = None"
      "blk_refresh E (gt_blk (pi_gates p)) = (None, m, bdb)" "triage_admits (wi_crawler S) E (pi_gates p) m h"
    and reply: "reply_ok q" "client_GetPeers q = Inr (Inr res)" "gp_Values res = a # as"
    and peer: "length (proto (wi_coders S)) = 20" "wf_ID (wi_clientID S)" "honest_peer (wi_coders S) h pid bits md conn"
      "Allow (snd (rep_Decide now a (rq_store (pi_requester p))))"
    and info: "HashBytes (wi_coders S) md = h" "unmarshal_info (wi_coders S) md = Inr info" "validateInfo info = None"
    and pass: "Eligible (np_Evaluate (wi_U S) (cr_namePolicy (wi_crawler S)) h (BestName (wi_methods S) info))"
      "wi_checker S info = None" "filter_allows S info"
  shows "\<exists>p' t. (pipe_step S R)\<^sup>*\<^sup>* p p' \<and> ct_torrents (pi_catalogue p') h = Some t \<and>
     to_Name t = BestName (wi_methods S) info"
proof -
  let ?resp = "\<lparr>resp_hs = \<lparr>hs_PeerID = pid, hs_Bits = bits\<rparr>, resp_Info = info\<rparr>"
  have answer: "requester_Request (wi_coders S) (wi_clientID S) (Inr conn) h = Inr ?resp"
    using honest_peer_answers [OF peer(1) hash(2) peer(2,3) info] .
  have r: "nh_infoHash r = h" using find_hash [OF hash(1)] by simp
  obtain p1 where p1: "pipe_step S R p p1" "r \<in> set (pi_getPeers p1)" "pi_table p1 = pi_table p" "pi_requester p1 = pi_requester p"
    "pi_persist p1 = pi_persist p" "pi_catalogue p1 = pi_catalogue p" "gt_csam (pi_gates p1) = gt_csam (pi_gates p)"
    by (rule deliver_triage [OF env(1-5), of r R]) (use hash env(6) r in simp_all)
  obtain p2 where p2: "pipe_step S R p1 p2" "pi_requester p2 = pi_requester p1" "pi_persist p2 = pi_persist p1"
    "pi_catalogue p2 = pi_catalogue p1" "pi_gates p2 = pi_gates p1"
    "\<lparr>nh_infoHash = nh_infoHash r, nh_node = nh_node r, ip_peers = gp_Values res\<rparr> \<in> set (pi_metaInfo p2)"
    by (rule deliver_get_peers [OF p1(2), of org q res S R]) (use tab p1(3) hash(2) r reply in simp_all)
  obtain p3 x where p3: "pipe_step S R p2 p3" "pi_catalogue p3 = pi_catalogue p2" "pi_persist p3 = pi_persist p2 @ [x]"
    "nh_infoHash x = h" "im_metaInfo x = info"
    by (rule deliver_fetch [OF p2(6), of a as S E conn ?resp now R])
      (use reply(3) env(1,6) answer peer(4) pass p1 p2 r in \<open>simp_all add: triage_admits_def env_of_def\<close>)
  have "\<exists>db' dn' n reqs t. runPersistTorrents_batch (wi_crawler S) (wi_U S) (wi_methods S) 0 False (\<lambda>_. []) 0 (pi_persist p3)
      (pi_catalogue p3) (gt_denied (pi_gates p3)) = Inr (db', dn', n, reqs) \<and>
     ct_torrents db' (nh_infoHash x) = Some t \<and> to_Name t = BestName (wi_methods S) (im_metaInfo x)"
    by (rule persist_stores) (use thr hash pass(1) p1 p2 p3 in auto)
  then obtain db' dn' n reqs t where per: "runPersistTorrents_batch (wi_crawler S) (wi_U S) (wi_methods S) 0 False (\<lambda>_. []) 0
      (pi_persist p3) (pi_catalogue p3) (gt_denied (pi_gates p3)) = Inr (db', dn', n, reqs)"
    and t: "ct_torrents db' h = Some t" "to_Name t = BestName (wi_methods S) (info)" using p3 by auto
  define p4 where "p4 = p3\<lparr>pi_persist := [], pi_catalogue := db', pi_gates := (pi_gates p3)\<lparr>gt_denied := dn'\<rparr>,
      pi_scrape := pi_scrape p3 @ reqs\<rparr>"
  have step4: "pipe_step S R p3 p4" unfolding p4_def by (rule pipe_step.persist [OF _ per]) simp
  have "(pipe_step S R)\<^sup>*\<^sup>* p p4"
    using p1(1) p2(1) p3(1) step4 by (meson converse_rtranclp_into_rtranclp rtranclp.rtrancl_refl)
  moreover have "pi_catalogue p4 = db'" by (simp add: p4_def)
  ultimately show ?thesis using t by blast
qed

section \<open>A crawler with one hash for each gate and one that gets through\<close>

definition demo_unicode :: unicode where
  "demo_unicode = \<lparr>is_Han = \<lambda>_. False, is_Cyrillic = \<lambda>_. False, is_Hiragana = \<lambda>_. False, is_Katakana = \<lambda>_. False,
     is_Hangul = \<lambda>_. False, is_Arabic = \<lambda>_. False, is_Hebrew = \<lambda>_. False, is_Devanagari = \<lambda>_. False,
     is_Bengali = \<lambda>_. False, is_Tamil = \<lambda>_. False, is_Thai = \<lambda>_. False, uc_lower = id, uc_fold = (=)\<rparr>"

definition demo_wiring :: "(byte list set, unit, unit) wiring" where
  "demo_wiring = \<lparr>wi_crawler = demo_crawler, wi_C = set_bloom, wi_sha256 = id, wi_U = ge_U demo_gate_env,
     wi_tables = demo_unicode,
     wi_filter = None, wi_methods = demo_methods, wi_checker = banning_New demo_methods [],
     wi_coders = demo_coders, wi_clientID = ID_zero, wi_testAndAdd = \<lambda>u _. (True, u), wi_lower = id\<rparr>"

definition demo_pipe :: "(byte list set, byte list set, unit) pipe" where
  "demo_pipe = \<lparr>pi_table = newTable (replicate 20 0), pi_ignore = (), pi_triage = map demo_req [1, 2, 5, 3],
     pi_getPeers = [], pi_scrape = [], pi_metaInfo = [], pi_persist = [], pi_catalogue = demo_catalogue, pi_gates = demo_gates,
     pi_requester = \<lparr>rq_store = rep_NewStore rep_NewDefaultConfig,
       rq_rep = \<lparr>wouldSkipTotal = \<lambda>_. 0, skippedTotal = \<lambda>_. 0, observedTotal = \<lambda>_. 0\<rparr>,
       rq_metrics = \<lparr>requestSuccessTotal = 0, requestErrorTotal = 0, requestConcurrency = 0\<rparr>, rq_calls = 0, rq_log = []\<rparr>,
     pi_counters = \<lparr>cm_examined = 0, cm_kept = 0, cm_dropped = \<lambda>_. 0, cm_wouldDrop = \<lambda>_. 0, cm_blockedExt = \<lambda>_. 0\<rparr>\<rparr>"

text \<open>The node answers get_peers with one peer.\<close>

definition demo_peer_reply :: "RecvMsg \<times> goerr" where
  "demo_peer_reply = query_result (demo_response\<lparr>rm_Msg := Msg_zero\<lparr>mg_R := Some (Return_zero\<lparr>rt_ID := replicate 20 7,
     rt_Values := [\<lparr>na_IP = [5, 6, 7, 8], na_Port = 6881\<rparr>]\<rparr>)\<rparr>\<rparr>)"

lemma demo_reply_peers:
  "reply_ok demo_peer_reply" "\<exists>res. client_GetPeers demo_peer_reply = Inr (Inr res) \<and> gp_Values res = [NodeAddr_ToAddrPort \<lparr>na_IP = [5, 6, 7, 8], na_Port = 6881\<rparr>]"
proof -
  have "wf_ID (replicate 20 7)" by (simp add: wf_ID_def)
  then show "reply_ok demo_peer_reply" by (simp add: demo_peer_reply_def query_result_reply_ok)
  show "\<exists>res. client_GetPeers demo_peer_reply = Inr (Inr res) \<and> gp_Values res = [NodeAddr_ToAddrPort \<lparr>na_IP = [5, 6, 7, 8], na_Port = 6881\<rparr>]"
    by (simp add: demo_peer_reply_def query_result_def client_GetPeers_def with_return_def extractValues_def Msg_zero_def YError_def)
qed

lemma demo_wires [simp]:
  "wi_crawler demo_wiring = demo_crawler" "wi_coders demo_wiring = demo_coders" "wi_clientID demo_wiring = ID_zero"
  "wi_methods demo_wiring = demo_methods" "wi_C demo_wiring = set_bloom" "wi_sha256 demo_wiring = id"
  "pi_gates demo_pipe = demo_gates" "pi_catalogue demo_pipe = demo_catalogue" "pi_metaInfo demo_pipe = []" "pi_persist demo_pipe = []"
  by (simp_all add: demo_wiring_def demo_pipe_def)

lemma demo_setup:
  "table_reach (replicate 20 0) (pi_table demo_pipe)" "wf_ID (replicate 20 0)" "cr_saveFilesThreshold demo_crawler < 2 ^ 63"
  "find (\<lambda>q. nh_infoHash q = demo_hash 3) (pi_triage demo_pipe) = Some (demo_req 3)" "wf_ID (demo_hash 3)"
  "ct_torrents demo_catalogue (demo_hash 3) = None" "env_of demo_wiring demo_gate_env"
  "triage_admits demo_crawler demo_gate_env demo_gates (fst (gt_blk demo_gates)) (demo_hash 3)"
proof -
  show "triage_admits demo_crawler demo_gate_env demo_gates (fst (gt_blk demo_gates)) (demo_hash 3)" by (simp add: demo_admits)
  show "find (\<lambda>q. nh_infoHash q = demo_hash 3) (pi_triage demo_pipe) = Some (demo_req 3)"
    by (simp add: demo_pipe_def demo_req_def)
qed (simp_all add: demo_pipe_def demo_wiring_def demo_crawler_def wf_ID_def demo_hash_def table_reach.new demo_catalogue_def
    env_of_def demo_gate_env_def)

lemma demo_passes:
  "Allow (snd (rep_Decide 5 a (rq_store (pi_requester demo_pipe))))"
  "Eligible (np_Evaluate (wi_U demo_wiring) (cr_namePolicy demo_crawler) (demo_hash 3) (BestName demo_methods demo_info))"
  "wi_checker demo_wiring demo_info = None" "filter_allows demo_wiring demo_info"
proof -
  have "ValidString ''ubuntu.iso''" by (simp add: ValidString_all_ascii)
  then show "wi_checker demo_wiring demo_info = None"
    by (simp add: demo_wiring_def banning_New_passes demo_methods_def demo_info_def)
  show "Allow (snd (rep_Decide 5 a (rq_store (pi_requester demo_pipe))))"
    by (simp add: demo_pipe_def rep_Decide_def rep_NewStore_def rep_NewDefaultConfig_def rep_peek_def Let_def)
qed (simp_all add: demo_crawler_def np_Evaluate_def np_enabled_def filter_allows_def demo_wiring_def)

lemma demo_run:
  "\<exists>p' t. (pipe_step demo_wiring R)\<^sup>*\<^sup>* demo_pipe p' \<and> ct_torrents (pi_catalogue p') (demo_hash 3) = Some t \<and>
     to_Name t = BestName demo_methods demo_info"
proof -
  obtain res where res: "client_GetPeers demo_peer_reply = Inr (Inr res)"
    "gp_Values res = [NodeAddr_ToAddrPort \<lparr>na_IP = [5, 6, 7, 8], na_Port = 6881\<rparr>]"
    using demo_reply_peers(2) by blast
  note md = demo_md [folded demo_hash_def] and peer = demo_honest_peer [folded demo_hash_def]
  show ?thesis
    using deliver_run [where p = demo_pipe and S = demo_wiring and h = "demo_hash 3" and E = demo_gate_env and R = R
        and m = "fst (gt_blk demo_gates)" and bdb = "snd (gt_blk demo_gates)" and pid = ID_zero and bits = myExBits
        and md = "[1, 2, 3]" and conn = demo_honest and info = demo_info and now = 5,
        OF demo_setup(1,2) _ demo_setup(4,5) _ _ demo_setup(7) demo_triage_setup(3,2) _ _ _ demo_reply_peers(1) res]
      demo_setup demo_triage_setup md peer demo_info_valid demo_passes
    by simp
qed

theorem catalogue_gated_witness:
  "\<exists>p' t info. (pipe_step demo_wiring (\<lambda>_. True))\<^sup>*\<^sup>* demo_pipe p' \<and> ct_torrents (pi_catalogue p') (demo_hash 3) = Some t \<and>
     vetted demo_wiring (demo_hash 3) info \<and> to_Name t = BestName demo_methods info"
proof -
  obtain p' t where "(pipe_step demo_wiring (\<lambda>_. True))\<^sup>*\<^sup>* demo_pipe p'" "ct_torrents (pi_catalogue p') (demo_hash 3) = Some t"
    using demo_run by blast
  with catalogue_gated [OF this(1) _ _ this(2)] demo_setup(6) show ?thesis by auto
qed

lemma demo_listed:
  "csam_listed demo_wiring ''feed'' 1000 (demo_hash 1)
     ((csam_NewService set_bloom [''feed''] 1000)\<lparr>cs_active := {demo_hash 1}, cs_lastGood := [''feed'' \<mapsto> [demo_hash 1]]\<rparr>)"
  by (simp add: csam_listed_def csam_feeds_def csam_NewService_def DoubleHash_def set_bloom_def)


text \<open>C3.
  The pipeline does its work: when a hash that the catalogue does not have waits for triage, every gate
  admits it, the node it was sampled from names a peer, the peer is not suppressed and answers
  the request, and the metadata passes the policy, the ban checks and the content filter, then there is a
  run of the stages after which the catalogue has the torrent under the name of the metadata.\<close>

theorem pipeline_delivers:
  assumes "table_reach org (pi_table p)" "wf_ID org" and "cr_saveFilesThreshold (wi_crawler S) < 2 ^ 63"
    and "find (\<lambda>q. nh_infoHash q = h) (pi_triage p) = Some r" "wf_ID h" "ct_torrents (pi_catalogue p) h = None"
      "\<forall>i \<in> set (pi_persist p). nh_infoHash i \<noteq> h"
    and "env_of S E" "hash_order_ok E" "\<not> ge_query_fails E" "bm_recovery (fst (gt_blk (pi_gates p))) = None"
      "blk_refresh E (gt_blk (pi_gates p)) = (None, m, bdb)" "triage_admits (wi_crawler S) E (pi_gates p) m h"
    and "reply_ok q" "client_GetPeers q = Inr (Inr res)" "gp_Values res = a # as"
    and "length (proto (wi_coders S)) = 20" "wf_ID (wi_clientID S)" "honest_peer (wi_coders S) h pid bits md conn"
      "Allow (snd (rep_Decide now a (rq_store (pi_requester p))))"
    and "HashBytes (wi_coders S) md = h" "unmarshal_info (wi_coders S) md = Inr info" "validateInfo info = None"
    and "Eligible (np_Evaluate (wi_U S) (cr_namePolicy (wi_crawler S)) h (BestName (wi_methods S) info))"
      "wi_checker S info = None" "filter_allows S info"
  shows "\<exists>p' t. (pipe_step S R)\<^sup>*\<^sup>* p p' \<and> ct_torrents (pi_catalogue p') h = Some t \<and>
     to_Name t = BestName (wi_methods S) info"
  using assms by (rule deliver_run)

theorem pipeline_delivers_witness:
  "\<exists>p' t. (pipe_step demo_wiring (\<lambda>_. False))\<^sup>*\<^sup>* demo_pipe p' \<and> ct_torrents (pi_catalogue p') (demo_hash 3) = Some t \<and>
     to_Name t = ''ubuntu.iso''"
proof -
  obtain res where res: "client_GetPeers demo_peer_reply = Inr (Inr res)"
    "gp_Values res = [NodeAddr_ToAddrPort \<lparr>na_IP = [5, 6, 7, 8], na_Port = 6881\<rparr>]"
    using demo_reply_peers(2) by blast
  note md = demo_md [folded demo_hash_def] and peer = demo_honest_peer [folded demo_hash_def]
  have "\<exists>p' t. (pipe_step demo_wiring (\<lambda>_. False))\<^sup>*\<^sup>* demo_pipe p' \<and> ct_torrents (pi_catalogue p') (demo_hash 3) = Some t \<and>
     to_Name t = BestName demo_methods demo_info"
    using pipeline_delivers [where p = demo_pipe and S = demo_wiring and h = "demo_hash 3" and E = demo_gate_env and R = "\<lambda>_. False"
        and m = "fst (gt_blk demo_gates)" and bdb = "snd (gt_blk demo_gates)" and pid = ID_zero and bits = myExBits
        and md = "[1, 2, 3]" and conn = demo_honest and info = demo_info and now = 5,
        OF demo_setup(1,2) _ demo_setup(4,5) _ _ demo_setup(7) demo_triage_setup(3,2) _ _ _ demo_reply_peers(1) res]
      demo_setup demo_triage_setup md peer demo_info_valid demo_passes
    by simp
  then show ?thesis by (simp add: demo_methods_def demo_info_def)
qed

end
