(* ===== verification/CrawlerLifecycle.thy ===== *)
theory CrawlerLifecycle
  imports CrawlerTriage
begin

text \<open>
  The life of the crawler: \<open>config.go\<close>, \<open>bootstrap_persist.go\<close> and the start and stop hooks of
  \<open>factory.go\<close> in \<open>internal/dhtcrawler\<close>. The bootstrap file is an entry of a map from paths to contents;
  reads of an opened file do not fail.
\<close>

section \<open>Configuration (\<open>config.go\<close>)\<close>

record dht_Config =
  dc_ScalingFactor :: nat
  dc_BootstrapNodes :: "string list"
  dc_ReseedBootstrapNodesInterval :: int
  dc_SaveFilesThreshold :: nat
  dc_SavePieces :: bool
  dc_RescrapeThreshold :: int
  dc_BootstrapStatePath :: string
  dc_BootstrapStateSize :: nat
  dc_MetainfoConcurrency :: nat

definition defaultBootstrapNodes :: "string list" where
  "defaultBootstrapNodes = [''router.utorrent.com:6881'', ''router.bittorrent.com:6881'', ''dht.transmissionbt.com:6881'',
     ''dht.aelitis.com:6881'', ''router.silotis.us:6881'', ''dht.libtorrent.org:25401'']"

definition dht_NewDefaultConfig :: dht_Config where
  "dht_NewDefaultConfig = \<lparr>dc_ScalingFactor = 10, dc_BootstrapNodes = defaultBootstrapNodes,
     dc_ReseedBootstrapNodesInterval = Minute, dc_SaveFilesThreshold = 100, dc_SavePieces = False,
     dc_RescrapeThreshold = Hour * 24 * 30, dc_BootstrapStatePath = [], dc_BootstrapStateSize = 200,
     dc_MetainfoConcurrency = 0\<rparr>"

section \<open>The bootstrap file (\<open>bootstrap_persist.go\<close>)\<close>

type_synonym files = "string \<rightharpoonup> string"

record bootstrapStore =
  bs_path :: string
  bs_maxEntries :: int

definition newBootstrapStore :: "string \<Rightarrow> int \<Rightarrow> bootstrapStore" where
  "newBootstrapStore path maxEntries = \<lparr>bs_path = path, bs_maxEntries = if maxEntries \<le> 0 then 200 else maxEntries\<rparr>"

definition bs_enabled :: "bootstrapStore \<Rightarrow> bool" where
  "bs_enabled s \<longleftrightarrow> bs_path s \<noteq> []"

datatype load_err = OpenErr string | ScanErr

text \<open>
  The loop over the lines: it ends at the first line that is read when the bound is reached; \<open>ok\<close> tells that
  no line was too long for the buffer.
\<close>

fun load_loop :: "int \<Rightarrow> string list \<Rightarrow> bool \<Rightarrow> addr_port list \<Rightarrow> addr_port list \<times> load_err option" where
  "load_loop mx [] ok addrs = (addrs, if ok then None else Some ScanErr)"
| "load_loop mx (l # ls) ok addrs =
     (if int (length addrs) \<ge> mx then (addrs, None)
      else let line = TrimSpace l in
        if line = [] \<or> hd line = CHR ''#'' then load_loop mx ls ok addrs
        else case ParseAddrPort line of
          None \<Rightarrow> load_loop mx ls ok addrs
        | Some addr \<Rightarrow> load_loop mx ls ok (addrs @ [addr]))"

text \<open>\<open>openErr\<close> is an error other than a missing file.\<close>

definition bs_Load :: "string option \<Rightarrow> bootstrapStore \<Rightarrow> files \<Rightarrow> addr_port list \<times> load_err option" where
  "bs_Load openErr s fs =
     (if \<not> bs_enabled s then ([], None)
      else case openErr of
        Some e \<Rightarrow> ([], Some (OpenErr e))
      | None \<Rightarrow>
          case fs (bs_path s) of
            None \<Rightarrow> ([], None)
          | Some contents \<Rightarrow> let (ls, ok) = scan_lines 256 contents in load_loop (bs_maxEntries s) ls ok [])"

text \<open>The step of a save at which the operating system reports an error, if any.\<close>

datatype save_step = MkdirAll | CreateTemp | WriteLine nat | Flush | Sync | Close | Rename

definition bs_contents :: "addr_port list \<Rightarrow> string" where
  "bs_contents addrs = concat (map (\<lambda>l. l @ [CHR 0x0A]) (map addr_port_String (filter addr_port_IsValid addrs)))"

text \<open>
  \<open>Save\<close>: \<open>tmp\<close> is the name of the temporary file, which the deferred call removes; \<open>written\<close> is what a failed
  save had written to it.
\<close>

definition bs_Save :: "save_step option \<Rightarrow> string \<Rightarrow> string \<Rightarrow> bootstrapStore \<Rightarrow> addr_port list \<Rightarrow> files \<Rightarrow> save_step option \<times> files" where
  "bs_Save fault tmp written s addrs fs =
     (if \<not> bs_enabled s then (None, fs)
      else
        let addrs' = (if int (length addrs) > bs_maxEntries s then take (nat (bs_maxEntries s)) addrs else addrs);
            remove = (\<lambda>fs. fs(tmp := None))
        in case fault of
             Some MkdirAll \<Rightarrow> (Some MkdirAll, fs)
           | Some CreateTemp \<Rightarrow> (Some CreateTemp, fs)
           | Some step \<Rightarrow> (Some step, remove (fs(tmp \<mapsto> written)))
           | None \<Rightarrow>
               let fs1 = fs(tmp \<mapsto> bs_contents addrs');
                   fs2 = (fs1(tmp := None))(bs_path s := fs1 tmp)
               in (None, remove fs2))"

section \<open>Start and stop (\<open>factory.go\<close>)\<close>

record dht_Params =
  pm_Config :: dht_Config
  pm_NamePolicy :: "Policy option"
  pm_hasVerdicts :: bool
  pm_ReadersEnabled :: bool
  pm_RandomFallback :: bool

text \<open>The channel of the stop signal, the variable \<open>c\<close> of the hooks, and whether its table is there.\<close>

datatype stop_chan = NilChan | OpenChan | ClosedChan

record hooks =
  hk_active :: bool
  hk_crawler :: crawler
  hk_kTable :: "table option"
  hk_stopped :: stop_chan

definition crawler_zero :: crawler where
  "crawler_zero = \<lparr>cr_namePolicy = None, cr_bootstrapNodes = [], cr_reseedBootstrapNodesInterval = 0,
     cr_getOldestNodesInterval = 0, cr_oldPeerThreshold = 0, cr_rescrapeThreshold = 0, cr_saveFilesThreshold = 0,
     cr_savePieces = False, cr_randomFallback = False, cr_hasVerdicts = False, cr_verdictsLive = False\<rparr>"

definition dht_New :: "dht_Params \<Rightarrow> hooks" where
  "dht_New p = \<lparr>hk_active = False, hk_crawler = crawler_zero\<lparr>cr_namePolicy := pm_NamePolicy p\<rparr>, hk_kTable = None,
     hk_stopped = NilChan\<rparr>"

definition bootstrapPersist :: "dht_Params \<Rightarrow> bootstrapStore" where
  "bootstrapPersist p = newBootstrapStore (dc_BootstrapStatePath (pm_Config p)) (wrap64 (int (dc_BootstrapStateSize (pm_Config p))))"

definition merge_bootstrap :: "dht_Params \<Rightarrow> string option \<Rightarrow> files \<Rightarrow> string list" where
  "merge_bootstrap p openErr fs =
     (let nodes = dc_BootstrapNodes (pm_Config p) in
      if bs_enabled (bootstrapPersist p) then
        (case bs_Load openErr (bootstrapPersist p) fs of
           (_, Some e) \<Rightarrow> nodes
         | (persisted, None) \<Rightarrow> if 0 < length persisted then map addr_port_String persisted @ nodes else nodes)
      else nodes)"

text \<open>
  \<open>OnStart\<close>: the lazy dependencies are the client, the routing table, the identity, the database and the
  blocking manager; \<open>lazyErr\<close> is the error of the first that fails, \<open>kTable\<close> the table they give.
\<close>

definition OnStart :: "dht_Params \<Rightarrow> string option \<Rightarrow> table \<Rightarrow> string option \<Rightarrow> files \<Rightarrow> hooks \<Rightarrow> string option \<times> hooks" where
  "OnStart p lazyErr kTable openErr fs hk =
     (let hk1 = hk\<lparr>hk_active := True\<rparr>; cfg = pm_Config p in
      case lazyErr of
        Some e \<Rightarrow> (Some e, hk1)
      | None \<Rightarrow>
          (None, hk1\<lparr>hk_crawler := crawler_zero\<lparr>
               cr_bootstrapNodes := merge_bootstrap p openErr fs,
               cr_reseedBootstrapNodesInterval := Minute * 10,
               cr_getOldestNodesInterval := Second * 10,
               cr_oldPeerThreshold := Minute * 15,
               cr_saveFilesThreshold := dc_SaveFilesThreshold cfg,
               cr_savePieces := dc_SavePieces cfg,
               cr_rescrapeThreshold := dc_RescrapeThreshold cfg,
               cr_randomFallback := pm_RandomFallback p,
               cr_hasVerdicts := pm_hasVerdicts p,
               cr_verdictsLive := pm_ReadersEnabled p\<rparr>,
             hk_kTable := Some kTable, hk_stopped := OpenChan\<rparr>))"

text \<open>\<open>OnStop\<close>: closing a closed channel panics; a failed save is only logged.\<close>

definition OnStop :: "dht_Params \<Rightarrow> ID list \<Rightarrow> save_step option \<Rightarrow> string \<Rightarrow> string \<Rightarrow> files \<Rightarrow> hooks \<Rightarrow> (hooks \<times> files) res" where
  "OnStop p order fault tmp written fs hk =
     (if hk_stopped hk = ClosedChan then Inl (Panic ''close of closed channel'')
      else
        let hk1 = hk\<lparr>hk_active := False, hk_stopped := if hk_stopped hk = NilChan then NilChan else ClosedChan\<rparr> in
        case hk_kTable hk of
          None \<Rightarrow> Inr (hk1, fs)
        | Some kTable \<Rightarrow>
            if bs_enabled (bootstrapPersist p) then
              res_bind (SnapshotNodeAddrs (wrap64 (int (dc_BootstrapStateSize (pm_Config p)))) order kTable)
                (\<lambda>addrs. Inr (hk1, snd (bs_Save fault tmp written (bootstrapPersist p) addrs fs)))
            else Inr (hk1, fs))"

definition metainfoWorkers :: "dht_Config \<Rightarrow> int \<Rightarrow> int" where
  "metainfoWorkers cfg scalingFactor =
     (if 0 < dc_MetainfoConcurrency cfg then wrap64 (int (dc_MetainfoConcurrency cfg)) else 40 * scalingFactor)"

section \<open>The file reads back what was saved\<close>

definition addr_char :: "char \<Rightarrow> bool" where
  "addr_char c \<longleftrightarrow> dec_digit c \<or> hex_char c \<or> c \<in> set ''.:[]''"

lemma hex_char_code:
  "hex_char c \<Longrightarrow> (48 \<le> code c \<and> code c \<le> 57) \<or> (65 \<le> code c \<and> code c \<le> 70) \<or> (97 \<le> code c \<and> code c \<le> 102)"
  unfolding hex_char_def from_hex_char_def Let_def by (metis option.distinct(1))

lemma addr_char_code: "addr_char c \<Longrightarrow> 46 \<le> code c \<and> code c \<le> 102"
proof -
  assume "addr_char c"
  then consider "dec_digit c" | "hex_char c" | "c \<in> set ''.:[]''" by (auto simp only: addr_char_def)
  then show ?thesis
  proof cases
    case 1
    then show ?thesis by (simp add: dec_digit_def)
  next
    case 2
    then show ?thesis using hex_char_code [of c] by linarith
  next
    case 3
    then show ?thesis by auto
  qed
qed

lemma addr_char_plain:
  assumes "addr_char c"
  shows "code c < 128" "\<not> IsSpace (code c)" "c \<noteq> CHR ''#''" "c \<noteq> CHR 0x0A" "c \<noteq> CHR 0x0D"
  using addr_char_code [OF assms] by (auto simp: IsSpace_def)

lemma dec_hex: "dec_digit c \<Longrightarrow> hex_char c"
  by (simp add: dec_digit_def hex_char_def from_hex_char_def)

lemma addr_port_String_chars:
  assumes "wf_addr (ap_addr a)" "addr_port_IsValid a" "zoneless (ap_addr a)" "c \<in> set (addr_port_String a)"
  shows "addr_char c"
proof (cases "ap_addr a")
  case (Addr4 b)
  then show ?thesis
    using assms(4) string4_chars [of c b] nat_str_chars [of c]
    by (auto simp: addr_port_String_def addr_char_def)
next
  case (Addr6 b z)
  then have b: "length b = 16" and z: "z = []" using assms(1,3) by simp_all
  have six: "c' \<in> set (addr_String (Addr6 b z)) \<Longrightarrow> addr_char c'" for c'
  proof -
    assume c': "c' \<in> set (addr_String (Addr6 b z))"
    show "addr_char c'"
    proof (cases "addr_Is4In6 (Addr6 b z)")
      case True
      then have "c' \<in> set ''::ffff:'' \<or> c' \<in> set (string4 (drop 12 b))" using c' z by (auto simp: zone_suffix_def)
      moreover have "hex_char (CHR ''f'')" by (simp add: hex_char_def from_hex_char_def)
      ultimately show ?thesis using string4_chars [of c' "drop 12 b"] by (auto simp: addr_char_def)
    next
      case False
      then have "c' \<in> set (string6 b)" using c' z by (simp add: zone_suffix_def)
      then show ?thesis using string6_chars(1) [OF b] by (auto simp: addr_char_def)
    qed
  qed
  then show ?thesis
    using assms(4) Addr6 nat_str_chars [of c] by (auto simp: addr_port_String_def addr_char_def simp del: addr_String.simps)
qed (use assms(2) in \<open>simp add: addr_port_IsValid_def\<close>)

lemma length_join: "length (join sep ps) \<le> sum_list (map (\<lambda>p. length p + length sep) ps)"
  by (induction sep ps rule: join.induct) auto

lemma length_colons:
  assumes "\<forall>g \<in> set gs. g < 65536"
  shows "length (colons gs) \<le> 5 * length gs"
proof -
  have "length (hex_str g) + 1 \<le> 5" if "g \<in> set gs" for g using hex_str_length [of g 3] assms that by simp
  then have "sum_list (map (\<lambda>p. length p + 1) (map hex_str gs)) \<le> 5 * length gs"
    by (induction gs) (auto simp: add_mono)
  then show ?thesis using length_join [of "'':''" "map hex_str gs"] by simp
qed

lemma length_string4: "length b = 4 \<Longrightarrow> length (string4 b) \<le> 16"
proof -
  assume b: "length b = 4"
  have "length (nat_str (unat x)) + 1 \<le> 4" for x :: byte using nat_str_length [of "unat x" 2] byte_le [of x] by simp
  then have "sum_list (map (\<lambda>p. length p + 1) (map (\<lambda>x. nat_str (unat x)) b)) \<le> 4 * length b"
    by (induction b) (auto simp: add_mono)
  then show ?thesis using length_join [of "''.''" "map (\<lambda>x. nat_str (unat x)) b"] b by (simp add: string4_def)
qed

lemma length_string6:
  assumes "length b = 16"
  shows "length (string6 b) \<le> 42"
proof (cases "zero_run (groups b)")
  case None
  then show ?thesis
    using length_colons [of "groups b"] groups_bound assms by (simp add: string6_def length_groups)
next
  case (Some sn)
  obtain s n where sn: "sn = (s, n)" by (cases sn)
  have bnd: "\<forall>g \<in> set (take s (groups b)). g < 65536" "\<forall>g \<in> set (drop (s + n) (groups b)). g < 65536"
    using groups_bound by (auto dest: in_set_takeD in_set_dropD)
  have "length (take s (groups b)) + length (drop (s + n) (groups b)) \<le> 8"
    using zero_run_split(2) [OF Some [unfolded sn]] assms by (simp add: length_groups)
  moreover note length_colons [OF bnd(1)] length_colons [OF bnd(2)]
  ultimately show ?thesis using Some sn by (simp add: string6_def Let_def)
qed

lemma length_addr_port_String:
  assumes "wf_addr (ap_addr a)" "addr_port_IsValid a" "zoneless (ap_addr a)"
  shows "length (addr_port_String a) < 256" "addr_port_String a \<noteq> []"
proof -
  have "unat (ap_port a) < 10 ^ Suc 4" using unsigned_less [of "ap_port a", where 'a = nat] by simp
  then have port: "length (nat_str (unat (ap_port a))) \<le> 5" using nat_str_length [of "unat (ap_port a)" 4] by simp
  show "length (addr_port_String a) < 256"
  proof (cases "ap_addr a")
    case (Addr4 b)
    then show ?thesis using port length_string4 [of b] assms(1) by (simp add: addr_port_String_def)
  next
    case (Addr6 b z)
    then show ?thesis
      using port length_string4 [of "drop 12 b"] length_string6 [of b] assms(1,3)
      by (auto simp: addr_port_String_def zone_suffix_def)
  qed (use port in \<open>simp add: addr_port_String_def\<close>)
  show "addr_port_String a \<noteq> []" by (cases "ap_addr a") (simp_all add: addr_port_String_def)
qed

text \<open>An address as the routing table has them.\<close>

definition printable :: "addr_port \<Rightarrow> bool" where
  "printable a \<longleftrightarrow> wf_addr (ap_addr a) \<and> zoneless (ap_addr a)"

lemma load_loop_printed:
  "\<lbrakk>\<forall>a \<in> set as. printable a \<and> addr_port_IsValid a; int (length addrs + length as) \<le> mx\<rbrakk> \<Longrightarrow>
     load_loop mx (map addr_port_String as) True addrs = (addrs @ as, None)"
proof (induction as arbitrary: addrs)
  case (Cons a as)
  let ?l = "addr_port_String a"
  have a: "wf_addr (ap_addr a)" "addr_port_IsValid a" "zoneless (ap_addr a)"
    using Cons.prems(1) by (simp_all add: printable_def)
  have plain: "\<forall>c \<in> set ?l. addr_char c" using addr_port_String_chars [OF a] by blast
  then have trim: "TrimSpace ?l = ?l" by (intro TrimSpace_none) (blast dest: addr_char_plain)
  have "hd ?l \<noteq> CHR ''#''" using plain length_addr_port_String(2) [OF a] addr_char_plain(3) hd_in_set by blast
  moreover have "ParseAddrPort ?l = Some a" using ParseAddrPort_String a by (simp add: addr_port_IsValid_def)
  moreover have "load_loop mx (map addr_port_String as) True (addrs @ [a]) = ((addrs @ [a]) @ as, None)"
    using Cons by simp
  ultimately show ?case using Cons.prems(2) length_addr_port_String(2) [OF a] by (simp add: trim)
qed simp

lemma scan_contents:
  assumes "\<forall>a \<in> set addrs. printable a"
  shows "scan_lines 256 (bs_contents addrs) = (map addr_port_String (filter addr_port_IsValid addrs), True)"
proof -
  have "CHR 0x0A \<notin> set (addr_port_String a) \<and> CHR 0x0D \<notin> set (addr_port_String a) \<and> length (addr_port_String a) < 256"
    if "a \<in> set addrs" "addr_port_IsValid a" for a
  proof -
    have a: "wf_addr (ap_addr a)" "addr_port_IsValid a" "zoneless (ap_addr a)" using assms that by (simp_all add: printable_def)
    show ?thesis using addr_port_String_chars [OF a] addr_char_plain(4,5) length_addr_port_String(1) [OF a] by blast
  qed
  then show ?thesis unfolding bs_contents_def by (intro scan_lines_printed) auto
qed

lemma bs_Load_saved:
  assumes "bs_enabled s" "fs (bs_path s) = Some (bs_contents addrs)" "\<forall>a \<in> set addrs. printable a"
    and "int (length addrs) \<le> bs_maxEntries s"
  shows "bs_Load None s fs = (filter addr_port_IsValid addrs, None)"
proof -
  have "int (length (filter addr_port_IsValid addrs)) \<le> int (length addrs)" by simp
  from order_trans [OF this assms(4)]
  have "int (length [] + length (filter addr_port_IsValid addrs)) \<le> bs_maxEntries s" by simp
  then have "load_loop (bs_maxEntries s) (map addr_port_String (filter addr_port_IsValid addrs)) True [] =
      ([] @ filter addr_port_IsValid addrs, None)"
    using assms(3) by (intro load_loop_printed) auto
  then show ?thesis using assms(1,2) scan_contents [OF assms(3)] by (simp add: bs_Load_def)
qed

lemma bs_Save_ok:
  assumes "bs_enabled s" "tmp \<noteq> bs_path s" "int (length addrs) \<le> bs_maxEntries s"
  shows "bs_Save None tmp w s addrs fs = (None, (fs(bs_path s \<mapsto> bs_contents addrs))(tmp := None))"
  using assms by (auto simp: bs_Save_def Let_def fun_upd_twist)

text \<open>A save that fails leaves every file as it was.\<close>

lemma bs_Save_atomic:
  assumes "fs tmp = None"
  shows "snd (bs_Save (Some step) tmp w s addrs fs) = fs"
  using assms by (cases step) (auto simp: bs_Save_def Let_def)

section \<open>Restarts\<close>

lemma snapshot_outcome:
  assumes "table_reach org t" "wf_ID org" "map_order (ks_items (tb_nodes t)) order" "0 < limit"
  shows "\<exists>ns. SnapshotNodeAddrs limit order t = Inr (filter addr_port_IsValid (map nd_addr ns)) \<and>
     set ns \<subseteq> ran (ks_items (tb_nodes t)) \<and> length ns = min (nat limit) (card (dom (ks_items (tb_nodes t)))) \<and>
     distinct (map nd_id ns)"
proof -
  note ok = table_okD [OF table_reach_ok [OF assms(1,2)]]
  obtain ns where ns: "ks_getRandom (tb_nodes t) order limit = Inr ns" "length ns = min (nat limit) (ks_count (tb_nodes t))"
    "distinct (map nd_id ns)" "\<forall>n \<in> set ns. ks_items (tb_nodes t) (nd_id n) = Some n"
    using node_ks.getRandom_outcome [of _ "tb_nodes t" order limit] ok(1) assms(3,4) by auto
  then show ?thesis using assms(4) by (auto simp: SnapshotNodeAddrs_def ks_count_def intro: ranI)
qed

lemma wrap64_small: "n < 2 ^ 63 \<Longrightarrow> wrap64 (int n) = int n"
  by (simp add: wrap64_def)

text \<open>C16.
  The warm start works: when a running crawler with a bootstrap file is stopped and the file is written,
  the next start puts the addresses of nodes of the routing table, as many as are configured or as there
  are, in front of the configured bootstrap nodes, in the text the resolver reads; and when any step of the
  save fails, every file is as it was before.\<close>

theorem warm_restart:
  assumes "table_reach org t" "wf_ID org" "map_order (ks_items (tb_nodes t)) order"
    and "\<forall>n \<in> ran (ks_items (tb_nodes t)). printable (nd_addr n) \<and> addr_port_IsValid (nd_addr n)"
    and "dc_BootstrapStatePath (pm_Config p) \<noteq> []" "0 < dc_BootstrapStateSize (pm_Config p)"
      "dc_BootstrapStateSize (pm_Config p) < 2 ^ 63"
    and "tmp \<noteq> dc_BootstrapStatePath (pm_Config p)" "fs tmp = None"
    and "OnStart p None t oe fs0 hk0 = (None, hk)"
    and "OnStop p order fault tmp w fs hk = Inr (hk', fs')"
  shows "(fault \<noteq> None \<longrightarrow> fs' = fs) \<and>
     (fault = None \<longrightarrow>
       (\<exists>ns. set ns \<subseteq> ran (ks_items (tb_nodes t)) \<and> distinct (map nd_id ns) \<and>
          length ns = min (dc_BootstrapStateSize (pm_Config p)) (card (dom (ks_items (tb_nodes t)))) \<and>
          cr_bootstrapNodes (hk_crawler (snd (OnStart p None t' None fs' hk'))) =
            map (addr_port_String \<circ> nd_addr) ns @ dc_BootstrapNodes (pm_Config p)))"
proof -
  let ?s = "bootstrapPersist p" and ?size = "dc_BootstrapStateSize (pm_Config p)"
  have size: "wrap64 (int ?size) = int ?size" using assms(7) by (rule wrap64_small)
  have s: "bs_enabled ?s" "bs_path ?s = dc_BootstrapStatePath (pm_Config p)" "bs_maxEntries ?s = int ?size"
    using assms(5,6) by (simp_all add: bootstrapPersist_def newBootstrapStore_def bs_enabled_def size)
  obtain ns where ns: "SnapshotNodeAddrs (int ?size) order t = Inr (filter addr_port_IsValid (map nd_addr ns))"
    "set ns \<subseteq> ran (ks_items (tb_nodes t))" "length ns = min ?size (card (dom (ks_items (tb_nodes t))))" "distinct (map nd_id ns)"
    using snapshot_outcome [OF assms(1-3), of "int ?size"] assms(6) by auto
  have valid: "filter addr_port_IsValid (map nd_addr ns) = map nd_addr ns"
    using ns(2) assms(4) by (auto simp: filter_id_conv)
  have hk: "hk_kTable hk = Some t" "hk_stopped hk = OpenChan" using assms(10) by (auto simp: OnStart_def Let_def)
  then have fs': "fs' = snd (bs_Save fault tmp w ?s (map nd_addr ns) fs)"
    using assms(11) ns(1) s(1) by (simp add: OnStop_def size valid Let_def)
  show ?thesis
  proof (intro conjI impI)
    show "fs' = fs" if "fault \<noteq> None" using that fs' bs_Save_atomic [of fs tmp, OF assms(9)] by auto
  next
    assume none: "fault = None"
    have pr: "\<forall>a \<in> set (map nd_addr ns). printable a" using ns(2) assms(4) by auto
    have "fs' (bs_path ?s) = Some (bs_contents (map nd_addr ns))"
      using fs' none bs_Save_ok [of ?s tmp "map nd_addr ns" w fs] s assms(8) ns(3) by simp
    then have load: "bs_Load None ?s fs' = (map nd_addr ns, None)"
      using bs_Load_saved [OF s(1) _ pr] s(3) ns(3) valid by simp
    have "merge_bootstrap p None fs' = map (addr_port_String \<circ> nd_addr) ns @ dc_BootstrapNodes (pm_Config p)"
      using s(1) load by (cases "ns = []") (simp_all add: merge_bootstrap_def)
    then show "\<exists>ns. set ns \<subseteq> ran (ks_items (tb_nodes t)) \<and> distinct (map nd_id ns) \<and>
          length ns = min ?size (card (dom (ks_items (tb_nodes t)))) \<and>
          cr_bootstrapNodes (hk_crawler (snd (OnStart p None t' None fs' hk'))) =
            map (addr_port_String \<circ> nd_addr) ns @ dc_BootstrapNodes (pm_Config p)"
      using ns by (intro exI [of _ ns]) (simp add: OnStart_def Let_def)
  qed
qed

text \<open>
  With a size of zero, which the configuration documents as two hundred, the snapshot is empty and the
  stop replaces the file by an empty one.
\<close>

lemma zero_size_erases_file:
  assumes "dc_BootstrapStateSize (pm_Config p) = 0" "dc_BootstrapStatePath (pm_Config p) \<noteq> []"
    and "tmp \<noteq> dc_BootstrapStatePath (pm_Config p)" "hk_kTable hk = Some t" "hk_stopped hk = OpenChan"
  shows "\<exists>hk' fs'. OnStop p order None tmp w fs hk = Inr (hk', fs') \<and> fs' (dc_BootstrapStatePath (pm_Config p)) = Some []"
  using assms
  by (auto simp: OnStop_def SnapshotNodeAddrs_def bootstrapPersist_def newBootstrapStore_def bs_enabled_def bs_Save_def
      bs_contents_def wrap64_def Let_def)

text \<open>A line that does not fit the buffer makes the load report an error, and the start then ignores the file.\<close>

lemma long_line_discards_file:
  assumes "bs_enabled (bootstrapPersist p)" "fs (bs_path (bootstrapPersist p)) = Some line" "256 \<le> length line"
    and "CHR 0x0A \<notin> set line"
  shows "bs_Load None (bootstrapPersist p) fs = ([], Some ScanErr)"
    and "merge_bootstrap p None fs = dc_BootstrapNodes (pm_Config p)"
proof -
  have tw: "takeWhile (\<lambda>c. c \<noteq> CHR 0x0A) line = line" using assms(4) by (simp only: takeWhile_eq_all_conv) blast
  have "line \<noteq> []" using assms(3) by auto
  then have "scan_lines 256 line = ([], False)"
    unfolding scan_lines.simps [of 256 line] Let_def tw using assms(3) by simp
  then show "bs_Load None (bootstrapPersist p) fs = ([], Some ScanErr)" using assms(1,2) by (simp add: bs_Load_def)
  then show "merge_bootstrap p None fs = dc_BootstrapNodes (pm_Config p)" using assms(1) by (simp add: merge_bootstrap_def)
qed

text \<open>C35.
  A started crawler has no name policy: whatever policy the process is configured with, the start hook
  replaces the crawler that carried it, so no hash is excluded and every name is eligible in triage,
  in fetching and in persisting. The configured interval for reseeding is replaced by ten minutes as well.\<close>

theorem started_crawler_ignores_policy:
  assumes "OnStart p None t oe fs (dht_New p) = (None, hk)"
  shows "cr_namePolicy (hk_crawler (dht_New p)) = pm_NamePolicy p \<and> cr_namePolicy (hk_crawler hk) = None \<and>
     (\<forall>h. \<not> ExcludesHash (cr_namePolicy (hk_crawler hk)) h) \<and>
     (\<forall>U h n. Eligible (np_Evaluate U (cr_namePolicy (hk_crawler hk)) h n)) \<and>
     cr_reseedBootstrapNodesInterval (hk_crawler hk) = 10 * Minute"
  using assms
  by (auto simp: OnStart_def dht_New_def crawler_zero_def ExcludesHash_def np_Evaluate_def np_enabled_def Let_def)

definition demo_params :: dht_Params where
  "demo_params = \<lparr>pm_Config = dht_NewDefaultConfig\<lparr>dc_BootstrapStatePath := ''state''\<rparr>,
     pm_NamePolicy = Some \<lparr>po_enabled = True, po_excluded = {ID_zero}, po_terms = [], po_pairs = []\<rparr>,
     pm_hasVerdicts = True, pm_ReadersEnabled = True, pm_RandomFallback = False\<rparr>"

theorem started_crawler_ignores_policy_witness:
  "ExcludesHash (pm_NamePolicy demo_params) ID_zero \<and>
     \<not> ExcludesHash (cr_namePolicy (hk_crawler (snd (OnStart demo_params None (newTable ID_zero) None Map.empty (dht_New demo_params))))) ID_zero"
proof -
  let ?r = "OnStart demo_params None (newTable ID_zero) None Map.empty (dht_New demo_params)"
  have "?r = (None, snd ?r)" by (simp add: OnStart_def Let_def)
  from started_crawler_ignores_policy [OF this] show ?thesis by (simp add: demo_params_def ExcludesHash_def np_enabled_def)
qed

theorem warm_restart_witness:
  "\<exists>t hk fs' hk'. table_reach (replicate 20 0) t \<and>
     OnStop demo_params [replicate 20 7] None ''tmp'' [] Map.empty (snd (OnStart demo_params None t None Map.empty hk)) = Inr (hk', fs') \<and>
     cr_bootstrapNodes (hk_crawler (snd (OnStart demo_params None t None fs' hk'))) =
       addr_port_String (Node_Addr demo_node) # defaultBootstrapNodes"
proof -
  let ?i = "replicate 20 7 :: ID" and ?hk = "dht_New demo_params"
  have wf: "wf_ID (replicate 20 0)" by (simp add: wf_ID_def)
  obtain t n where t: "table_reach (replicate 20 0) t" "ks_items (tb_nodes t) = [?i \<mapsto> n]" "nd_addr n = Node_Addr demo_node"
    by (rule demo_table)
  let ?start = "OnStart demo_params None t None Map.empty ?hk"
  have start: "?start = (None, snd ?start)" by (simp add: OnStart_def Let_def)
  have order: "map_order (ks_items (tb_nodes t)) [?i]" by (simp add: map_order_def t(2))
  have cfg: "dc_BootstrapStatePath (pm_Config demo_params) = ''state''" "dc_BootstrapStateSize (pm_Config demo_params) = 200"
    "dc_BootstrapNodes (pm_Config demo_params) = defaultBootstrapNodes"
    by (simp_all add: demo_params_def dht_NewDefaultConfig_def)
  have ran: "ran (ks_items (tb_nodes t)) = {n}" by (simp add: t(2))
  have pr: "\<forall>n \<in> ran (ks_items (tb_nodes t)). printable (nd_addr n) \<and> addr_port_IsValid (nd_addr n)"
    by (simp add: ran t(3) printable_def demo_node_def NewNode_def addr_port_IsValid_def)
  obtain as where "SnapshotNodeAddrs 200 [?i] t = Inr as"
    using snapshot_outcome [OF t(1) wf order, of 200] by force
  then obtain hk' fs' where stop: "OnStop demo_params [?i] None ''tmp'' [] Map.empty (snd ?start) = Inr (hk', fs')"
    by (auto simp: OnStop_def OnStart_def Let_def bootstrapPersist_def newBootstrapStore_def bs_enabled_def cfg wrap64_def)
  obtain ns' where "set ns' \<subseteq> {n}" "length ns' = 1" "cr_bootstrapNodes (hk_crawler (snd (OnStart demo_params None t None fs' hk'))) =
      map (addr_port_String \<circ> nd_addr) ns' @ defaultBootstrapNodes"
    using warm_restart [OF t(1) wf order pr _ _ _ _ _ start stop, of t] by (force simp: cfg ran t(2))
  then have "cr_bootstrapNodes (hk_crawler (snd (OnStart demo_params None t None fs' hk'))) =
      addr_port_String (Node_Addr demo_node) # defaultBootstrapNodes"
    using t(3) by (cases ns') auto
  with t(1) stop show ?thesis by blast
qed

end
