(* ===== verification/Concurrency.thy ===== *)
theory Concurrency
  imports Prelude
begin

text \<open>
  The concurrency primitives of \<open>internal/concurrency\<close>: the atomic value, the batching channel, the
  buffered concurrent channel and the keyed rate limiter. Goroutines and channel operations are
  step relations: a step is one completed send, receive, timer tick or semaphore operation, and
  every interleaving is a sequence of steps.
\<close>

section \<open>Atomic values\<close>

text \<open>\<open>AtomicValue\<close>: each method runs under the lock, so it is a function on the stored value.\<close>

definition atomic_Get :: "'a \<Rightarrow> 'a" where "atomic_Get v = v"
definition atomic_Set :: "'a \<Rightarrow> 'a \<Rightarrow> 'a" where "atomic_Set x v = x"
definition atomic_Update :: "('a \<Rightarrow> 'a) \<Rightarrow> 'a \<Rightarrow> 'a \<times> 'a" where
  "atomic_Update f v = (let v' = f v in (v', v'))"

section \<open>The batching channel\<close>

text \<open>
  The input and output channels with their contents, the buffer of the batching goroutine, and the
  batch it is blocked on in \<open>ch.output <- batch\<close>, if any. The fields \<open>bc_sent\<close> and \<open>bc_taken\<close>
  record what clients have sent and received. \<open>bc_out_closed\<close> is whether the deferred
  \<open>close(ch.output)\<close> has run.
\<close>

record 'a bc =
  bc_cap :: nat
  bc_max :: int
  bc_in :: "'a list"
  bc_in_closed :: bool
  bc_buffer :: "'a list"
  bc_blocked :: "'a list option"
  bc_out :: "'a list list"
  bc_out_closed :: bool
  bc_sent :: "'a list"
  bc_taken :: "'a list list"

definition NewBatchingChannel :: "nat \<Rightarrow> int \<Rightarrow> 'a bc" where
  "NewBatchingChannel capacity maxBatchSize =
     \<lparr>bc_cap = capacity, bc_max = maxBatchSize, bc_in = [], bc_in_closed = False, bc_buffer = [],
      bc_blocked = None, bc_out = [], bc_out_closed = False, bc_sent = [], bc_taken = []\<rparr>"

text \<open>\<open>flush\<close>: the buffer is handed over and the goroutine waits until the output accepts it.\<close>

definition bc_flush :: "'a bc \<Rightarrow> 'a bc" where
  "bc_flush s = s\<lparr>bc_buffer := [], bc_blocked := Some (bc_buffer s)\<rparr>"

text \<open>The two cases of the select in \<open>batch\<close>.\<close>

definition batch_receive :: "'a \<Rightarrow> 'a bc \<Rightarrow> 'a bc" where
  "batch_receive x s =
     (let s1 = s\<lparr>bc_buffer := bc_buffer s @ [x]\<rparr> in
      if int (length (bc_buffer s1)) \<ge> bc_max s1 then bc_flush s1 else s1)"

definition batch_tick :: "'a bc \<Rightarrow> 'a bc" where
  "batch_tick s = (if length (bc_buffer s) > 0 then bc_flush s else s)"

text \<open>
  The steps. On a closed and drained input the receive yields \<open>ok = false\<close> and \<open>break\<close> leaves only
  the select: the loop continues with an unchanged state, rule \<open>closed\<close>. With capacity zero a send
  meets the waiting goroutine directly, rule \<open>handoff\<close>.
\<close>

inductive bc_step :: "'a bc \<Rightarrow> 'a bc \<Rightarrow> bool" where
  send: "\<not> bc_in_closed s \<Longrightarrow> length (bc_in s) < bc_cap s \<Longrightarrow>
     bc_step s (s\<lparr>bc_in := bc_in s @ [x], bc_sent := bc_sent s @ [x]\<rparr>)"
| handoff: "\<not> bc_in_closed s \<Longrightarrow> bc_cap s = 0 \<Longrightarrow> bc_blocked s = None \<Longrightarrow>
     bc_step s (batch_receive x (s\<lparr>bc_sent := bc_sent s @ [x]\<rparr>))"
| close: "\<not> bc_in_closed s \<Longrightarrow> bc_step s (s\<lparr>bc_in_closed := True\<rparr>)"
| receive: "bc_blocked s = None \<Longrightarrow> bc_in s = x # xs \<Longrightarrow>
     bc_step s (batch_receive x (s\<lparr>bc_in := xs\<rparr>))"
| closed: "bc_blocked s = None \<Longrightarrow> bc_in s = [] \<Longrightarrow> bc_in_closed s \<Longrightarrow> bc_step s s"
| tick: "bc_blocked s = None \<Longrightarrow> bc_step s (batch_tick s)"
| deliver: "bc_blocked s = Some b \<Longrightarrow> length (bc_out s) < 1 \<Longrightarrow>
     bc_step s (s\<lparr>bc_blocked := None, bc_out := bc_out s @ [b]\<rparr>)"
| take: "bc_out s = b # bs \<Longrightarrow>
     bc_step s (s\<lparr>bc_out := bs, bc_taken := bc_taken s @ [b]\<rparr>)"

inductive_cases bc_stepE: "bc_step s s'"

abbreviation bc_reach :: "nat \<Rightarrow> int \<Rightarrow> 'a bc \<Rightarrow> bool" where
  "bc_reach capacity maxBatchSize \<equiv> bc_step\<^sup>*\<^sup>* (NewBatchingChannel capacity maxBatchSize)"

text \<open>Everything in the pipe, oldest first.\<close>

definition bc_content :: "'a bc \<Rightarrow> 'a list" where
  "bc_content s = concat (bc_taken s) @ concat (bc_out s) @ (case bc_blocked s of None \<Rightarrow> [] | Some b \<Rightarrow> b)
     @ bc_buffer s @ bc_in s"

definition bc_batches :: "'a bc \<Rightarrow> 'a list list" where
  "bc_batches s = bc_taken s @ bc_out s @ (case bc_blocked s of None \<Rightarrow> [] | Some b \<Rightarrow> [b])"

definition batch_size_ok :: "int \<Rightarrow> 'a list \<Rightarrow> bool" where
  "batch_size_ok m b \<longleftrightarrow> 1 \<le> length b \<and> int (length b) \<le> max 1 m"

definition bc_ok :: "'a bc \<Rightarrow> bool" where
  "bc_ok s \<longleftrightarrow> bc_content s = bc_sent s \<and>
     (\<forall>b \<in> set (bc_batches s). batch_size_ok (bc_max s) b) \<and>
     (bc_buffer s = [] \<or> int (length (bc_buffer s)) < bc_max s) \<and>
     (bc_blocked s \<noteq> None \<longrightarrow> bc_buffer s = []) \<and>
     length (bc_in s) \<le> bc_cap s \<and> length (bc_out s) \<le> 1 \<and> \<not> bc_out_closed s"

lemma NewBatchingChannel_ok: "bc_ok (NewBatchingChannel c m)"
  by (simp add: bc_ok_def bc_content_def bc_batches_def NewBatchingChannel_def)

lemma batch_receive_simps [simp]:
  "bc_cap (batch_receive x s) = bc_cap s" "bc_max (batch_receive x s) = bc_max s"
  "bc_in (batch_receive x s) = bc_in s" "bc_out (batch_receive x s) = bc_out s"
  "bc_sent (batch_receive x s) = bc_sent s" "bc_taken (batch_receive x s) = bc_taken s"
  "bc_out_closed (batch_receive x s) = bc_out_closed s"
  by (simp_all add: batch_receive_def bc_flush_def Let_def)

lemma batch_receive_buffer:
  "bc_blocked s = None \<Longrightarrow>
     (if bc_max s \<le> int (length (bc_buffer s)) + 1
      then bc_blocked (batch_receive x s) = Some (bc_buffer s @ [x]) \<and> bc_buffer (batch_receive x s) = []
      else bc_blocked (batch_receive x s) = None \<and> bc_buffer (batch_receive x s) = bc_buffer s @ [x])"
  by (simp add: batch_receive_def bc_flush_def Let_def add.commute)

lemma batch_receive_ok:
  assumes s: "bc_ok s" and idle: "bc_blocked s = None" and input: "bc_in s = xs"
    and eq: "s' = batch_receive x (s\<lparr>bc_in := ys, bc_sent := zs\<rparr>)"
    and content: "concat (bc_taken s) @ concat (bc_out s) @ bc_buffer s @ [x] @ ys = zs"
    and cap: "length ys \<le> bc_cap s"
  shows "bc_ok s'"
proof -
  let ?s = "s\<lparr>bc_in := ys, bc_sent := zs\<rparr>"
  have b: "if bc_max s \<le> int (length (bc_buffer s)) + 1
      then bc_blocked s' = Some (bc_buffer s @ [x]) \<and> bc_buffer s' = []
      else bc_blocked s' = None \<and> bc_buffer s' = bc_buffer s @ [x]"
    using batch_receive_buffer [of ?s x] idle by (simp add: eq)
  have old: "\<forall>b \<in> set (bc_taken s @ bc_out s). batch_size_ok (bc_max s) b"
    using s idle by (simp add: bc_ok_def bc_batches_def)
  show ?thesis
  proof (cases "bc_max s \<le> int (length (bc_buffer s)) + 1")
    case True
    with b have f: "bc_blocked s' = Some (bc_buffer s @ [x])" "bc_buffer s' = []" by simp_all
    have "bc_buffer s = [] \<or> int (length (bc_buffer s)) < bc_max s" using s by (simp add: bc_ok_def)
    then have "batch_size_ok (bc_max s) (bc_buffer s @ [x])" by (auto simp: batch_size_ok_def)
    with f old s content cap show ?thesis
      by (auto simp: bc_ok_def bc_content_def bc_batches_def eq)
  next
    case False
    with b have f: "bc_blocked s' = None" "bc_buffer s' = bc_buffer s @ [x]" by simp_all
    with False old s content cap show ?thesis
      by (auto simp: bc_ok_def bc_content_def bc_batches_def eq)
  qed
qed

lemma bc_step_ok:
  assumes "bc_step s s'" and "bc_ok s"
  shows "bc_ok s'"
  using assms
proof (cases rule: bc_step.cases)
  case (handoff x)
  have e: "bc_in s = []" using assms(2) handoff(3) unfolding bc_ok_def by simp
  have content: "bc_content s = bc_sent s" using assms(2) unfolding bc_ok_def by simp
  have eq: "s\<lparr>bc_sent := bc_sent s @ [x]\<rparr> = s\<lparr>bc_in := [], bc_sent := bc_sent s @ [x]\<rparr>"
    using e by simp
  show ?thesis
  proof (rule batch_receive_ok [OF assms(2) handoff(4) e])
    show "s' = batch_receive x (s\<lparr>bc_in := [], bc_sent := bc_sent s @ [x]\<rparr>)"
      unfolding eq [symmetric] by (rule handoff(1))
    show "concat (bc_taken s) @ concat (bc_out s) @ bc_buffer s @ [x] @ [] = bc_sent s @ [x]"
      using content e handoff(4) by (simp add: bc_content_def)
  qed simp
next
  case (receive x xs)
  have content: "bc_content s = bc_sent s" and cap: "length (bc_in s) \<le> bc_cap s"
    using assms(2) unfolding bc_ok_def by simp_all
  have eq: "s\<lparr>bc_in := xs\<rparr> = s\<lparr>bc_in := xs, bc_sent := bc_sent s\<rparr>" by simp
  show ?thesis
  proof (rule batch_receive_ok [OF assms(2) receive(2,3)])
    show "s' = batch_receive x (s\<lparr>bc_in := xs, bc_sent := bc_sent s\<rparr>)"
      unfolding eq [symmetric] by (rule receive(1))
    show "concat (bc_taken s) @ concat (bc_out s) @ bc_buffer s @ [x] @ xs = bc_sent s"
      using content receive(2,3) by (simp add: bc_content_def)
    show "length xs \<le> bc_cap s" using cap receive(3) by simp
  qed
next
  case tick
  show ?thesis
  proof (cases "bc_buffer s")
    case Nil
    then show ?thesis using tick(1) assms(2) by (simp add: batch_tick_def)
  next
    case (Cons x xs)
    have buf: "int (length (bc_buffer s)) < bc_max s"
      using assms(2) Cons unfolding bc_ok_def by simp
    have eq: "s' = s\<lparr>bc_buffer := [], bc_blocked := Some (bc_buffer s)\<rparr>"
      using tick(1) Cons by (simp add: batch_tick_def bc_flush_def)
    from buf Cons have "batch_size_ok (bc_max s) (x # xs)" by (simp add: batch_size_ok_def)
    with assms(2) tick(2) Cons show ?thesis
      unfolding eq bc_ok_def bc_content_def bc_batches_def by simp
  qed
next
  case (deliver b)
  then have "bc_out s = []" by simp
  moreover have "bc_buffer s = []" using assms(2) deliver(2) unfolding bc_ok_def by simp
  ultimately show ?thesis using deliver(2) assms(2)
    unfolding deliver(1) bc_ok_def bc_content_def bc_batches_def by (elim conjE) simp
next
  case (take b bs)
  from take(2) assms(2) show ?thesis
    unfolding take(1) bc_ok_def bc_content_def bc_batches_def by (elim conjE) simp
next
  case (send x)
  from send(2,3) assms(2) show ?thesis
    unfolding send(1) bc_ok_def bc_content_def bc_batches_def by (simp add: append_assoc [symmetric] del: append_assoc)
next
  case close
  from assms(2) show ?thesis
    unfolding close(1) bc_ok_def bc_content_def bc_batches_def by simp
next
  case closed
  from assms(2) show ?thesis unfolding closed(1) .
qed

lemma bc_reach_ok: "bc_reach c m s \<Longrightarrow> bc_ok s"
  by (induction rule: rtranclp_induct) (auto simp: NewBatchingChannel_ok bc_step_ok)

lemma bc_step_config: "bc_step s s' \<Longrightarrow> bc_max s' = bc_max s \<and> bc_cap s' = bc_cap s"
  by (auto elim!: bc_stepE simp: batch_tick_def bc_flush_def)

lemma bc_reach_config: "bc_reach c m s \<Longrightarrow> bc_max s = m \<and> bc_cap s = c"
  by (induction rule: rtranclp_induct) (auto simp: NewBatchingChannel_def dest: bc_step_config)

text \<open>C14.
  In every interleaving of senders, the batching goroutine, its timer and the receiver, nothing is
  lost, duplicated or reordered: the batches taken so far, the one in the output channel, the one
  being handed over, the buffer and the input channel together are exactly what was sent, in
  order; every batch holds between one and \<open>maxBatchSize\<close> elements (one when that limit is not
  positive); and the output channel is never closed, even after the input is closed and drained.\<close>

theorem batching_channel_lossless:
  assumes "bc_reach capacity maxBatchSize s"
  shows "concat (bc_taken s) @ concat (bc_out s) @ (case bc_blocked s of None \<Rightarrow> [] | Some b \<Rightarrow> b)
      @ bc_buffer s @ bc_in s = bc_sent s \<and>
    (\<forall>b \<in> set (bc_taken s). 1 \<le> length b \<and> int (length b) \<le> max 1 maxBatchSize) \<and>
    \<not> bc_out_closed s"
  using bc_reach_ok [OF assms] bc_reach_config [OF assms]
  by (simp add: bc_ok_def bc_content_def bc_batches_def batch_size_ok_def)

text \<open>A run of the channel: two elements sent, the first received and handed over.\<close>

definition demo_bc :: "nat bc" where
  "demo_bc = batch_receive 7 (((NewBatchingChannel 2 1)\<lparr>bc_in := [7, 8], bc_sent := [7, 8]\<rparr>)\<lparr>bc_in := [8]\<rparr>)"

lemma demo_bc_reach: "bc_reach 2 1 demo_bc"
proof -
  let ?a = "NewBatchingChannel 2 1 :: nat bc"
  let ?b = "?a\<lparr>bc_in := [7], bc_sent := [7]\<rparr>"
  let ?c = "?a\<lparr>bc_in := [7, 8], bc_sent := [7, 8]\<rparr>"
  have "bc_step ?a ?b" using bc_step.send [of ?a 7] by (simp add: NewBatchingChannel_def)
  moreover have "bc_step ?b ?c" using bc_step.send [of ?b 8] by (simp add: NewBatchingChannel_def)
  moreover have "bc_step ?c demo_bc"
    unfolding demo_bc_def by (rule bc_step.receive) (simp_all add: NewBatchingChannel_def)
  ultimately show ?thesis by (meson rtranclp.rtrancl_into_rtrancl rtranclp.rtrancl_refl)
qed

theorem batching_channel_lossless_witness:
  "bc_sent demo_bc = [7, 8] \<and> bc_blocked demo_bc = Some [7] \<and> \<not> bc_out_closed demo_bc"
  using batching_channel_lossless [OF demo_bc_reach]
  by (simp add: demo_bc_def batch_receive_def bc_flush_def NewBatchingChannel_def)

section \<open>Draining\<close>

lemma bc_steps_trans: "bc_step\<^sup>*\<^sup>* s t \<Longrightarrow> bc_step t u \<Longrightarrow> bc_step\<^sup>*\<^sup>* s u"
  by (rule rtranclp.rtrancl_into_rtrancl)

text \<open>Only internal steps and the receiver are needed to empty the pipe; \<open>bc_sent\<close> does not change.\<close>

lemma drain_out:
  "bc_ok s \<Longrightarrow> \<exists>t. bc_step\<^sup>*\<^sup>* s t \<and> bc_out t = [] \<and> bc_blocked t = bc_blocked s \<and>
     bc_buffer t = bc_buffer s \<and> bc_in t = bc_in s \<and> bc_sent t = bc_sent s"
proof (cases "bc_out s")
  case (Cons b bs)
  assume "bc_ok s"
  with Cons have "bs = []" by (simp add: bc_ok_def)
  with Cons have "bc_step s (s\<lparr>bc_out := [], bc_taken := bc_taken s @ [b]\<rparr>)"
    using bc_step.take [of s b bs] by simp
  then show ?thesis by (intro exI [of _ "s\<lparr>bc_out := [], bc_taken := bc_taken s @ [b]\<rparr>"]) auto
qed auto

lemma drain_blocked:
  assumes "bc_ok s"
  shows "\<exists>t. bc_step\<^sup>*\<^sup>* s t \<and> bc_out t = [] \<and> bc_blocked t = None \<and>
     bc_buffer t = bc_buffer s \<and> bc_in t = bc_in s \<and> bc_sent t = bc_sent s"
proof -
  from drain_out [OF assms] obtain t where t: "bc_step\<^sup>*\<^sup>* s t" "bc_out t = []" "bc_blocked t = bc_blocked s"
    "bc_buffer t = bc_buffer s" "bc_in t = bc_in s" "bc_sent t = bc_sent s" by auto
  show ?thesis
  proof (cases "bc_blocked s")
    case None
    with t show ?thesis by auto
  next
    case (Some b)
    let ?u = "t\<lparr>bc_blocked := None, bc_out := [b]\<rparr>"
    let ?v = "?u\<lparr>bc_out := [], bc_taken := bc_taken ?u @ [b]\<rparr>"
    have "bc_step t ?u" using bc_step.deliver [of t b] t(2,3) Some by simp
    moreover have "bc_step ?u ?v" using bc_step.take [of ?u b "[]"] by simp
    ultimately have "bc_step\<^sup>*\<^sup>* s ?v" using t(1) by (meson bc_steps_trans)
    with t show ?thesis by (intro exI [of _ ?v]) simp
  qed
qed

lemma bc_steps_ok: "bc_step\<^sup>*\<^sup>* s t \<Longrightarrow> bc_ok s \<Longrightarrow> bc_ok t"
  by (induction rule: rtranclp_induct) (auto intro: bc_step_ok)

lemma drain_input:
  "bc_ok s \<Longrightarrow> \<exists>t. bc_step\<^sup>*\<^sup>* s t \<and> bc_out t = [] \<and> bc_blocked t = None \<and> bc_in t = [] \<and> bc_sent t = bc_sent s"
proof (induction "length (bc_in s)" arbitrary: s)
  case 0
  from drain_blocked [OF 0(2)] 0(1) show ?case by auto
next
  case (Suc n)
  from drain_blocked [OF Suc(3)] obtain t where t: "bc_step\<^sup>*\<^sup>* s t" "bc_out t = []" "bc_blocked t = None"
    "bc_in t = bc_in s" "bc_sent t = bc_sent s" by auto
  from Suc(2) t(4) obtain x xs where x: "bc_in t = x # xs" by (cases "bc_in s") auto
  let ?u = "batch_receive x (t\<lparr>bc_in := xs\<rparr>)"
  have step: "bc_step t ?u" using t(3) x by (rule bc_step.receive)
  have "bc_ok ?u" using bc_step_ok [OF step bc_steps_ok [OF t(1) Suc(3)]] .
  moreover have "length (bc_in t) = Suc n" using Suc(2) t(4) by simp
  with x have "n = length (bc_in ?u)" by simp
  ultimately obtain v where v: "bc_step\<^sup>*\<^sup>* ?u v" "bc_out v = []" "bc_blocked v = None" "bc_in v = []" "bc_sent v = bc_sent ?u"
    using Suc(1) by blast
  have "bc_step\<^sup>*\<^sup>* s v" using t(1) step v(1) by (meson bc_steps_trans rtranclp_trans)
  with v t(5) show ?case by (intro exI [of _ v]) simp
qed

text \<open>C15.
  From every reachable state, with no further sends and whatever is stuck where, the goroutine,
  its timer and a receiver can bring the channel to a state in which everything sent has been
  taken: no element is ever trapped.\<close>

theorem batching_channel_drains:
  assumes "bc_reach capacity maxBatchSize s"
  shows "\<exists>t. bc_step\<^sup>*\<^sup>* s t \<and> bc_sent t = bc_sent s \<and> concat (bc_taken t) = bc_sent s"
proof -
  from drain_input [OF bc_reach_ok [OF assms]] obtain t where
    t: "bc_step\<^sup>*\<^sup>* s t" "bc_out t = []" "bc_blocked t = None" "bc_in t = []" "bc_sent t = bc_sent s" by auto
  let ?u = "batch_tick t"
  have step: "bc_step t ?u" using t(3) by (rule bc_step.tick)
  have oku: "bc_ok ?u" using bc_step_ok [OF step bc_steps_ok [OF t(1) bc_reach_ok [OF assms]]] .
  have u: "bc_buffer ?u = []" "bc_in ?u = []" "bc_sent ?u = bc_sent s"
    using t by (simp_all add: batch_tick_def bc_flush_def)
  from drain_blocked [OF oku] u obtain v where v: "bc_step\<^sup>*\<^sup>* ?u v" "bc_out v = []" "bc_blocked v = None"
    "bc_buffer v = []" "bc_in v = []" "bc_sent v = bc_sent s" by auto
  have "bc_ok v" using bc_steps_ok [OF v(1) oku] .
  with v have "concat (bc_taken v) = bc_sent s" by (simp add: bc_ok_def bc_content_def)
  moreover have "bc_step\<^sup>*\<^sup>* s v" using t(1) step v(1) by (meson bc_steps_trans rtranclp_trans)
  ultimately show ?thesis using v(6) by auto
qed

theorem batching_channel_drains_witness:
  "\<exists>t. bc_step\<^sup>*\<^sup>* demo_bc t \<and> concat (bc_taken t) = [7, 8]"
proof -
  have "bc_sent demo_bc = [7, 8]"
    by (simp add: demo_bc_def NewBatchingChannel_def)
  with batching_channel_drains [OF demo_bc_reach] show ?thesis by auto
qed

section \<open>The buffered concurrent channel\<close>

text \<open>
  \<open>Run\<close> receives a value, acquires one unit of the weighted semaphore, and starts a goroutine that
  runs the handler and releases it. \<open>cc_next\<close> is a received value waiting for the semaphore.
  Cancellation of the context ends \<open>Run\<close>, dropping a value that is still waiting.
\<close>

record 'a cc =
  cc_cap :: nat
  cc_conc :: nat
  cc_queue :: "'a list"
  cc_next :: "'a option"
  cc_running :: "'a list"
  cc_stopped :: bool

definition NewBufferedConcurrentChannel :: "nat \<Rightarrow> nat \<Rightarrow> 'a cc" where
  "NewBufferedConcurrentChannel capacity concurrency =
     \<lparr>cc_cap = capacity, cc_conc = concurrency, cc_queue = [], cc_next = None, cc_running = [], cc_stopped = False\<rparr>"

inductive cc_step :: "'a cc \<Rightarrow> 'a cc \<Rightarrow> bool" where
  send: "length (cc_queue s) < cc_cap s \<Longrightarrow> cc_step s (s\<lparr>cc_queue := cc_queue s @ [x]\<rparr>)"
| receive: "\<not> cc_stopped s \<Longrightarrow> cc_next s = None \<Longrightarrow> cc_queue s = x # xs \<Longrightarrow>
     cc_step s (s\<lparr>cc_queue := xs, cc_next := Some x\<rparr>)"
| acquire: "\<not> cc_stopped s \<Longrightarrow> cc_next s = Some x \<Longrightarrow> length (cc_running s) < cc_conc s \<Longrightarrow>
     cc_step s (s\<lparr>cc_next := None, cc_running := cc_running s @ [x]\<rparr>)"
| release: "cc_running s = xs @ x # ys \<Longrightarrow> cc_step s (s\<lparr>cc_running := xs @ ys\<rparr>)"
| cancel: "cc_step s (s\<lparr>cc_next := None, cc_stopped := True\<rparr>)"

lemma cc_step_bound:
  "cc_step s s' \<Longrightarrow> length (cc_running s) \<le> cc_conc s \<and> length (cc_queue s) \<le> cc_cap s \<Longrightarrow>
     length (cc_running s') \<le> cc_conc s' \<and> length (cc_queue s') \<le> cc_cap s' \<and>
     cc_conc s' = cc_conc s \<and> cc_cap s' = cc_cap s"
  by (induction rule: cc_step.induct) auto

text \<open>At most \<open>concurrency\<close> handlers run at a time, and the buffer never exceeds its capacity.\<close>

theorem concurrent_channel_bounded:
  assumes "cc_step\<^sup>*\<^sup>* (NewBufferedConcurrentChannel capacity concurrency) s"
  shows "length (cc_running s) \<le> concurrency \<and> length (cc_queue s) \<le> capacity"
proof -
  have "length (cc_running s) \<le> cc_conc s \<and> length (cc_queue s) \<le> cc_cap s \<and>
      cc_conc s = concurrency \<and> cc_cap s = capacity"
    using assms
    by (induction rule: rtranclp_induct)
      (auto simp: NewBufferedConcurrentChannel_def dest: cc_step_bound)
  then show ?thesis by simp
qed

section \<open>The keyed limiter\<close>

text \<open>
  The expiring LRU and the token bucket are third-party: the cache is a map from keys to limiters,
  \<open>live\<close> tells whether a cached entry is still served, \<open>evict\<close> is the key dropped when one is added,
  and \<open>new_limiter\<close> is a fresh bucket.
\<close>

definition defaultKeyedLimiterSize :: int where "defaultKeyedLimiterSize = 1000"

record 'l keyedLimiter =
  kl_size :: int
  kl_lru :: "string \<rightharpoonup> 'l"

definition NewKeyedLimiter :: "int \<Rightarrow> 'l keyedLimiter" where
  "NewKeyedLimiter sz =
     \<lparr>kl_size = if sz \<le> 0 then defaultKeyedLimiterSize else sz, kl_lru = Map.empty\<rparr>"

definition getLimiter :: "bool \<Rightarrow> string option \<Rightarrow> 'l \<Rightarrow> string \<Rightarrow> 'l keyedLimiter \<Rightarrow> 'l \<times> 'l keyedLimiter" where
  "getLimiter live evict new_limiter key s =
     (case (if live then kl_lru s key else None) of
        Some l \<Rightarrow> (l, s)
      | None \<Rightarrow>
          (new_limiter,
           s\<lparr>kl_lru := (case evict of None \<Rightarrow> kl_lru s | Some k \<Rightarrow> (kl_lru s)(k := None))(key \<mapsto> new_limiter)\<rparr>))"

lemma NewKeyedLimiter_bounded: "0 < kl_size (NewKeyedLimiter sz)"
  by (simp add: NewKeyedLimiter_def defaultKeyedLimiterSize_def)

lemma getLimiter_cached:
  assumes "getLimiter live evict l0 key s = (l, s')"
  shows "kl_lru s' key = Some l" and "fst (getLimiter True evict' l1 key s') = l"
  using assms by (auto simp: getLimiter_def split: option.splits if_splits)

end
