(* ===== verification/AnimeTitle.thy ===== *)
theory AnimeTitle
  imports AnimeDetect
begin

text \<open>
  The title recovery of \<open>internal/anime/title.go\<close>: which bracketed tokens are release metadata, batch and
  film markers, and \<open>CleanTitle\<close>. The main result is that the recovery inverts the usual form of a
  fansub release name.
\<close>

section \<open>Title recovery (\<open>title.go\<close>)\<close>

text \<open>\<open>strings.Trim\<close> with an ASCII cut set, \<open>strings.FieldsFunc\<close> and \<open>strings.Join\<close> with a space.\<close>

definition strings_Trim :: "string \<Rightarrow> string \<Rightarrow> string" where
  "strings_Trim cutset s = rev (dropWhile (\<lambda>c. c \<in> set cutset) (rev (dropWhile (\<lambda>c. c \<in> set cutset) s)))"

fun fields_loop :: "(nat \<Rightarrow> bool) \<Rightarrow> string \<Rightarrow> (nat \<times> string) list \<Rightarrow> string list" where
  "fields_loop P acc [] = (if acc = [] then [] else [acc])"
| "fields_loop P acc ((r, b) # gs) =
     (if P r then (if acc = [] then fields_loop P [] gs else acc # fields_loop P [] gs)
      else fields_loop P (acc @ b) gs)"

definition FieldsFunc :: "(nat \<Rightarrow> bool) \<Rightarrow> string \<Rightarrow> string list" where
  "FieldsFunc P s = fields_loop P [] (segs s)"

fun join_space :: "string list \<Rightarrow> string" where
  "join_space [] = []"
| "join_space [f] = f"
| "join_space (f # fs) = f @ CHR '' '' # join_space fs"

definition langAlt :: rx where
  "langAlt = RAlts [RCats [RStr True ''en'', ROpt (RStr True ''g'')], RStr True ''english'',
     RCats [RStr True ''ja'', ROpt (RStr True ''p'')], RStr True ''jpn'', RStr True ''japanese'', RStr True ''chs'',
     RStr True ''cht'', RStr True ''chinese'', RStr True ''mandarin'', RStr True ''cantonese'', RStr True ''kor'',
     RStr True ''korean'', RStr True ''ita'', RStr True ''italian'', RStr True ''spa'', RStr True ''spanish'',
     RCats [RStr True ''fr'', ROpt (RStr True ''e'')], RStr True ''french'', RStr True ''ger'', RStr True ''german'',
     RStr True ''por'', RStr True ''portuguese'', RStr True ''rus'', RStr True ''russian'', RStr True ''ara'',
     RStr True ''arabic'', RStr True ''tha'', RStr True ''thai'', RStr True ''vie'', RStr True ''vietnamese'',
     RStr True ''ind'', RStr True ''indonesian'', RStr True ''pol'', RStr True ''polish'', RStr True ''dut'',
     RStr True ''dutch'', RStr True ''swe'', RStr True ''swedish'', RStr True ''dan'', RStr True ''danish'',
     RStr True ''nor'', RStr True ''norwegian'', RStr True ''fin'', RStr True ''finnish'', RStr True ''tur'',
     RStr True ''turkish'', RStr True ''hin'', RStr True ''hindi'', RStr True ''tam'', RStr True ''tamil'',
     RStr True ''tel'', RStr True ''telugu'', RStr True ''ukr'', RStr True ''ukrainian'']"

text \<open>
  Short forms for the alternatives of \<open>technicalTokenRe\<close>: a literal, and a literal followed by an
  optional rune of a set and another literal.
\<close>

definition tok :: "string \<Rightarrow> rx" where
  "tok s = RStr True s"

definition tok_opt :: "string \<Rightarrow> string \<Rightarrow> string \<Rightarrow> rx" where
  "tok_opt a sep b = RCats [tok a, ROpt (tok sep), tok b]"

definition technicalTokenRe :: rx where
  "technicalTokenRe = RCats [RBegin, RAlts ([
       RCats [RRepeat 3 4 RDigit, tok ''p''],
       RCats [RRepeat 3 4 RDigit, tok ''x'', RRepeat 3 4 RDigit],
       tok ''4k'', tok ''uhd'', tok ''sd'', tok ''hd'',
       RCats [tok ''x26'', RChars True ''45''], RCats [tok ''h'', ROpt (tok ''.''), tok ''26'', RChars True ''45''],
       tok ''hevc'', tok ''avc'', tok ''xvid'', tok ''divx'', tok ''av1'',
       tok_opt ''10'' '' '' ''bit'', tok_opt ''8'' '' '' ''bit'', RCats [tok ''hi10'', ROpt (tok ''p'')],
       tok_opt ''bd'' '' '' ''rip'', tok ''bd'', tok_opt ''blu'' ''-'' ''ray'', tok_opt ''dvd'' '' '' ''rip'', tok ''dvd'',
       tok_opt ''web'' ''-'' ''dl'', tok_opt ''web'' '' '' ''rip'', tok ''web'', tok ''hdtv'', tok ''tv'', tok ''remux'',
       tok ''cr'', tok ''amzn'', tok ''nf'', tok ''hidive'', tok ''adn'', RCats [tok ''funi'', ROpt (tok ''mation'')],
       RCats [tok ''disney'', ROpt (tok ''+'')], tok ''abema'', tok ''baha'', tok_opt ''b'' ''-'' ''global'',
       tok ''aac'', tok ''ac3'', tok ''eac3'', tok ''flac'', RCats [tok ''dts'', ROpt (RCats [ROpt (tok ''-''), tok ''hd''])],
       tok ''opus'', tok ''mp3'',
       RCats [tok ''dd'', ROpt (tok ''p''), RDigit, ROpt (RCats [tok ''.'', RDigit])],
       tok ''mkv'', tok ''mp4'', tok ''avi'', tok ''ts'', tok ''m2ts'',
       RCats [tok ''multi'', ROpt (tok '' ''), ROpt (tok ''-''), tok ''sub'', ROpt (tok ''s'')],
       RCats [tok ''multiple subtitle'', ROpt (tok ''s'')],
       RCats [tok ''dual'', ROpt (tok '' ''), ROpt (tok ''-''), tok ''audio''],
       RCats [tok ''multi'', ROpt (tok '' ''), ROpt (tok ''-''), tok ''audio''], tok ''audio'',
       RCats [tok ''sub'', ROpt (RAlts [tok ''bed'', tok ''s''])],
       RCats [tok ''dub'', ROpt (RAlts [tok ''bed'', tok ''s''])],
       RCats [tok ''raw'', ROpt (tok ''s'')], tok ''uncensored'', tok ''censored'',
       tok ''batch'', tok ''complete'', tok ''repack'', RCats [tok ''v'', RDigit], tok ''final'',
       RRepeat 8 8 (RClass True False [(48, 57), (97, 102)]),
       RCats [langAlt, RStar (RCats [ROpt (RChars True '',+/ ''), langAlt])],
       tok ''multiple'', RCats [tok ''subtitle'', ROpt (tok ''s'')]]), REnd]"

definition bracketSpanRe :: rx where
  "bracketSpanRe = RCats [RChars False ''[('', RStar (RNotChars False ''])''), RChars False ''])'']"

definition fileExtRe :: rx where
  "fileExtRe = RCats [RStr True ''.'', RCap 1 (RAlts (map (RStr True)
     [''mkv'', ''mp4'', ''avi'', ''ts'', ''m2ts'', ''ogm'', ''wmv'', ''rmvb''])), REnd]"

definition versionTailRe :: rx where
  "versionTailRe = RCats [RStar RSpace, RStr True ''v'', RPlus RDigit, REnd]"

definition space_or :: "string \<Rightarrow> rx" where
  "space_or s = RClass False False ([(9, 10), (12, 13), (32, 32)] @ char_ranges s)"

definition titleJunkTailRe :: rx where
  "titleJunkTailRe = RCats [RPlus (space_or ''._~-''), REnd]"

definition batchRangeRe :: rx where
  "batchRangeRe = RCats [RAlts [RBegin, space_or ''._([''], RRepeat 1 4 RDigit, RStar RSpace, RChars False ''-~'',
     RStar RSpace, RRepeat 1 4 RDigit, RAlts [REnd, space_or ''._)]'']]"

definition movieMarkerRe :: rx where
  "movieMarkerRe = RCats [RAlts [RBegin, space_or ''._[(-''],
     RAlts [RStr True ''movie'', RStr True ''gekijouban'', RCats [RStr True ''gekijou'', ROpt (RStr True ''-''), RStr True ''ban''],
       RStr True ''the movie'', RStr True ''film'',
       RCats [RClass True False [(0x5287, 0x5287)], RClass True False [(0x5834, 0x5834)], RClass True False [(0x7248, 0x7248)]]],
     RAlts [REnd, space_or ''._])-'']]"

text \<open>
  \<open>isTechnicalBracket\<close>: a field counts when it is technical itself or together with a neighbour. The
  second loop reads the flags the first one set and sets flags in pairs.
\<close>

definition tech_pair :: "string list \<Rightarrow> nat \<Rightarrow> bool" where
  "tech_pair flds i =
     (MatchString technicalTokenRe (flds ! i @ CHR '' '' # flds ! (i + 1)) \<or>
      MatchString technicalTokenRe (flds ! i @ flds ! (i + 1)))"

fun pair_loop :: "string list \<Rightarrow> nat list \<Rightarrow> bool list \<Rightarrow> bool list" where
  "pair_loop flds [] counted = counted"
| "pair_loop flds (i # is) counted =
     (if counted ! i \<and> counted ! (i + 1) then pair_loop flds is counted
      else if tech_pair flds i then pair_loop flds is (counted[i := True, i + 1 := True])
      else pair_loop flds is counted)"

definition isTechnicalBracket :: "(string \<Rightarrow> string) \<Rightarrow> string \<Rightarrow> bool" where
  "isTechnicalBracket uni t =
     (let inner = TrimSpace (strings_Trim ''[]()'' t) in
      if inner = [] then True
      else if KnownGroup uni (''['' @ inner @ '']'') \<noteq> [] then True
      else if MatchString technicalTokenRe inner then True
      else let flds = FieldsFunc (\<lambda>r. r = 32 \<or> r = 95 \<or> r = 46 \<or> r = 44) inner in
        if flds = [] then True
        else let counted = pair_loop flds [0..<length flds - 1] (map (MatchString technicalTokenRe) flds)
             in length flds < length (filter (\<lambda>c. c) counted) * 2)"

definition IsBatch :: "(string \<Rightarrow> string) \<Rightarrow> string \<Rightarrow> Signals \<Rightarrow> bool" where
  "IsBatch uni name s =
     (if AbsoluteRange s then True
      else let lower = ToLower uni name in
        if strings_Contains lower ''[batch]'' \<or> strings_Contains lower ''(batch)'' \<or>
           strings_Contains lower ''complete series'' \<or> strings_Contains lower ''complete season''
        then True else MatchString batchRangeRe name)"

definition IsExplicitMovie :: "string \<Rightarrow> bool" where
  "IsExplicitMovie name = MatchString movieMarkerRe name"

definition isLetterRune :: "nat \<Rightarrow> bool" where
  "isLetterRune r \<longleftrightarrow> (97 \<le> r \<and> r \<le> 122) \<or> (65 \<le> r \<and> r \<le> 90) \<or> 127 < r"

text \<open>The first loop of \<open>CleanTitle\<close>; each turn removes a bracketed token, so the text gets shorter.\<close>

lemma str_between_all [simp]: "length (segs s) \<le> j \<Longrightarrow> str_between s 0 j = s"
  by (simp add: str_between_def)

lemma str_split: "str_between s 0 i @ str_from s i = s"
proof -
  have "concat (map snd (take i (segs s) @ drop i (segs s))) = s"
    by (simp only: append_take_drop_id concat_segs)
  then show ?thesis
    by (simp only: str_between_def str_from_def map_append concat_append diff_zero drop_0)
qed

lemma str_between_ne: "0 < i \<Longrightarrow> s \<noteq> [] \<Longrightarrow> str_between s 0 i \<noteq> []"
proof -
  assume "0 < i" "s \<noteq> []"
  moreover have "segs s \<noteq> []" using \<open>s \<noteq> []\<close> by (metis concat.simps(1) concat_segs list.simps(8))
  ultimately show ?thesis
    using segs_bytes [of s] by (cases "segs s"; cases i) (auto simp: str_between_def)
qed

lemma str_from_shorter: "0 < i \<Longrightarrow> s \<noteq> [] \<Longrightarrow> length (str_from s i) < length s"
  using str_split [of s i] str_between_ne [of i s] by (metis append_eq_conv_conj length_append less_add_same_cancel2 length_greater_0_conv)

lemma bracketSpan_progress:
  assumes "FindStringSubmatchIndex bracketSpanRe s = Some (a, b, cs)"
  shows "0 < b" "s \<noteq> []"
proof -
  note f = rx_find_Some [OF assms [unfolded FindStringSubmatchIndex_def]]
  have "a < length (runes s)" "0 < b"
    using f(4) by (auto simp: bracketSpanRe_def RChars_def)
  then show "0 < b" "s \<noteq> []" by (auto simp: runes_def)
qed

lemma bracketSpan_shorter:
  "FindStringSubmatchIndex bracketSpanRe s = Some (a, b, cs) \<Longrightarrow> length (str_from s b) < length s"
  using bracketSpan_progress [of s a b cs] str_from_shorter [of b s] by simp

function strip_leading :: "(string \<Rightarrow> string) \<Rightarrow> string \<Rightarrow> string" where
  "strip_leading uni t =
     (case FindStringSubmatchIndex bracketSpanRe t of
        None \<Rightarrow> t
      | Some (a, b, cs) \<Rightarrow>
          if TrimSpace (str_between t 0 a) \<noteq> [] then t
          else if \<not> isTechnicalBracket uni (str_between t a b) then t
          else strip_leading uni (str_from t b))"
  by pat_completeness auto
termination
  by (relation "measure (\<lambda>(uni, t). length t)") (auto simp: bracketSpan_shorter)

declare strip_leading.simps [simp del]

fun cut_technical :: "(string \<Rightarrow> string) \<Rightarrow> string \<Rightarrow> (nat \<times> nat \<times> caps) list \<Rightarrow> string" where
  "cut_technical uni t [] = t"
| "cut_technical uni t ((a, b, cs) # ms) =
     (if isTechnicalBracket uni (str_between t a b) then str_between t 0 a else cut_technical uni t ms)"

definition CleanTitle :: "(string \<Rightarrow> string) \<Rightarrow> string \<Rightarrow> Signals \<Rightarrow> string" where
  "CleanTitle uni name s =
     (if name = [] then []
      else
        let t1 = strip_leading uni name;
            t2 = (if CHR '' '' \<notin> set t1 \<and> CHR ''_'' \<in> set t1
                  then map (\<lambda>c. if c = CHR ''_'' then CHR '' '' else c) t1 else t1);
            t3 = (if 0 < AbsoluteEpisode s
                  then (case FindStringSubmatchIndex absoluteEpRe t2 of
                          None \<Rightarrow> t2 | Some (a, b, cs) \<Rightarrow> str_between t2 0 a)
                  else t2);
            t4 = cut_technical uni t3 (FindAllStringSubmatchIndex bracketSpanRe t3);
            t5 = RemoveAllString fileExtRe t4;
            t6 = RemoveAllString versionTailRe t5;
            t7 = RemoveAllString batchRangeRe t6;
            t8 = RemoveAllString titleJunkTailRe t7;
            t9 = join_space (FieldsFunc IsSpace t8) in
        if length (runes t9) < 3 \<or> \<not> list_ex isLetterRune (runes t9) then [] else t9)"

subsection \<open>Bracketed spans\<close>

lemma bracketSpan_start:
  assumes "FindStringSubmatchIndex bracketSpanRe s = Some (a, b, cs)"
  shows "a < length (runes s)" "runes s ! a \<in> {91, 40}"
proof -
  note f = rx_find_Some [OF assms [unfolded FindStringSubmatchIndex_def]]
  have "in_class False False (char_ranges ''[('') r \<longleftrightarrow> r \<in> {91, 40}" for r
    by (auto simp: in_class_def in_ranges_def char_ranges_def)
  then show "a < length (runes s)" "runes s ! a \<in> {91, 40}"
    using f(4) by (auto simp: bracketSpanRe_def RChars_def)
qed

lemma no_bracketSpan:
  "\<forall>r \<in> set (runes s). r \<notin> {91, 40} \<Longrightarrow> FindStringSubmatchIndex bracketSpanRe s = None"
proof (rule ccontr)
  assume none: "\<forall>r \<in> set (runes s). r \<notin> {91, 40}" and "FindStringSubmatchIndex bracketSpanRe s \<noteq> None"
  then obtain a b cs where "FindStringSubmatchIndex bracketSpanRe s = Some (a, b, cs)" by auto
  from bracketSpan_start [OF this] show False using none by (metis nth_mem)
qed

lemma bracketSpan_tag:
  assumes "list_all (\<lambda>c. code c < 128) tag" "CHR '']'' \<notin> set tag" "CHR '')'' \<notin> set tag"
  shows "FindStringSubmatchIndex bracketSpanRe (''['' @ tag @ '']'' @ rest) = Some (0, length tag + 2, \<lambda>_. None)"
proof -
  define tx where "tx = runes (''['' @ tag @ '']'' @ rest)"
  have tx: "tx = [91] @ map of_char tag @ [93] @ runes rest"
    using runes_ascii_append [of "''['' @ tag @ '']''" rest] assms(1) by (simp add: tx_def)
  have inner: "tx ! k \<notin> {93, 41}" if "0 < k" "k < length tag + 1" for k
  proof -
    have "tx ! k = code (tag ! (k - 1))" using that tx by (auto simp: nth_append nth_Cons')
    moreover have "tag ! (k - 1) \<in> set tag" using that by (intro nth_mem) simp
    then have "code (tag ! (k - 1)) \<noteq> code CHR '']''" "code (tag ! (k - 1)) \<noteq> code CHR '')''"
      using assms(2,3) by (metis of_char_eq_iff)+
    ultimately show ?thesis by simp
  qed
  have pos: "tx ! 0 = 91" "tx ! (length tag + 1) = 93" "length tag + 1 < length tx"
    using tx by (auto simp: nth_append)
  have cls: "in_class False False (char_ranges ''[('') r \<longleftrightarrow> r \<in> {91, 40}"
    "in_class False False (char_ranges ''])'') r \<longleftrightarrow> r \<in> {93, 41}"
    "in_class False True (char_ranges ''])'') r \<longleftrightarrow> r \<notin> {93, 41}" for r
    by (auto simp: in_class_def in_ranges_def char_ranges_def)
  have rel: "rx_rel tx bracketSpanRe 0 j \<longleftrightarrow> j = length tag + 2" for j
  proof -
    have "rx_rel tx bracketSpanRe 0 j \<longleftrightarrow> (\<exists>k. j = Suc k \<and> k < length tx \<and> tx ! k \<in> {93, 41} \<and> 1 \<le> k \<and>
        (\<forall>i. 1 \<le> i \<and> i < k \<longrightarrow> tx ! i \<notin> {93, 41}))"
      using pos unfolding bracketSpanRe_def RChars_def RNotChars_def RCats.simps rx_rel.simps(6) relcompp_apply
        star_class_rel rx_rel.simps(2) cls by force
    also have "\<dots> \<longleftrightarrow> j = length tag + 2"
    proof
      assume "\<exists>k. j = Suc k \<and> k < length tx \<and> tx ! k \<in> {93, 41} \<and> 1 \<le> k \<and> (\<forall>i. 1 \<le> i \<and> i < k \<longrightarrow> tx ! i \<notin> {93, 41})"
      then obtain k where k: "j = Suc k" "tx ! k \<in> {93, 41}" "1 \<le> k" "\<And>i. 1 \<le> i \<Longrightarrow> i < k \<Longrightarrow> tx ! i \<notin> {93, 41}"
        by blast
      have "\<not> k < length tag + 1" using inner [of k] k(2,3) by auto
      moreover have "\<not> length tag + 1 < k" using k(4) [of "length tag + 1"] pos(2) by auto
      ultimately show "j = length tag + 2" using k(1) by simp
    next
      assume "j = length tag + 2"
      then show "\<exists>k. j = Suc k \<and> k < length tx \<and> tx ! k \<in> {93, 41} \<and> 1 \<le> k \<and> (\<forall>i. 1 \<le> i \<and> i < k \<longrightarrow> tx ! i \<notin> {93, 41})"
        using pos inner by (intro exI [of _ "length tag + 1"]) (auto simp: Suc_le_eq)
    qed
    finally show ?thesis .
  qed
  have "rx_find tx bracketSpanRe 0 = Some (0, length tag + 2, \<lambda>_. None)"
  proof (rule rx_find_unique)
    show "j = length tag + 2 \<and> cs = (\<lambda>_. None)" if "(j, cs) \<in> set (rx_ends tx bracketSpanRe (0, \<lambda>_. None))" for j cs
      using rx_ends_sound [OF that] rx_ends_caps [OF that] rel
      by (auto simp: bracketSpanRe_def RChars_def RNotChars_def fun_eq_iff simp del: rx_rel.simps)
  qed (use rel in auto)
  then show ?thesis by (simp add: FindStringSubmatchIndex_def tx_def)
qed

section \<open>Recovering the title of a fansub release\<close>

text \<open>Titles of ASCII words separated by single blanks.\<close>

definition ascii_letter :: "char \<Rightarrow> bool" where
  "ascii_letter c \<longleftrightarrow> 97 \<le> code c \<and> code c \<le> 122 \<or> 65 \<le> code c \<and> code c \<le> 90"

definition title_words :: "string list \<Rightarrow> bool" where
  "title_words ws \<longleftrightarrow> ws \<noteq> [] \<and> list_all (\<lambda>w. w \<noteq> [] \<and> list_all ascii_letter w) ws"

lemma join_space_chars: "title_words ws \<Longrightarrow> c \<in> set (join_space ws) \<Longrightarrow> ascii_letter c \<or> c = CHR '' ''"
proof (induction ws rule: join_space.induct)
  case (3 f v va)
  then show ?case by (auto simp: title_words_def list_all_iff)
qed (auto simp: title_words_def list_all_iff)

lemma join_space_last: "title_words ws \<Longrightarrow> join_space ws \<noteq> [] \<and> ascii_letter (last (join_space ws))"
proof (induction ws rule: join_space.induct)
  case (3 f v va)
  then have "title_words (v # va)" by (auto simp: title_words_def)
  with 3 show ?case by auto
qed (auto simp: title_words_def list_all_iff)

lemma letter_rune: "ascii_letter c \<Longrightarrow> code c < 128 \<and> \<not> IsSpace (code c) \<and> isLetterRune (code c)"
  by (auto simp: ascii_letter_def IsSpace_def isLetterRune_def)

lemma fields_loop_word:
  "list_all ascii_letter w \<Longrightarrow>
     fields_loop IsSpace acc (map (\<lambda>c. (code c, [c])) w @ gs) = fields_loop IsSpace (acc @ w) gs"
proof (induction w arbitrary: acc)
  case (Cons c w)
  then show ?case using letter_rune [of c] by simp
qed simp

lemma fields_join:
  "title_words ws \<Longrightarrow> fields_loop IsSpace [] (map (\<lambda>c. (code c, [c])) (join_space ws)) = ws"
proof (induction ws rule: join_space.induct)
  case (2 f)
  then show ?case using fields_loop_word [of f "[]" "[]"] by (simp add: title_words_def)
next
  case (3 f v va)
  then have "title_words (v # va)" and f: "f \<noteq> []" "list_all ascii_letter f" by (auto simp: title_words_def)
  moreover have "IsSpace 32" by (simp add: IsSpace_def)
  ultimately show ?case using 3 fields_loop_word [OF f(2), of "[]"] by simp
qed (simp add: title_words_def)

text \<open>A blank and a title: none of the cleaning patterns matches it.\<close>

definition blank_title :: "string \<Rightarrow> bool" where
  "blank_title t \<longleftrightarrow> list_all (\<lambda>c. ascii_letter c \<or> c = CHR '' '') t \<and> t \<noteq> [] \<and> ascii_letter (last t)"

lemma blank_title_join: "title_words ws \<Longrightarrow> blank_title (CHR '' '' # join_space ws)"
  using join_space_chars [of ws] join_space_last [of ws] unfolding blank_title_def list_all_iff by auto

lemma blank_title_ascii: "blank_title t \<Longrightarrow> list_all (\<lambda>c. code c < 128) t"
  by (auto simp: blank_title_def list_all_iff ascii_letter_def)

lemma blank_title_runes:
  assumes "blank_title t" "r \<in> set (runes t)"
  shows "r = 32 \<or> 97 \<le> r \<and> r \<le> 122 \<or> 65 \<le> r \<and> r \<le> 90"
proof -
  obtain c where c: "c \<in> set t" "r = code c"
    using assms(2) unfolding runes_all_ascii [OF blank_title_ascii [OF assms(1)]] by auto
  then have "ascii_letter c \<or> c = CHR '' ''" using assms(1) by (simp add: blank_title_def list_all_iff)
  then show ?thesis using c(2) by (elim disjE) (simp_all add: ascii_letter_def disj_comms)
qed

lemma blank_title_nth:
  "blank_title t \<Longrightarrow> k < length (runes t) \<Longrightarrow>
     runes t ! k = 32 \<or> 97 \<le> runes t ! k \<and> runes t ! k \<le> 122 \<or> 65 \<le> runes t ! k \<and> runes t ! k \<le> 90"
  using blank_title_runes nth_mem by blast

lemma blank_title_no_bracket: "blank_title t \<Longrightarrow> FindStringSubmatchIndex bracketSpanRe t = None"
  by (rule no_bracketSpan) (auto dest: blank_title_runes)

lemma blank_title_no_ext: "blank_title t \<Longrightarrow> \<not> MatchString fileExtRe t"
proof
  assume t: "blank_title t" and "MatchString fileExtRe t"
  then obtain k where k: "k < length (runes t)" "in_class True False [(46, 46)] (runes t ! k)"
    by (auto simp: MatchString_iff fileExtRe_def RStr_def)
  then show False
    using blank_title_nth [OF t k(1)] by (auto simp: in_class_def in_ranges_def fold_orbit_def split: if_splits)
qed

lemma blank_title_no_digit: "blank_title t \<Longrightarrow> \<not> rx_rel (runes t) RDigit i j"
  using blank_title_nth [of t i] by (auto simp: basic_rel)

lemma blank_title_no_version: "blank_title t \<Longrightarrow> \<not> MatchString versionTailRe t"
  using blank_title_no_digit [of t] by (auto simp: MatchString_iff versionTailRe_def RPlus_def relcompp_apply)

lemma blank_title_no_range: "blank_title t \<Longrightarrow> \<not> MatchString batchRangeRe t"
  using blank_title_no_digit [of t] by (auto simp: MatchString_iff batchRangeRe_def RRepeat_def relcompp_apply)

lemma blank_title_no_junk: "blank_title t \<Longrightarrow> \<not> MatchString titleJunkTailRe t"
proof
  assume t: "blank_title t" and "MatchString titleJunkTailRe t"
  define n where "n = length (runes t)"
  define rs where "rs = [(9, 10), (12, 13), (32, 32)] @ char_ranges ''._~-''"
  obtain i where i: "i < n" "in_class False False rs (runes t ! i)"
      "rx_rel (runes t) (RStar (RClass False False rs)) (Suc i) n"
    using \<open>MatchString titleJunkTailRe t\<close>
    by (auto simp: MatchString_iff titleJunkTailRe_def RPlus_def space_or_def rs_def n_def simp del: rx_rel.simps(9))
  have "in_class False False rs (runes t ! (n - 1))"
    using i unfolding star_class_rel by (cases "Suc i = n") auto
  moreover have "runes t ! (n - 1) = code (last t)"
    using t runes_all_ascii [OF blank_title_ascii [OF t]]
    by (simp add: n_def blank_title_def last_conv_nth)
  ultimately show False
    using t by (auto simp: blank_title_def ascii_letter_def rs_def char_ranges_def in_class_def in_ranges_def)
qed

text \<open>The first bracket of such a text lies behind the title, so nothing more is stripped.\<close>

lemma strip_leading_title:
  assumes t: "blank_title t" and ds: "ep_number ds"
  shows "strip_leading uni (t @ '' - '' @ ds @ rest) = t @ '' - '' @ ds @ rest"
proof (cases "FindStringSubmatchIndex bracketSpanRe (t @ '' - '' @ ds @ rest)")
  case None
  then show ?thesis by (simp add: strip_leading.simps)
next
  case (Some m)
  obtain a b cs where m: "m = (a, b, cs)" by (cases m)
  let ?p = "t @ '' - '' @ ds"
  have ascii: "list_all (\<lambda>c. code c < 128) ?p"
    using blank_title_ascii [OF t] ds by (auto simp: ep_number_def list_all_iff)
  have runes: "runes (?p @ rest) = map of_char ?p @ runes rest" by (rule runes_ascii_append [OF ascii])
  note start = bracketSpan_start [OF Some [unfolded m]]
  have "\<not> a < length ?p"
  proof
    assume a: "a < length ?p"
    then have "runes (?p @ rest) ! a = code (?p ! a)"
      unfolding runes nth_append [of "map of_char ?p"] length_map by (simp only: if_True nth_map)
    moreover have "?p ! a \<in> set ?p" using a nth_mem by blast
    then have "code (?p ! a) \<notin> {91, 40}"
      using t ds by (auto simp: blank_title_def ep_number_def list_all_iff ascii_letter_def)
    ultimately show False using start(2) by simp
  qed
  then have "length t \<le> a" by simp
  then have "str_between (t @ '' - '' @ ds @ rest) 0 a = t @ str_between ('' - '' @ ds @ rest) 0 (a - length t)"
    by (rule str_between_ascii_long [OF blank_title_ascii [OF t]])
  moreover have "code (last t) \<in> set (runes (t @ x))" for x
    using runes_ascii_append [OF blank_title_ascii [OF t]] t by (simp add: blank_title_def)
  moreover have "\<not> IsSpace (code (last t))" using t letter_rune by (simp add: blank_title_def)
  ultimately have "TrimSpace (str_between (t @ '' - '' @ ds @ rest) 0 a) \<noteq> []"
    unfolding TrimSpace_Nil_iff by metis
  then show ?thesis using Some m by (simp add: strip_leading.simps)
qed

lemma strings_Trim_brackets:
  assumes "g \<noteq> []" "\<forall>c \<in> set g. c \<notin> set cutset" "a \<in> set cutset" "b \<in> set cutset"
  shows "strings_Trim cutset ([a] @ g @ [b]) = g"
proof -
  have "dropWhile (\<lambda>c. c \<in> set cutset) (g @ [b]) = g @ [b]" using assms(1,2) by (cases g) auto
  moreover have "dropWhile (\<lambda>c. c \<in> set cutset) (rev g) = rev g"
    using assms(2) by (intro dropWhile_none) auto
  ultimately show ?thesis using assms(3,4) by (simp add: strings_Trim_def)
qed

lemma technical_tag:
  assumes "g \<in> set fansubGroupNames"
  shows "isTechnicalBracket uni (''['' @ g @ '']'')"
proof -
  note g = tag_okD [OF assms]
  have "strings_Trim ''[]()'' (''['' @ g @ '']'') = g"
    using strings_Trim_brackets [of g "''[]()''" "CHR ''[''" "CHR '']''"] g(1,4) by (auto simp: tag_ok_def list_all_iff)
  moreover have "TrimSpace g = g"
  proof -
    have blank: "IsSpace (code c) \<longleftrightarrow> c = CHR '' ''" if "c \<in> set g" for c
      using that g(2) printable_space code_blank by (auto simp: plain_name_def list_all_iff)
    have "dropWhile (\<lambda>c. IsSpace (code c)) g = g"
      using g(1,4) blank [of "hd g"] by (cases g) (auto simp: tag_ok_def)
    moreover have "dropWhile (\<lambda>c. IsSpace (code c)) (rev g) = rev g"
      using g(1,4) blank [of "last g"] by (cases g rule: rev_cases) (auto simp: tag_ok_def)
    ultimately show ?thesis using TrimSpace_ascii [OF plain_name_ascii [OF g(2)]] by simp
  qed
  moreover have "KnownGroup uni (''['' @ g @ '']'') \<noteq> []"
    using fansub_tag(2) [OF g(2,5) assms refl, of uni "[]"] g(4) by simp
  ultimately show ?thesis using g(4) by (simp add: isTechnicalBracket_def)
qed

lemma tag_no_spaced_dash:
  assumes "g \<in> set fansubGroupNames" "blank_title t"
  shows "no_spaced_dash (''['' @ g @ '']'' @ t)"
  unfolding no_spaced_dash_def
proof (intro allI impI)
  let ?p = "''['' @ g @ '']'' @ t"
  fix i assume i: "i < length ?p" "?p ! i = CHR ''-''"
  have "CHR ''-'' \<notin> set t" using assms(2) by (auto simp: blank_title_def list_all_iff ascii_letter_def)
  then have t: "t ! k \<noteq> CHR ''-''" if "k < length t" for k using that nth_mem by metis
  have "0 < i" using i(2) by (cases i) auto
  moreover have i1: "i - 1 < length g"
  proof (rule ccontr)
    assume "\<not> i - 1 < length g"
    then have "i = length g + 1 \<or> length g + 2 \<le> i" using \<open>0 < i\<close> by auto
    then show False
    proof
      assume "i = length g + 1"
      then show False using i(2) by (simp add: nth_append)
    next
      assume le: "length g + 2 \<le> i"
      define k where "k = i - (length g + 2)"
      have k: "i = length (''['' @ g @ '']'') + k" "k < length t" using le i(1) by (auto simp: k_def)
      have "?p = (''['' @ g @ '']'') @ t" by simp
      then have "?p ! i = t ! k" unfolding k(1) by (simp only: nth_append_length_plus)
      then show False using i(2) t [OF k(2)] by simp
    qed
  qed
  then have gi: "g ! (i - 1) = CHR ''-''" using i(2) \<open>0 < i\<close> by (simp add: nth_append nth_Cons')
  have "\<not> space_rune (code (?p ! (i - 1)))"
  proof (cases "i = 1")
    case True
    then show ?thesis by (simp add: space_rune_def)
  next
    case False
    then obtain j where j: "i = Suc (Suc j)" using \<open>0 < i\<close> by (metis One_nat_def gr0_implies_Suc not0_implies_Suc)
    have len: "Suc j < length g" using i1 j by simp
    have "(g ! j, g ! Suc j) \<in> set (zip g (tl g))"
      unfolding in_set_zip using len by (intro exI [of _ j]) (simp add: nth_tl)
    then have "g ! j \<noteq> CHR '' ''"
      using tag_okD(1) [OF assms(1)] gi j by (auto simp: tag_ok_def list_all_iff)
    then have "code (g ! j) \<noteq> 32" using code_blank by blast
    moreover have "32 \<le> code (g ! j)"
      using tag_okD(2) [OF assms(1)] len by (simp add: plain_name_def list_all_iff)
    moreover have "?p ! (i - 1) = g ! j" using j len by (simp add: nth_append)
    ultimately show ?thesis by (simp add: space_rune_def)
  qed
  then show "0 < i \<and> \<not> space_rune (code (?p ! (i - 1)))" using \<open>0 < i\<close> by simp
qed

lemma strip_leading_tag:
  assumes g: "g \<in> set fansubGroupNames"
  shows "strip_leading uni (''['' @ g @ '']'' @ q) = strip_leading uni q"
proof -
  note ok = tag_okD [OF g]
  define s where "s = ''['' @ g @ '']'' @ q"
  have "CHR '')'' \<notin> set g" using ok(1) by (auto simp: tag_ok_def list_all_iff)
  then have find: "FindStringSubmatchIndex bracketSpanRe s = Some (0, length g + 2, \<lambda>_. None)"
    unfolding s_def using plain_name_ascii [OF ok(2)] ok(5) by (intro bracketSpan_tag)
  have ascii: "list_all (\<lambda>c. code c < 128) (''['' @ g @ '']'')" using plain_name_ascii [OF ok(2)] by simp
  have "str_between s 0 (length g + 2) = ''['' @ g @ '']''"
    using str_between_ascii [OF ascii, of "length g + 2" q 0] by (simp add: s_def)
  then have tech: "isTechnicalBracket uni (str_between s 0 (length g + 2))"
    using technical_tag [OF g, of uni] by simp
  have blank: "TrimSpace (str_between s 0 0) = []" by (simp add: str_between_def TrimSpace_def)
  have "str_from s (length g + 2) = q"
    using str_from_ascii [OF ascii, of "length g + 2" q] by (simp add: s_def)
  then have "strip_leading uni s = strip_leading uni q"
    using find tech blank strip_leading.simps [of uni s] by simp
  then show ?thesis by (simp only: s_def)
qed

text \<open>What \<open>CleanTitle\<close> does once the leading tokens are gone and an episode was found.\<close>

lemma CleanTitle_episode:
  assumes name: "name \<noteq> []" "strip_leading uni name = CHR '' '' # join_space ws @ '' - '' @ ds @ rest"
    and ws: "title_words ws" "3 \<le> length (join_space ws)" and ds: "ep_number ds" "ep_end rest"
    and s: "0 < AbsoluteEpisode s"
  shows "CleanTitle uni name s = join_space ws"
proof -
  define t where "t = CHR '' '' # join_space ws"
  have t: "blank_title t" using blank_title_join [OF ws(1)] by (simp add: t_def)
  have shape: "episode_shape t ds rest"
  proof -
    have "CHR ''-'' \<notin> set t" using t by (auto simp: blank_title_def list_all_iff ascii_letter_def)
    then have "no_spaced_dash t" unfolding no_spaced_dash_def by (metis nth_mem)
    then show ?thesis using blank_title_ascii [OF t] ds by (simp add: episode_shape_def)
  qed
  have t2: "strip_leading uni name = t @ '' - '' @ ds @ rest" using name(2) by (simp add: t_def)
  obtain b cs where find: "FindStringSubmatchIndex absoluteEpRe (t @ '' - '' @ ds @ rest) = Some (length t, b, cs)"
    using ep_find [OF shape] by blast
  have t3: "str_between (t @ '' - '' @ ds @ rest) 0 (length t) = t"
    using str_between_ascii_long [OF blank_title_ascii [OF t], of "length t" "'' - '' @ ds @ rest"]
    by (simp add: str_between_def)
  have none: "FindAllStringSubmatchIndex bracketSpanRe t = []"
    using blank_title_no_bracket [OF t]
    by (simp add: FindAllStringSubmatchIndex_def FindStringSubmatchIndex_def)
  have clean: "RemoveAllString fileExtRe t = t" "RemoveAllString versionTailRe t = t"
    "RemoveAllString batchRangeRe t = t" "RemoveAllString titleJunkTailRe t = t"
    using blank_title_no_ext [OF t] blank_title_no_version [OF t] blank_title_no_range [OF t] blank_title_no_junk [OF t]
    by (simp_all add: RemoveAllString_none)
  have "IsSpace 32" by (simp add: IsSpace_def)
  then have flds: "FieldsFunc IsSpace t = ws"
    using fields_join [OF ws(1)] segs_all_ascii [OF blank_title_ascii [OF t]] by (simp add: FieldsFunc_def t_def)
  have ascii: "list_all (\<lambda>c. code c < 128) (join_space ws)" using blank_title_ascii [OF t] by (simp add: t_def)
  have "length (runes (join_space ws)) = length (join_space ws)" using runes_all_ascii [OF ascii] by simp
  moreover have "list_ex isLetterRune (runes (join_space ws))"
    using runes_all_ascii [OF ascii] join_space_last [OF ws(1)] letter_rune [of "last (join_space ws)"]
    by (auto simp: list_ex_iff intro!: bexI [of _ "last (join_space ws)"])
  moreover have "CHR '' '' \<in> set (t @ '' - '' @ ds @ rest)" by simp
  ultimately show ?thesis
    using name(1) s ws(2) find t3 none clean flds unfolding CleanTitle_def t2 Let_def by simp
qed



end
