(* ===== verification/JobQueue.thy ===== *)
theory JobQueue
  imports Prelude "HOL-Library.Product_Lexorder" "HOL-Library.List_Lexorder" "HOL-Library.Char_ord" "HOL-Library.Multiset"
begin

text \<open>
  The job queue in the table \<open>queue_jobs\<close>: jobs (\<open>internal/model/queue_jobs.go\<close>), back-off
  (\<open>internal/queue/helpers.go\<close>), the execution of a handler (\<open>internal/queue/handler\<close>), the server that
  claims and runs jobs (\<open>internal/queue/server\<close>), purging (\<open>internal/queue/manager\<close>) and the cleaner
  (\<open>internal/queueclean\<close>). The table is a list of rows; what PostgreSQL guarantees of a statement (row
  locks of \<open>FOR UPDATE SKIP LOCKED\<close>, the partial unique index on fingerprints) is in the rules of the
  step relation. JSON encoding, the digest and the random number of the back-off are parameters.
\<close>

section \<open>Jobs\<close>

datatype QueueJobStatus =
  QueueJobStatusPending | QueueJobStatusProcessed | QueueJobStatusRetry | QueueJobStatusFailed

record queue_job =
  jb_ID :: string
  jb_Fingerprint :: string
  jb_Queue :: string
  jb_Status :: QueueJobStatus
  jb_Payload :: string
  jb_Retries :: nat
  jb_MaxRetries :: nat
  jb_RunAfter :: time
  jb_RanAt :: "time option"
  jb_Error :: "string option"
  jb_Deadline :: "time option"
  jb_ArchivalDuration :: int
  jb_CreatedAt :: time
  jb_Priority :: int

type_synonym QueueJobOption = "queue_job \<Rightarrow> queue_job"

definition QueueJobMaxRetries :: "nat \<Rightarrow> QueueJobOption" where
  "QueueJobMaxRetries n j = j\<lparr>jb_MaxRetries := n\<rparr>"

definition QueueJobPriority :: "int \<Rightarrow> QueueJobOption" where
  "QueueJobPriority p j = j\<lparr>jb_Priority := p\<rparr>"

definition QueueJobDelayBy :: "int \<Rightarrow> QueueJobOption" where
  "QueueJobDelayBy d j = j\<lparr>jb_RunAfter := jb_RunAfter j + d\<rparr>"

text \<open>
  \<open>NewQueueJob\<close>: the identifier and the creation time are filled in by the insert. \<open>marshal\<close> fails with
  an error text.
\<close>

definition NewQueueJob ::
  "(string \<Rightarrow> string) \<Rightarrow> ('p \<Rightarrow> string + string) \<Rightarrow> time \<Rightarrow> string \<Rightarrow> 'p \<Rightarrow> QueueJobOption list \<Rightarrow> string + queue_job" where
  "NewQueueJob digest marshal now queue payload opts =
     (case marshal payload of
        Inl e \<Rightarrow> Inl e
      | Inr str \<Rightarrow> Inr (fold (\<lambda>opt. opt) opts
          \<lparr>jb_ID = [], jb_Fingerprint = digest (queue @ str), jb_Queue = queue, jb_Status = QueueJobStatusPending,
           jb_Payload = str, jb_Retries = 0, jb_MaxRetries = 0, jb_RunAfter = now, jb_RanAt = None, jb_Error = None,
           jb_Deadline = None, jb_ArchivalDuration = 7 * 24 * Hour, jb_CreatedAt = 0, jb_Priority = 0\<rparr>))"

section \<open>Back-off\<close>

text \<open>
  \<open>r\<close> is the random number below 30. The power is computed in floating point, which is exact for the
  retry counts for which the duration does not overflow.
\<close>

definition CalculateBackoff :: "time \<Rightarrow> int \<Rightarrow> nat \<Rightarrow> time" where
  "CalculateBackoff now r retryCount =
     now + wrap64 (wrap64 (int retryCount ^ 4 + 15 + r * int retryCount + 1) * Second)"

section \<open>Handlers\<close>

record handler_conf =
  hd_Queue :: string
  hd_Concurrency :: int
  hd_CheckInterval :: int
  hd_JobTimeout :: int

type_synonym handler_opt = "handler_conf \<Rightarrow> handler_conf"

definition DefaultHandlerTimeout :: int where "DefaultHandlerTimeout = 30 * Second"

definition opt_JobTimeout :: "int \<Rightarrow> handler_opt" where
  "opt_JobTimeout d h = h\<lparr>hd_JobTimeout := d\<rparr>"

definition opt_Concurrency :: "int \<Rightarrow> handler_opt" where
  "opt_Concurrency c h = h\<lparr>hd_Concurrency := c\<rparr>"

definition WithOptions :: "handler_opt list \<Rightarrow> handler_opt" where
  "WithOptions opts h = fold (\<lambda>opt. opt) opts h"

definition handler_New :: "int \<Rightarrow> string \<Rightarrow> handler_opt list \<Rightarrow> handler_conf" where
  "handler_New numCPU queue opts =
     (let h = WithOptions opts \<lparr>hd_Queue = queue, hd_Concurrency = 0, hd_CheckInterval = 30 * Second, hd_JobTimeout = 0\<rparr>;
          h1 = (if hd_Concurrency h = 0 then opt_Concurrency numCPU h else h)
      in if hd_JobTimeout h1 = 0 then opt_JobTimeout DefaultHandlerTimeout h1 else h1)"

text \<open>
  \<open>Exec\<close>: the handler runs in a goroutine that puts its result into a buffered channel and then sends
  on the unbuffered channel \<open>done\<close>, also after a panic. The caller waits for \<open>done\<close> or for the context
  with the timeout. \<open>ex_handler\<close> is the goroutine, \<open>ex_errCh\<close> the buffer, \<open>ex_result\<close> what \<open>Exec\<close> returned.
\<close>

datatype handler_pc = HandlerRunning | HandlerSending | HandlerGone

datatype ctx_err = DeadlineExceeded | CtxCanceled

record exec_state =
  ex_handler :: handler_pc
  ex_errCh :: "string option list"
  ex_result :: "string option option"

definition exec_start :: exec_state where
  "exec_start = \<lparr>ex_handler = HandlerRunning, ex_errCh = [], ex_result = None\<rparr>"

definition exec_error :: "string option \<Rightarrow> string option" where
  "exec_error e = map_option (\<lambda>x. ''job failed to process: '' @ x) e"

fun timeout_error :: "string \<Rightarrow> ctx_err \<Rightarrow> string" where
  "timeout_error d DeadlineExceeded = ''job exceeded its '' @ d @ '' timeout: context deadline exceeded''"
| "timeout_error d CtxCanceled = ''context canceled''"

inductive exec_step :: "string \<Rightarrow> exec_state \<Rightarrow> exec_state \<Rightarrow> bool" for d where
  returns: "ex_handler s = HandlerRunning \<Longrightarrow>
    exec_step d s (s\<lparr>ex_handler := HandlerSending, ex_errCh := ex_errCh s @ [e]\<rparr>)"
| panics: "ex_handler s = HandlerRunning \<Longrightarrow>
    exec_step d s (s\<lparr>ex_handler := HandlerSending, ex_errCh := ex_errCh s @ [Some (''panic'' @ x)]\<rparr>)"
| done_received: "\<lbrakk>ex_handler s = HandlerSending; ex_result s = None; ex_errCh s = e # es\<rbrakk> \<Longrightarrow>
    exec_step d s (s\<lparr>ex_handler := HandlerGone, ex_errCh := es, ex_result := Some (exec_error e)\<rparr>)"
| ctx_done: "ex_result s = None \<Longrightarrow>
    exec_step d s (s\<lparr>ex_result := Some (Some (timeout_error d c))\<rparr>)"

section \<open>Claiming and finishing a job (\<open>handleJob\<close>)\<close>

fun active :: "QueueJobStatus \<Rightarrow> bool" where
  "active QueueJobStatusPending = True"
| "active QueueJobStatusRetry = True"
| "active _ = False"

definition claimable :: "string \<Rightarrow> time \<Rightarrow> string list \<Rightarrow> queue_job \<Rightarrow> bool" where
  "claimable q now locked j \<longleftrightarrow>
     jb_Queue j = q \<and> active (jb_Status j) \<and> jb_RunAfter j \<le> now \<and> jb_ID j \<notin> set locked"

text \<open>The order of the query: \<open>status = 'retry'\<close>, priority, \<open>run_after\<close>, and the primary key.\<close>

definition job_key :: "queue_job \<Rightarrow> bool \<times> int \<times> time \<times> string" where
  "job_key j = (jb_Status j = QueueJobStatusRetry, jb_Priority j, jb_RunAfter j, jb_ID j)"

definition find_job :: "string \<Rightarrow> time \<Rightarrow> string list \<Rightarrow> queue_job list \<Rightarrow> queue_job option" where
  "find_job q now locked rows =
     (case sort_key job_key (filter (claimable q now locked) rows) of [] \<Rightarrow> None | j # _ \<Rightarrow> Some j)"

definition ErrJobExceededDeadline :: string where
  "ErrJobExceededDeadline = ''the job did not complete before its deadline''"

definition expired :: "time \<Rightarrow> queue_job \<Rightarrow> bool" where
  "expired now j = (case jb_Deadline j of Some t \<Rightarrow> t < now | None \<Rightarrow> False)"

text \<open>A claimed job that is not expired counts a retry unless it is run for the first time.\<close>

definition start_job :: "queue_job \<Rightarrow> queue_job" where
  "start_job j = (if jb_Status j \<noteq> QueueJobStatusPending then j\<lparr>jb_Retries := jb_Retries j + 1\<rparr> else j)"

text \<open>The readings of the clock in one call of \<open>handleJob\<close>, and the random number of the back-off.\<close>

record job_clock =
  ck_find :: time
  ck_deadline :: time
  ck_ran :: time
  ck_backoff :: time
  ck_rand :: int

definition finish_job :: "job_clock \<Rightarrow> string option \<Rightarrow> queue_job \<Rightarrow> queue_job" where
  "finish_job ck jobErr job =
     (let j = job\<lparr>jb_RanAt := Some (ck_ran ck)\<rparr> in
      case jobErr of
        Some e \<Rightarrow>
          (if jb_Retries j < jb_MaxRetries j
           then j\<lparr>jb_Status := QueueJobStatusRetry, jb_RunAfter := CalculateBackoff (ck_backoff ck) (ck_rand ck) (jb_Retries j)\<rparr>
           else j\<lparr>jb_Status := QueueJobStatusFailed\<rparr>)\<lparr>jb_Error := Some e\<rparr>
      | None \<Rightarrow> j\<lparr>jb_Status := QueueJobStatusProcessed\<rparr>)"

definition update_row :: "queue_job \<Rightarrow> queue_job list \<Rightarrow> queue_job list" where
  "update_row j rows = map (\<lambda>r. if jb_ID r = jb_ID j then j else r) rows"

text \<open>
  What the transaction makes of the job it has claimed: the job with its retries counted and the error, if any.
\<close>

definition run_job :: "job_clock \<Rightarrow> (queue_job \<Rightarrow> string option) \<Rightarrow> queue_job \<Rightarrow> queue_job \<times> string option" where
  "run_job ck exec job =
     (if expired (ck_deadline ck) job then (job, Some ErrJobExceededDeadline)
      else let j = start_job job in (j, exec j))"

text \<open>
  One call of \<open>handleJob\<close>. \<open>exec\<close> is what running the handler on a job gives, \<open>db\<close> which statement of the
  transaction fails, if any; \<open>locked\<close> are the rows that other transactions hold. The results are the table,
  the identifier of the job, whether it was processed, and whether the call returns an error.
\<close>

datatype db_outcome = DbOk | FindFails | UpdateFails

definition handleJob ::
  "string \<Rightarrow> job_clock \<Rightarrow> (queue_job \<Rightarrow> string option) \<Rightarrow> db_outcome \<Rightarrow> string list \<Rightarrow> queue_job list \<Rightarrow>
     queue_job list \<times> string \<times> bool \<times> bool" where
  "handleJob q ck exec db locked rows =
     (if db = FindFails then (rows, [], False, True)
      else case find_job q (ck_find ck) locked rows of
        None \<Rightarrow> (rows, [], False, False)
      | Some job \<Rightarrow>
          let (job', jobErr) = run_job ck exec job
          in (if db = UpdateFails then rows else update_row (finish_job ck jobErr job') rows,
              jb_ID job, jobErr = None, db = UpdateFails))"

text \<open>How long \<open>start\<close> waits before the next check: one nanosecond when a job was found.\<close>

definition next_check :: "handler_conf \<Rightarrow> queue_job list \<times> string \<times> bool \<times> bool \<Rightarrow> int" where
  "next_check h res = (case res of (_, jobID, _, err) \<Rightarrow> if \<not> err \<and> jobID \<noteq> [] then 1 else hd_CheckInterval h)"

section \<open>Garbage collection, purging and cleaning\<close>

definition finished :: "QueueJobStatus \<Rightarrow> bool" where
  "finished st \<longleftrightarrow> st \<in> {QueueJobStatusProcessed, QueueJobStatusFailed}"

definition gc_deletes :: "time \<Rightarrow> queue_job \<Rightarrow> bool" where
  "gc_deletes now j \<longleftrightarrow> finished (jb_Status j) \<and>
     (case jb_RanAt j of Some t \<Rightarrow> t + jb_ArchivalDuration j < now | None \<Rightarrow> False)"

definition runGarbageCollection :: "time \<Rightarrow> queue_job list \<Rightarrow> queue_job list" where
  "runGarbageCollection now rows = filter (\<lambda>j. \<not> gc_deletes now j) rows"

record PurgeJobsRequest =
  pj_Queues :: "string list"
  pj_Statuses :: "QueueJobStatus list"

definition purge_matches :: "PurgeJobsRequest \<Rightarrow> queue_job \<Rightarrow> bool" where
  "purge_matches req j =
     (if pj_Queues req = [] \<and> pj_Statuses req = [] then True
      else (pj_Queues req \<noteq> [] \<longrightarrow> jb_Queue j \<in> set (pj_Queues req)) \<and>
           (pj_Statuses req \<noteq> [] \<longrightarrow> jb_Status j \<in> set (pj_Statuses req)))"

definition PurgeJobs :: "PurgeJobsRequest \<Rightarrow> queue_job list \<Rightarrow> queue_job list" where
  "PurgeJobs req rows = filter (\<lambda>j. \<not> purge_matches req j) rows"

record clean_Config =
  qc_Enabled :: bool
  qc_EnablePurge :: bool
  qc_Interval :: int
  qc_RetentionAge :: int
  qc_BatchSize :: int
  qc_PurgeStatuses :: "string list"

definition clean_NewDefaultConfig :: clean_Config where
  "clean_NewDefaultConfig = \<lparr>qc_Enabled = False, qc_EnablePurge = False, qc_Interval = Hour,
     qc_RetentionAge = 7 * 24 * Hour, qc_BatchSize = 5000,
     qc_PurgeStatuses = [''processed'', ''failed'']\<rparr>"

text \<open>\<open>start\<close>: whether the loop runs, or the error of an unusable configuration.\<close>

definition clean_start :: "clean_Config \<Rightarrow> string + bool" where
  "clean_start cfg =
     (if \<not> qc_Enabled cfg then Inr False
      else if qc_Interval cfg \<le> 0 \<or> qc_RetentionAge cfg \<le> 0 \<or> qc_BatchSize cfg \<le> 0
      then Inl ''queueclean: interval, retention_age and batch_size must be positive when enabled''
      else if qc_PurgeStatuses cfg = [] then Inl ''queueclean: purge_statuses cannot be empty''
      else Inr True)"

text \<open>The configured statuses are strings, compared with the value of the column.\<close>

fun status_string :: "QueueJobStatus \<Rightarrow> string" where
  "status_string QueueJobStatusPending = ''pending''"
| "status_string QueueJobStatusProcessed = ''processed''"
| "status_string QueueJobStatusRetry = ''retry''"
| "status_string QueueJobStatusFailed = ''failed''"

definition clean_candidate :: "string \<Rightarrow> time \<Rightarrow> queue_job \<Rightarrow> bool" where
  "clean_candidate st cutoff j \<longleftrightarrow> status_string (jb_Status j) = st \<and> jb_CreatedAt j < cutoff"

definition countCandidates :: "string \<Rightarrow> time \<Rightarrow> queue_job list \<Rightarrow> int" where
  "countCandidates st cutoff rows = int (length (filter (clean_candidate st cutoff) rows))"

text \<open>The identifiers of the subquery of \<open>purgeBatch\<close>: the oldest candidates.\<close>

definition purge_ids :: "clean_Config \<Rightarrow> string \<Rightarrow> time \<Rightarrow> queue_job list \<Rightarrow> string list" where
  "purge_ids cfg st cutoff rows =
     map jb_ID (take (nat (qc_BatchSize cfg)) (sort_key jb_CreatedAt (filter (clean_candidate st cutoff) rows)))"

definition purgeBatch :: "clean_Config \<Rightarrow> string \<Rightarrow> time \<Rightarrow> queue_job list \<Rightarrow> queue_job list" where
  "purgeBatch cfg st cutoff rows = filter (\<lambda>j. jb_ID j \<notin> set (purge_ids cfg st cutoff rows)) rows"

text \<open>\<open>countErr\<close> and \<open>purgeErr\<close> say for which statuses the statement fails; the cycle goes on with the next one.\<close>

record clean_env =
  ce_pool :: bool
  ce_countErr :: "string \<Rightarrow> bool"
  ce_purgeErr :: "string \<Rightarrow> bool"

fun clean_statuses :: "clean_Config \<Rightarrow> clean_env \<Rightarrow> time \<Rightarrow> string list \<Rightarrow> queue_job list \<Rightarrow> queue_job list" where
  "clean_statuses cfg E cutoff [] rows = rows"
| "clean_statuses cfg E cutoff (st # sts) rows =
     (if ce_countErr E st then clean_statuses cfg E cutoff sts rows
      else if min (countCandidates st cutoff rows) (qc_BatchSize cfg) = 0 then clean_statuses cfg E cutoff sts rows
      else if \<not> qc_EnablePurge cfg then clean_statuses cfg E cutoff sts rows
      else if ce_purgeErr E st then clean_statuses cfg E cutoff sts rows
      else clean_statuses cfg E cutoff sts (purgeBatch cfg st cutoff rows))"

definition clean_runCycle :: "clean_Config \<Rightarrow> clean_env \<Rightarrow> time \<Rightarrow> queue_job list \<Rightarrow> queue_job list" where
  "clean_runCycle cfg E now rows =
     (if ce_pool E then clean_statuses cfg E (now - qc_RetentionAge cfg) (qc_PurgeStatuses cfg) rows else rows)"

section \<open>The table, the transactions in flight and their steps\<close>

text \<open>
  The server of one queue: the table, the claimed jobs of the transactions in flight, as \<open>handleJob\<close> holds
  them in memory, and for every identifier the number of handler runs whose outcome was committed. A
  transaction holds the lock of its row from the claim to its end, so a delete statement that matches
  the row waits: its step is possible only when no matching row is claimed. An insert that would break
  the unique index on the fingerprints of active rows is refused.
\<close>

record queue_sys =
  qs_rows :: "queue_job list"
  qs_running :: "queue_job list"
  qs_recorded :: "string \<Rightarrow> nat"

definition queue_start :: queue_sys where
  "queue_start = \<lparr>qs_rows = [], qs_running = [], qs_recorded = (\<lambda>_. 0)\<rparr>"

definition active_rows :: "queue_job list \<Rightarrow> queue_job list" where
  "active_rows rows = filter (\<lambda>j. active (jb_Status j)) rows"

definition insertable :: "queue_job \<Rightarrow> queue_job list \<Rightarrow> bool" where
  "insertable j rows \<longleftrightarrow> jb_ID j \<notin> jb_ID ` set rows \<and> jb_Fingerprint j \<notin> jb_Fingerprint ` set (active_rows rows)"

definition unlocked :: "(queue_job \<Rightarrow> bool) \<Rightarrow> queue_sys \<Rightarrow> bool" where
  "unlocked P s \<longleftrightarrow> (\<forall>r \<in> set (qs_rows s). P r \<longrightarrow> jb_ID r \<notin> jb_ID ` set (qs_running s))"

inductive queue_step :: "handler_conf \<Rightarrow> queue_sys \<Rightarrow> queue_sys \<Rightarrow> bool" for h where
  enqueue: "\<lbrakk>insertable j (qs_rows s); jb_Status j = QueueJobStatusPending; jb_Retries j = 0; qs_recorded s (jb_ID j) = 0\<rbrakk> \<Longrightarrow>
    queue_step h s (s\<lparr>qs_rows := qs_rows s @ [j]\<rparr>)"
| claim: "\<lbrakk>int (length (qs_running s)) < hd_Concurrency h;
     find_job (hd_Queue h) now (map jb_ID (qs_running s)) (qs_rows s) = Some job\<rbrakk> \<Longrightarrow>
    queue_step h s (s\<lparr>qs_running := job # qs_running s\<rparr>)"
| commit: "\<lbrakk>qs_running s = xs @ job # ys; run_job ck exec job = (job', jobErr)\<rbrakk> \<Longrightarrow>
    queue_step h s \<lparr>qs_rows = update_row (finish_job ck jobErr job') (qs_rows s), qs_running = xs @ ys,
      qs_recorded = (if expired (ck_deadline ck) job then qs_recorded s
                     else (qs_recorded s)(jb_ID job := qs_recorded s (jb_ID job) + 1))\<rparr>"
| abort: "qs_running s = xs @ job # ys \<Longrightarrow> queue_step h s (s\<lparr>qs_running := xs @ ys\<rparr>)"
| collect: "unlocked (gc_deletes now) s \<Longrightarrow> queue_step h s (s\<lparr>qs_rows := runGarbageCollection now (qs_rows s)\<rparr>)"
| purge: "unlocked (purge_matches req) s \<Longrightarrow> queue_step h s (s\<lparr>qs_rows := PurgeJobs req (qs_rows s)\<rparr>)"
| clean: "unlocked (\<lambda>r. jb_ID r \<in> set (purge_ids cfg st cutoff (qs_rows s))) s \<Longrightarrow>
    queue_step h s (s\<lparr>qs_rows := purgeBatch cfg st cutoff (qs_rows s)\<rparr>)"

inductive queue_reach :: "handler_conf \<Rightarrow> queue_sys \<Rightarrow> bool" for h where
  start: "queue_reach h queue_start"
| step: "queue_reach h s \<Longrightarrow> queue_step h s t \<Longrightarrow> queue_reach h t"

section \<open>Claiming\<close>

lemma find_job_Some:
  assumes "find_job q now locked rows = Some j"
  shows "j \<in> set rows" "claimable q now locked j"
    "\<And>r. r \<in> set rows \<Longrightarrow> claimable q now locked r \<Longrightarrow> job_key j \<le> job_key r"
proof -
  from assms obtain js where s: "sort_key job_key (filter (claimable q now locked) rows) = j # js"
    by (auto simp: find_job_def split: list.splits)
  have set: "set (j # js) = {r \<in> set rows. claimable q now locked r}"
    using arg_cong [OF s, of set] by auto
  have "sorted (map job_key (j # js))"
    using sorted_sort_key [of job_key "filter (claimable q now locked) rows"] s by simp
  then show "job_key j \<le> job_key r" if "r \<in> set rows" "claimable q now locked r" for r
    using that set by (auto simp del: less_eq_prod_simp)
  show "j \<in> set rows" "claimable q now locked j" using set by auto
qed

lemma find_job_None: "find_job q now locked rows = None \<longleftrightarrow> (\<forall>r \<in> set rows. \<not> claimable q now locked r)"
proof -
  have "find_job q now locked rows = None \<longleftrightarrow> sort_key job_key (filter (claimable q now locked) rows) = []"
    by (auto simp: find_job_def split: list.splits)
  also have "\<dots> \<longleftrightarrow> set (sort_key job_key (filter (claimable q now locked) rows)) = {}"
    by (simp only: set_empty)
  finally show ?thesis by auto
qed

section \<open>Finishing\<close>

lemma start_job_fields [simp]:
  "jb_ID (start_job j) = jb_ID j" "jb_Fingerprint (start_job j) = jb_Fingerprint j" "jb_Queue (start_job j) = jb_Queue j"
  "jb_MaxRetries (start_job j) = jb_MaxRetries j" "jb_Status (start_job j) = jb_Status j"
  "jb_Deadline (start_job j) = jb_Deadline j" "jb_RunAfter (start_job j) = jb_RunAfter j"
  by (simp_all add: start_job_def)

lemma finish_job_fields [simp]:
  "jb_ID (finish_job ck e j) = jb_ID j" "jb_Fingerprint (finish_job ck e j) = jb_Fingerprint j"
  "jb_Queue (finish_job ck e j) = jb_Queue j" "jb_MaxRetries (finish_job ck e j) = jb_MaxRetries j"
  "jb_Retries (finish_job ck e j) = jb_Retries j" "jb_Deadline (finish_job ck e j) = jb_Deadline j"
  "jb_RanAt (finish_job ck e j) = Some (ck_ran ck)"
  by (simp_all add: finish_job_def Let_def split: option.splits)

lemma finish_job_Status:
  "jb_Status (finish_job ck e j) =
     (if e = None then QueueJobStatusProcessed
      else if jb_Retries j < jb_MaxRetries j then QueueJobStatusRetry else QueueJobStatusFailed)"
  by (simp add: finish_job_def Let_def split: option.splits)

lemma run_job_fields:
  assumes "run_job ck exec j = (j', e)"
  shows "jb_ID j' = jb_ID j" "jb_Fingerprint j' = jb_Fingerprint j" "jb_MaxRetries j' = jb_MaxRetries j"
    "jb_Queue j' = jb_Queue j" "expired (ck_deadline ck) j \<Longrightarrow> jb_Retries j' = jb_Retries j \<and> e \<noteq> None"
    "\<not> expired (ck_deadline ck) j \<Longrightarrow>
       jb_Retries j' = (if jb_Status j = QueueJobStatusPending then jb_Retries j else jb_Retries j + 1)"
  using assms by (auto simp: run_job_def Let_def start_job_def split: if_splits)

lemma update_row_map [simp]: "map jb_ID (update_row j rows) = map jb_ID rows"
  by (simp add: update_row_def)

lemma set_update_row: "set (update_row j rows) = {r \<in> set rows. jb_ID r \<noteq> jb_ID j} \<union> (if jb_ID j \<in> jb_ID ` set rows then {j} else {})"
  by (force simp: update_row_def image_iff)

lemma active_iff: "active st \<longleftrightarrow> st = QueueJobStatusPending \<or> st = QueueJobStatusRetry"
  by (cases st) simp_all

lemma update_row_fingerprints:
  assumes "\<And>r. r \<in> set rows \<Longrightarrow> jb_ID r = jb_ID j \<Longrightarrow> active (jb_Status r) \<and> jb_Fingerprint r = jb_Fingerprint j"
    and "distinct (map jb_Fingerprint (active_rows rows))"
  shows "distinct (map jb_Fingerprint (active_rows (update_row j rows)))"
proof -
  let ?g = "\<lambda>r. if jb_ID r = jb_ID j then j else r"
  have "map jb_Fingerprint (active_rows (update_row j rows)) =
      map jb_Fingerprint (filter (\<lambda>r. active (jb_Status (?g r))) rows)"
    unfolding active_rows_def update_row_def filter_map o_def map_map
    by (rule map_cong [OF refl]) (use assms(1) in auto)
  also have "filter (\<lambda>r. active (jb_Status (?g r))) rows = filter (\<lambda>r. active (jb_Status (?g r))) (active_rows rows)"
    unfolding active_rows_def filter_filter by (rule filter_cong [OF refl]) (use assms(1) in auto)
  finally show ?thesis using distinct_map_filter [OF assms(2)] by simp
qed

section \<open>The invariant of the table\<close>

text \<open>
  The counters of a row: a pending job has not been run to a committed outcome, a job in retry has
  retries left, and the committed runs exceed the counted retries by at most one.
\<close>

definition row_ok :: "(string \<Rightarrow> nat) \<Rightarrow> queue_job \<Rightarrow> bool" where
  "row_ok rec r \<longleftrightarrow> jb_Retries r \<le> jb_MaxRetries r \<and> rec (jb_ID r) \<le> jb_Retries r + 1 \<and>
     (jb_Status r = QueueJobStatusPending \<longrightarrow> jb_Retries r = 0 \<and> rec (jb_ID r) = 0) \<and>
     (jb_Status r = QueueJobStatusRetry \<longrightarrow> jb_Retries r < jb_MaxRetries r)"

definition queue_inv :: "handler_conf \<Rightarrow> queue_sys \<Rightarrow> bool" where
  "queue_inv h s \<longleftrightarrow> distinct (map jb_ID (qs_rows s)) \<and> distinct (map jb_ID (qs_running s)) \<and>
     int (length (qs_running s)) \<le> max 0 (hd_Concurrency h) \<and>
     (\<forall>j \<in> set (qs_running s). j \<in> set (qs_rows s) \<and> jb_Queue j = hd_Queue h \<and> active (jb_Status j)) \<and>
     distinct (map jb_Fingerprint (active_rows (qs_rows s))) \<and> (\<forall>r \<in> set (qs_rows s). row_ok (qs_recorded s) r)"

lemma queue_inv_delete:
  assumes "queue_inv h s" "unlocked (\<lambda>r. \<not> P r) s"
  shows "queue_inv h (s\<lparr>qs_rows := filter P (qs_rows s)\<rparr>)"
proof -
  have "active_rows (filter P (qs_rows s)) = filter P (active_rows (qs_rows s))"
    by (simp add: active_rows_def conj_commute)
  moreover have "P j" if "j \<in> set (qs_running s)" for j
    using assms that by (auto simp: queue_inv_def unlocked_def)
  ultimately show ?thesis
    using assms(1) by (auto simp: queue_inv_def distinct_map_filter)
qed

lemma row_ok_finish:
  assumes "row_ok rec j" "active (jb_Status j)" "run_job ck exec j = (j', e)"
  shows "row_ok (if expired (ck_deadline ck) j then rec else rec(jb_ID j := rec (jb_ID j) + 1)) (finish_job ck e j')"
  using assms(1,2) run_job_fields [OF assms(3)]
  by (cases "expired (ck_deadline ck) j") (auto simp: row_ok_def finish_job_Status active_iff)

lemma distinct_same_ID: "distinct (map jb_ID rows) \<Longrightarrow> r \<in> set rows \<Longrightarrow> j \<in> set rows \<Longrightarrow> jb_ID r = jb_ID j \<Longrightarrow> r = j"
  by (auto simp: distinct_map dest: inj_onD)

lemma queue_inv_commit:
  assumes inv: "queue_inv h s" and run: "qs_running s = xs @ job # ys" "run_job ck exec job = (job', e)"
  shows "queue_inv h \<lparr>qs_rows = update_row (finish_job ck e job') (qs_rows s), qs_running = xs @ ys,
      qs_recorded = (if expired (ck_deadline ck) job then qs_recorded s
                     else (qs_recorded s)(jb_ID job := qs_recorded s (jb_ID job) + 1))\<rparr>" (is "queue_inv h ?t")
proof -
  let ?fin = "finish_job ck e job'"
  note f = run_job_fields [OF run(2)]
  have job: "job \<in> set (qs_rows s)" "active (jb_Status job)" "row_ok (qs_recorded s) job"
    using inv run(1) by (auto simp: queue_inv_def)
  have uniq: "r = job" if "r \<in> set (qs_rows s)" "jb_ID r = jb_ID job" for r
    using distinct_same_ID [OF _ that(1) job(1) that(2)] inv by (simp add: queue_inv_def)
  have "distinct (map jb_Fingerprint (active_rows (update_row ?fin (qs_rows s))))"
    by (rule update_row_fingerprints) (use inv uniq job(2) f in \<open>auto simp: queue_inv_def\<close>)
  moreover have "row_ok (qs_recorded ?t) r" if "r \<in> set (qs_rows ?t)" for r
    using that row_ok_finish [OF job(3,2) run(2)] inv f(1)
    by (auto simp: set_update_row queue_inv_def row_ok_def split: if_splits)
  moreover have "j \<in> set (qs_rows ?t)" if "j \<in> set (xs @ ys)" for j
  proof -
    have "jb_ID j \<noteq> jb_ID job" using that inv run(1) by (auto simp: queue_inv_def rev_image_eqI)
    then show ?thesis using that inv run(1) f(1) by (auto simp: queue_inv_def set_update_row)
  qed
  ultimately show ?thesis
    using inv run(1) by (auto simp: queue_inv_def)
qed

lemma queue_inv_step: "queue_step h s t \<Longrightarrow> queue_inv h s \<Longrightarrow> queue_inv h t"
proof (induction rule: queue_step.induct)
  case (enqueue j s)
  then show ?case by (auto simp: queue_inv_def insertable_def active_rows_def row_ok_def)
next
  case (claim s now job)
  then show ?case
    using find_job_Some [OF claim(2)] by (auto simp: queue_inv_def claimable_def)
next
  case (commit s xs job ys ck exec job' jobErr)
  then show ?case by (rule queue_inv_commit [rotated])
next
  case (abort s xs job ys)
  then show ?case by (auto simp: queue_inv_def)
next
  case (collect now s)
  then show ?case by (simp add: runGarbageCollection_def queue_inv_delete)
next
  case (purge req s)
  then show ?case by (simp add: PurgeJobs_def queue_inv_delete)
next
  case (clean cfg st cutoff s)
  then show ?case by (simp add: purgeBatch_def queue_inv_delete)
qed

lemma queue_inv_reach: "queue_reach h s \<Longrightarrow> queue_inv h s"
proof (induction rule: queue_reach.induct)
  case start
  show ?case by (simp add: queue_inv_def queue_start_def active_rows_def)
qed (rule queue_inv_step)

text \<open>
  C0. In every interleaving of inserts, claims, commits, aborted transactions, garbage collection, purges
  and cleaning, no job is run by two transactions at once and no more than \<open>Concurrency\<close> are in flight;
  a job that is running is an unchanged active row of the queue; active rows have different
  fingerprints; and no row has more retries than allowed or more than \<open>MaxRetries + 1\<close> recorded runs.
\<close>

theorem queue_exclusive:
  assumes "queue_reach h s"
  shows "distinct (map jb_ID (qs_running s)) \<and> int (length (qs_running s)) \<le> max 0 (hd_Concurrency h) \<and>
    (\<forall>j \<in> set (qs_running s). j \<in> set (qs_rows s) \<and> jb_Queue j = hd_Queue h \<and> active (jb_Status j)) \<and>
    distinct (map jb_Fingerprint (active_rows (qs_rows s))) \<and>
    (\<forall>r \<in> set (qs_rows s). jb_Retries r \<le> jb_MaxRetries r \<and> qs_recorded s (jb_ID r) \<le> jb_MaxRetries r + 1)"
  using queue_inv_reach [OF assms] by (fastforce simp: queue_inv_def row_ok_def)

definition demo_job :: queue_job where
  "demo_job = \<lparr>jb_ID = ''a'', jb_Fingerprint = ''f'', jb_Queue = ''q'', jb_Status = QueueJobStatusPending, jb_Payload = ''{}'',
     jb_Retries = 0, jb_MaxRetries = 1, jb_RunAfter = 0, jb_RanAt = None, jb_Error = None, jb_Deadline = None,
     jb_ArchivalDuration = 1, jb_CreatedAt = 0, jb_Priority = 0\<rparr>"

definition demo_handler :: handler_conf where
  "demo_handler = handler_New 4 ''q'' [opt_Concurrency 1]"

lemma demo_claimed: "queue_reach demo_handler \<lparr>qs_rows = [demo_job], qs_running = [demo_job], qs_recorded = (\<lambda>_. 0)\<rparr>"
proof -
  have "queue_step demo_handler queue_start (queue_start\<lparr>qs_rows := qs_rows queue_start @ [demo_job]\<rparr>)"
    by (rule queue_step.enqueue) (simp_all add: insertable_def queue_start_def demo_job_def active_rows_def)
  then have r: "queue_reach demo_handler \<lparr>qs_rows = [demo_job], qs_running = [], qs_recorded = (\<lambda>_. 0)\<rparr>"
    using queue_reach.step [OF queue_reach.start] by (fastforce simp: queue_start_def)
  have "queue_step demo_handler \<lparr>qs_rows = [demo_job], qs_running = [], qs_recorded = (\<lambda>_. 0)\<rparr>
      (\<lparr>qs_rows = [demo_job], qs_running = [], qs_recorded = (\<lambda>_. 0)\<rparr>\<lparr>qs_running := [demo_job]\<rparr>)"
    using queue_step.claim [of "\<lparr>qs_rows = [demo_job], qs_running = [], qs_recorded = (\<lambda>_. 0)\<rparr>" demo_handler 5 demo_job]
    by (simp add: demo_handler_def handler_New_def WithOptions_def opt_Concurrency_def opt_JobTimeout_def Let_def
        find_job_def claimable_def demo_job_def)
  with r show ?thesis by (auto dest: queue_reach.step)
qed

theorem queue_exclusive_witness:
  "distinct (map jb_Fingerprint (active_rows [demo_job])) \<and> int (length [demo_job]) \<le> max 0 (hd_Concurrency demo_handler)"
  using queue_exclusive [OF demo_claimed] by simp

section \<open>A job that keeps failing\<close>

definition handle_all :: "string \<Rightarrow> (queue_job \<Rightarrow> string option) \<Rightarrow> job_clock list \<Rightarrow> queue_job list \<Rightarrow> queue_job list" where
  "handle_all q exec cks rows = fold (\<lambda>ck rows. fst (handleJob q ck exec DbOk [] rows)) cks rows"

lemma handle_all_snoc: "handle_all q exec (cks @ [ck]) rows = fst (handleJob q ck exec DbOk [] (handle_all q exec cks rows))"
  by (simp add: handle_all_def)

lemma handleJob_single:
  assumes "claimable q (ck_find ck) [] j" "\<And>r. r \<in> set (xs @ ys) \<Longrightarrow> jb_Queue r \<noteq> q \<and> jb_ID r \<noteq> jb_ID j"
  shows "fst (handleJob q ck exec DbOk [] (xs @ j # ys)) =
     xs @ (case run_job ck exec j of (j', e) \<Rightarrow> finish_job ck e j') # ys"
proof -
  have "filter (claimable q (ck_find ck) []) (xs @ j # ys) = [j]"
    using assms by (auto simp: claimable_def filter_empty_conv)
  then have f: "find_job q (ck_find ck) [] (xs @ j # ys) = Some j" by (simp add: find_job_def)
  obtain j' e where r: "run_job ck exec j = (j', e)" by fastforce
  have "update_row (finish_job ck e j') zs = zs" if "set zs \<subseteq> set (xs @ ys)" for zs
    unfolding update_row_def by (rule map_idI) (use assms(2) that run_job_fields(1) [OF r] in auto)
  then show ?thesis
    using f r run_job_fields(1) [OF r] by (simp add: handleJob_def update_row_def)
qed

text \<open>The clocks are late enough for every attempt: the job is due, and the back-off of the previous attempt is over.\<close>

definition attempts_due :: "queue_job \<Rightarrow> job_clock list \<Rightarrow> bool" where
  "attempts_due j cks \<longleftrightarrow> (\<forall>i < length cks.
     (if i = 0 then jb_RunAfter j else CalculateBackoff (ck_backoff (cks ! (i - 1))) (ck_rand (cks ! (i - 1))) (i - 1))
       \<le> ck_find (cks ! i))"

definition fresh_failing :: "string \<Rightarrow> queue_job \<Rightarrow> queue_job list \<Rightarrow> (queue_job \<Rightarrow> string option) \<Rightarrow> bool" where
  "fresh_failing q j others exec \<longleftrightarrow> jb_Queue j = q \<and> jb_Status j = QueueJobStatusPending \<and> jb_Retries j = 0 \<and>
     jb_Deadline j = None \<and> (\<forall>r \<in> set others. jb_Queue r \<noteq> q \<and> jb_ID r \<noteq> jb_ID j) \<and> (\<forall>r. exec r \<noteq> None)"

lemma failing_attempts:
  assumes "fresh_failing q j (xs @ ys) exec" "attempts_due j cks" "length cks = jb_MaxRetries j + 1"
  shows "k < length cks \<Longrightarrow> \<exists>j'. handle_all q exec (take (Suc k) cks) (xs @ j # ys) = xs @ j' # ys \<and>
     jb_ID j' = jb_ID j \<and> jb_Queue j' = q \<and> jb_Deadline j' = None \<and> jb_MaxRetries j' = jb_MaxRetries j \<and> jb_Retries j' = k \<and>
     jb_Status j' = (if k < jb_MaxRetries j then QueueJobStatusRetry else QueueJobStatusFailed) \<and>
     (k < jb_MaxRetries j \<longrightarrow> jb_RunAfter j' = CalculateBackoff (ck_backoff (cks ! k)) (ck_rand (cks ! k)) k)"
proof (induction k)
  case 0
  let ?ck = "cks ! 0"
  have c: "claimable q (ck_find ?ck) [] j"
    using assms 0 by (auto simp: fresh_failing_def attempts_due_def claimable_def)
  have t: "take (Suc 0) cks = [?ck]" using 0 by (cases cks) simp_all
  obtain e where "exec j = Some e" using assms(1) by (auto simp: fresh_failing_def)
  then show ?case
    using handleJob_single [OF c, of xs ys exec] assms(1)
    by (auto simp: t handle_all_def fresh_failing_def run_job_def expired_def start_job_def finish_job_def Let_def)
next
  case (Suc k)
  let ?ck = "cks ! Suc k"
  from Suc obtain j' where j': "handle_all q exec (take (Suc k) cks) (xs @ j # ys) = xs @ j' # ys"
    "jb_ID j' = jb_ID j" "jb_Queue j' = q" "jb_Deadline j' = None" "jb_MaxRetries j' = jb_MaxRetries j" "jb_Retries j' = k"
    "jb_Status j' = QueueJobStatusRetry" "jb_RunAfter j' = CalculateBackoff (ck_backoff (cks ! k)) (ck_rand (cks ! k)) k"
    using assms(3) by auto
  have "CalculateBackoff (ck_backoff (cks ! k)) (ck_rand (cks ! k)) k \<le> ck_find ?ck"
    using assms(2) Suc.prems by (auto simp: attempts_due_def dest: spec [of _ "Suc k"])
  then have c: "claimable q (ck_find ?ck) [] j'" using j' by (simp add: claimable_def)
  obtain e where "exec (start_job j') = Some e" using assms(1) by (auto simp: fresh_failing_def)
  moreover have "\<And>r. r \<in> set (xs @ ys) \<Longrightarrow> jb_Queue r \<noteq> q \<and> jb_ID r \<noteq> jb_ID j'"
    using assms(1) j'(2) by (auto simp: fresh_failing_def)
  ultimately show ?case
    using handleJob_single [OF c, of xs ys exec] j' Suc.prems
    by (auto simp: take_Suc_conv_app_nth [OF Suc.prems] handle_all_snoc run_job_def expired_def start_job_def finish_job_def Let_def)
qed

text \<open>
  C0. A job whose handler always fails is given up after exactly \<open>MaxRetries + 1\<close> attempts: with calls of
  \<open>handleJob\<close> after each back-off it is in retry after every attempt but the last, one counted retry
  fewer than attempts, due again only after the back-off, and it is failed after the last one.
  The rows of other queues are not touched.
\<close>

theorem failing_job_gives_up:
  assumes "fresh_failing q j (xs @ ys) exec" "attempts_due j cks" "length cks = jb_MaxRetries j + 1" "k < length cks"
  shows "\<exists>j'. handle_all q exec (take (Suc k) cks) (xs @ j # ys) = xs @ j' # ys \<and> jb_ID j' = jb_ID j \<and> jb_Retries j' = k \<and>
     jb_Status j' = (if k < jb_MaxRetries j then QueueJobStatusRetry else QueueJobStatusFailed) \<and>
     (k < jb_MaxRetries j \<longrightarrow> jb_RunAfter j' = CalculateBackoff (ck_backoff (cks ! k)) (ck_rand (cks ! k)) k)"
  using failing_attempts [OF assms] by blast

definition demo_clock :: "time \<Rightarrow> job_clock" where
  "demo_clock t = \<lparr>ck_find = t, ck_deadline = t, ck_ran = t, ck_backoff = t, ck_rand = 3\<rparr>"

theorem failing_job_gives_up_witness:
  "\<exists>j'. handle_all ''q'' (\<lambda>_. Some ''e'') [demo_clock 0, demo_clock (16 * Second)] [demo_job] = [j'] \<and>
     jb_Status j' = QueueJobStatusFailed"
proof -
  have "attempts_due demo_job [demo_clock 0, demo_clock (16 * Second)]"
    by (auto simp: attempts_due_def demo_job_def demo_clock_def less_Suc_eq CalculateBackoff_def wrap64_def)
  moreover have "fresh_failing ''q'' demo_job [] (\<lambda>_. Some ''e'')" by (simp add: fresh_failing_def demo_job_def)
  ultimately show ?thesis
    using failing_job_gives_up [of "''q''" demo_job "[]" "[]" "\<lambda>_. Some ''e''" "[demo_clock 0, demo_clock (16 * Second)]" 1]
    by (auto simp: demo_job_def)
qed

text \<open>
  A job past its deadline is not given up: as no retry is counted for it, it is rescheduled by every
  call that claims it, as long as it had retries left when the deadline passed.
\<close>

lemma expired_job_never_fails:
  assumes "\<And>ck. ck \<in> set cks \<Longrightarrow> d < ck_deadline ck"
  shows "distinct (map jb_ID rows) \<Longrightarrow> j \<in> set rows \<Longrightarrow> active (jb_Status j) \<Longrightarrow> jb_Deadline j = Some d \<Longrightarrow> jb_Retries j < jb_MaxRetries j \<Longrightarrow>
     \<exists>j' \<in> set (handle_all q exec cks rows). jb_ID j' = jb_ID j \<and> active (jb_Status j') \<and> jb_Retries j' = jb_Retries j"
  using assms
proof (induction cks arbitrary: rows j)
  case Nil
  then show ?case by (auto simp: handle_all_def)
next
  case (Cons ck cks)
  define rows' where "rows' = fst (handleJob q ck exec DbOk [] rows)"
  have d: "distinct (map jb_ID rows')"
    using Cons.prems(1) by (auto simp: rows'_def handleJob_def split: option.splits prod.splits)
  have "\<exists>j' \<in> set rows'. jb_ID j' = jb_ID j \<and> active (jb_Status j') \<and> jb_Deadline j' = Some d \<and>
      jb_Retries j' = jb_Retries j \<and> jb_MaxRetries j' = jb_MaxRetries j"
  proof (cases "find_job q (ck_find ck) [] rows")
    case None
    then show ?thesis using Cons.prems by (auto simp: rows'_def handleJob_def)
  next
    case (Some r)
    obtain r' e where r': "run_job ck exec r = (r', e)" by fastforce
    have rows': "rows' = update_row (finish_job ck e r') rows" using Some r' by (simp add: rows'_def handleJob_def)
    show ?thesis
    proof (cases "jb_ID r = jb_ID j")
      case True
      then have "r = j"
        using distinct_same_ID [OF Cons.prems(1)] find_job_Some(1) [OF Some] Cons.prems(2) by blast
      then have "r' = j \<and> e \<noteq> None" using r' Cons.prems by (auto simp: run_job_def expired_def)
      then have "finish_job ck e r' \<in> set rows'" "active (jb_Status (finish_job ck e r'))"
        using Cons.prems rows' by (auto simp: set_update_row finish_job_Status)
      then show ?thesis using \<open>r' = j \<and> e \<noteq> None\<close> Cons.prems by (intro bexI [of _ "finish_job ck e r'"]) auto
    next
      case False
      then show ?thesis using Cons.prems rows' run_job_fields(1) [OF r'] by (auto simp: set_update_row)
    qed
  qed
  then obtain j' where j': "j' \<in> set rows'" "jb_ID j' = jb_ID j" "active (jb_Status j')" "jb_Deadline j' = Some d"
    "jb_Retries j' = jb_Retries j" "jb_MaxRetries j' = jb_MaxRetries j" by blast
  have "\<exists>i \<in> set (handle_all q exec cks rows'). jb_ID i = jb_ID j' \<and> active (jb_Status i) \<and> jb_Retries i = jb_Retries j'"
    by (rule Cons.IH [OF d j'(1,3,4)]) (use j' Cons.prems in auto)
  then show ?case using j' by (simp add: handle_all_def rows'_def)
qed

end
