(* ===== verification/Spec2Isabelle.thy ===== *)
theory Spec2Isabelle
  imports Pipeline CrawlerLifecycle Concurrency AnimeTitle JobQueue
begin

text \<open>
  A verification library for the DHT crawler of \<open>bitagent\<close>: the identifier arithmetic of
  \<open>src/internal/protocol\<close> and the binary tree of the routing table.
\<close>

end
